(* ===== verification/Prelude.thy ===== *)
theory Prelude
  imports Complex_Main "HOL-Library.AList" "HOL-Library.Char_ord" "HOL-Library.List_Lexorder"
begin

text \<open>
  Shared vocabulary of the development.

  \<^item> Every exception class of the package carries one fixed \<open>code\<close> string and no caller
    data, so a fallible operation returns \<open>'a res\<close>: \<open>Inl code\<close> for the raise,
    \<open>Inr v\<close> for the returned value.
  \<^item> A parameter that the code guards with \<open>type(x) is ...\<close> is a \<open>pyval\<close>, the
    dynamically typed value the caller may really pass; after the guard the code is typed.
  \<^item> A \<open>str\<close> is the \<open>string\<close> of its UTF-8 bytes (a lone surrogate is the three bytes
    of its code point).  The grammars of the package accept ASCII only, where a byte is a
    character and \<open>len\<close> is \<open>length\<close>.
  \<^item> A \<open>dict\<close> is an association list in insertion order: \<open>map_of\<close> is
    \<open>get\<close>, \<open>AList.update\<close> is item assignment (in place, or at the end for a new
    key) and \<open>AList.delete\<close> is \<open>pop\<close>.
\<close>

section \<open>Results\<close>

type_synonym 'a res = "string + 'a"

named_theorems guards \<open>rewrite rules that open a chain of guards\<close>

definition rbind :: "'a res \<Rightarrow> ('a \<Rightarrow> 'b res) \<Rightarrow> 'b res" where
  "rbind m f = (case m of Inl e \<Rightarrow> Inl e | Inr v \<Rightarrow> f v)"

definition require :: "bool \<Rightarrow> string \<Rightarrow> unit res" where
  "require c code = (if c then Inr () else Inl code)"

lemma rbind_simps [simp]:
  "rbind (Inl e) f = Inl e" "rbind (Inr v) f = f v"
  by (simp_all add: rbind_def)

lemma rbind_Inr_iff [guards]:
  "rbind m f = Inr v \<longleftrightarrow> (\<exists>u. m = Inr u \<and> f u = Inr v)"
  by (cases m) auto

lemma rbind_Inl_iff:
  "rbind m f = Inl e \<longleftrightarrow> m = Inl e \<or> (\<exists>u. m = Inr u \<and> f u = Inl e)"
  by (cases m) auto

lemma require_Inr_iff [guards]: "require c code = Inr u \<longleftrightarrow> c"
  by (simp add: require_def)

lemma require_Inl_iff: "require c code = Inl e \<longleftrightarrow> \<not> c \<and> e = code"
  by (auto simp: require_def)

lemma require_simps [simp]: "require True code = Inr ()" "require False code = Inl code"
  by (simp_all add: require_def)

text \<open>
  A stateful method that may raise returns the new state and a result.  \<open>checked\<close> runs a
  check against the state and raises its code without changing the state;
  \<open>sthen\<close> is sequential composition, stopping at the first raise.
\<close>

definition checked :: "('s \<Rightarrow> 'b res) \<Rightarrow> ('b \<Rightarrow> 's \<Rightarrow> 's \<times> 'a res) \<Rightarrow> 's \<Rightarrow> 's \<times> 'a res" where
  "checked f k s = (case f s of Inl e \<Rightarrow> (s, Inl e) | Inr b \<Rightarrow> k b s)"

definition sthen :: "('s \<Rightarrow> 's \<times> 'b res) \<Rightarrow> ('b \<Rightarrow> 's \<Rightarrow> 's \<times> 'a res) \<Rightarrow> 's \<Rightarrow> 's \<times> 'a res" where
  "sthen m k s = (case m s of (s', Inl e) \<Rightarrow> (s', Inl e) | (s', Inr b) \<Rightarrow> k b s')"

lemma checked_Inr_iff [guards]:
  "checked f k s = (s', Inr a) \<longleftrightarrow> (\<exists>b. f s = Inr b \<and> k b s = (s', Inr a))"
  by (auto simp: checked_def split: sum.splits)

lemma checked_Inr [simp]: "f s = Inr b \<Longrightarrow> checked f k s = k b s"
  by (simp add: checked_def)

lemma checked_Inl [simp]: "f s = Inl e \<Longrightarrow> checked f k s = (s, Inl e)"
  by (simp add: checked_def)

lemma sthen_Inr_iff [guards]:
  "sthen m k s = (s', Inr a) \<longleftrightarrow> (\<exists>s1 b. m s = (s1, Inr b) \<and> k b s1 = (s', Inr a))"
  by (auto simp: sthen_def split: sum.splits prod.splits)

lemma sthen_Inr [simp]: "m s = (s1, Inr b) \<Longrightarrow> sthen m k s = k b s1"
  by (simp add: sthen_def)

lemma sthen_Inl [simp]: "m s = (s1, Inl e) \<Longrightarrow> sthen m k s = (s1, Inl e)"
  by (simp add: sthen_def)

lemma checked_keeps:
  "P s \<Longrightarrow> (\<And>b. f s = Inr b \<Longrightarrow> P (fst (k b s))) \<Longrightarrow> P (fst (checked f k s))"
  by (simp add: checked_def split: sum.splits)

lemma sthen_keeps:
  "P (fst (m s)) \<Longrightarrow> (\<And>s1 b. m s = (s1, Inr b) \<Longrightarrow> P s1 \<Longrightarrow> P (fst (k b s1))) \<Longrightarrow> P (fst (sthen m k s))"
  by (auto simp: sthen_def split: sum.splits prod.splits)

text \<open>A \<open>for\<close> loop whose body may raise, threading an accumulator.\<close>

fun rfold :: "('a \<Rightarrow> 's \<Rightarrow> 's res) \<Rightarrow> 'a list \<Rightarrow> 's \<Rightarrow> 's res" where
  "rfold f [] s = Inr s"
| "rfold f (x # xs) s = rbind (f x s) (rfold f xs)"

text \<open>A loop whose body only checks.\<close>

definition rall :: "('a \<Rightarrow> unit res) \<Rightarrow> 'a list \<Rightarrow> unit res" where
  "rall f xs = rfold (\<lambda>x _. f x) xs ()"

lemma rfold_append: "rfold f (xs @ ys) s = rbind (rfold f xs s) (rfold f ys)"
  by (induction xs arbitrary: s) (simp_all add: rbind_def split: sum.splits)

lemma rfold_invariant:
  assumes "rfold f xs s = Inr t" and "P s"
    and "\<And>x s t. x \<in> set xs \<Longrightarrow> P s \<Longrightarrow> f x s = Inr t \<Longrightarrow> P t"
  shows "P t"
  using assms
proof (induction xs arbitrary: s)
  case Nil
  then show ?case by simp
next
  case (Cons x xs)
  from Cons.prems(1) obtain u where u: "f x s = Inr u" "rfold f xs u = Inr t"
    by (auto simp: guards)
  have "P u" using Cons.prems(2,3) u(1) by auto
  with u(2) Cons.prems(3) show ?case by (intro Cons.IH) auto
qed

lemma rall_Inr_iff [guards]: "rall f xs = Inr () \<longleftrightarrow> (\<forall>x \<in> set xs. f x = Inr ())"
proof (induction xs)
  case Nil
  then show ?case by (simp add: rall_def)
next
  case (Cons x xs)
  then show ?case by (cases "f x") (auto simp: rall_def)
qed

lemma rall_Cons: "rall f (x # xs) = rbind (f x) (\<lambda>_. rall f xs)"
  by (simp add: rall_def)

lemma rall_Nil: "rall f [] = Inr ()"
  by (simp add: rall_def)

lemma rbind_assoc: "rbind (rbind m f) g = rbind m (\<lambda>x. rbind (f x) g)"
  by (cases m) simp_all

text \<open>The codes a computation may raise.\<close>

definition raises_only :: "string set \<Rightarrow> 'a res \<Rightarrow> bool" where
  "raises_only S m = (case m of Inl e \<Rightarrow> e \<in> S | Inr _ \<Rightarrow> True)"

lemma raises_only_Inr [simp]: "raises_only S (Inr v)"
  by (simp add: raises_only_def)

lemma raises_only_Inl [simp]: "raises_only S (Inl e) \<longleftrightarrow> e \<in> S"
  by (simp add: raises_only_def)

lemma raises_only_require [simp]: "raises_only S (require c code) \<longleftrightarrow> c \<or> code \<in> S"
  by (simp add: require_def)

lemma raises_only_rbind:
  "raises_only S m \<Longrightarrow> (\<And>v. m = Inr v \<Longrightarrow> raises_only S (f v)) \<Longrightarrow> raises_only S (rbind m f)"
  by (cases m) simp_all

lemma raises_only_rfold:
  "(\<And>x s. x \<in> set xs \<Longrightarrow> raises_only S (f x s)) \<Longrightarrow> raises_only S (rfold f xs s)"
  by (induction xs arbitrary: s) (auto intro: raises_only_rbind)

lemma raises_only_rall: "(\<And>x. x \<in> set xs \<Longrightarrow> raises_only S (f x)) \<Longrightarrow> raises_only S (rall f xs)"
  unfolding rall_def by (rule raises_only_rfold) simp

lemma raises_only_if:
  "(c \<Longrightarrow> raises_only S m) \<Longrightarrow> (\<not> c \<Longrightarrow> raises_only S m') \<Longrightarrow> raises_only S (if c then m else m')"
  by simp

lemmas raises_only_intros = raises_only_rbind raises_only_rfold raises_only_rall

lemma rfold_snoc: "rfold f (xs @ [x]) s = rbind (rfold f xs s) (f x)"
  by (simp add: rfold_append rbind_def split: sum.splits)

section \<open>Dynamically typed values\<close>

datatype pyfloat = Finite rat | Infinite bool | NotANumber

datatype pyval =
    PNone
  | PBool bool
  | PInt int
  | PFloat pyfloat
  | PStr string
  | PObject nat

fun int_of :: "pyval \<Rightarrow> int" where
  "int_of (PInt i) = i"
| "int_of _ = 0"

fun str_of :: "pyval \<Rightarrow> string" where
  "str_of (PStr s) = s"
| "str_of _ = []"

fun is_bool :: "pyval \<Rightarrow> bool" where
  "is_bool (PBool b) = True"
| "is_bool _ = False"

fun is_str :: "pyval \<Rightarrow> bool" where
  "is_str (PStr s) = True"
| "is_str _ = False"

fun truth :: "pyval \<Rightarrow> bool" where
  "truth (PBool b) = b"
| "truth _ = False"

fun is_int_in :: "int \<Rightarrow> int \<Rightarrow> pyval \<Rightarrow> bool" where
  "is_int_in lo hi (PInt i) \<longleftrightarrow> lo \<le> i \<and> i \<le> hi"
| "is_int_in lo hi _ \<longleftrightarrow> False"

fun is_str_in :: "string list \<Rightarrow> pyval \<Rightarrow> bool" where
  "is_str_in xs (PStr s) \<longleftrightarrow> s \<in> set xs"
| "is_str_in xs _ \<longleftrightarrow> False"

lemma is_int_inE [elim]:
  assumes "is_int_in lo hi v"
  obtains i where "v = PInt i" "lo \<le> i" "i \<le> hi"
  using assms by (cases v) auto

lemma is_str_inE [elim]:
  assumes "is_str_in xs v"
  obtains s where "v = PStr s" "s \<in> set xs"
  using assms by (cases v) auto

section \<open>Identifier alphabets\<close>

abbreviation digits :: string where
  "digits \<equiv> ''0123456789''"

abbreviation letters :: string where
  "letters \<equiv> ''abcdefghijklmnopqrstuvwxyzABCDEFGHIJKLMNOPQRSTUVWXYZ''"

definition is_digit :: "char \<Rightarrow> bool" where
  "is_digit c \<longleftrightarrow> c \<in> set digits"

definition safe_id_chars :: "char set" where
  "safe_id_chars = set (letters @ digits @ ''-_.'')"

definition safe_token_chars :: "char set" where
  "safe_token_chars = set (letters @ digits @ ''-_'')"

definition hex_chars :: "char set" where
  "hex_chars = set ''0123456789abcdef''"

definition safe_id_string :: "string \<Rightarrow> bool" where
  "safe_id_string s \<longleftrightarrow> 1 \<le> length s \<and> length s \<le> 128 \<and> list_all (\<lambda>c. c \<in> safe_id_chars) s"

definition hex64_string :: "string \<Rightarrow> bool" where
  "hex64_string s \<longleftrightarrow> length s = 64 \<and> list_all (\<lambda>c. c \<in> hex_chars) s"

definition zero_digest :: string where
  "zero_digest = replicate 64 CHR ''0''"

lemma hex64_zero_digest [simp]: "hex64_string zero_digest"
  by (simp add: hex64_string_def zero_digest_def hex_chars_def list_all_iff)

text \<open>\<open>8-4-4-4-12\<close> lower-case hexadecimal, the shape of a canonical UUID.\<close>

definition uuid_string :: "string \<Rightarrow> bool" where
  "uuid_string s \<longleftrightarrow> length s = 36 \<and>
     list_all (\<lambda>(i, c). if i \<in> {8, 13, 18, 23} then c = CHR ''-'' else c \<in> hex_chars)
       (enumerate 0 s)"

text \<open>The canonical form of a random UUID (version 4).\<close>

definition uuid4_string :: "string \<Rightarrow> bool" where
  "uuid4_string s \<longleftrightarrow> uuid_string s \<and> s ! 14 = CHR ''4'' \<and> s ! 19 \<in> set ''89ab''"

section \<open>Sets returned sorted\<close>

lemma sort_remdups_empty: "sort (remdups xs) = [] \<longleftrightarrow> xs = []"
  by (metis set_empty set_remdups set_sort)

section \<open>Dictionaries\<close>

lemma map_of_update [simp]: "map_of (AList.update k v d) = (map_of d)(k \<mapsto> v)"
  by (rule update_conv')

lemma map_of_delete [simp]: "map_of (AList.delete k d) = (map_of d)(k := None)"
  by (rule delete_conv')

lemma update_new: "k \<notin> fst ` set d \<Longrightarrow> AList.update k v d = d @ [(k, v)]"
  by (induction d) auto

lemma map_of_None_keys: "map_of d k = None \<longleftrightarrow> k \<notin> fst ` set d"
  by (simp add: map_of_eq_None_iff)

lemma length_update_new: "map_of d k = None \<Longrightarrow> length (AList.update k v d) = Suc (length d)"
  by (simp add: update_new map_of_None_keys)

lemma length_update_old: "map_of d k = Some u \<Longrightarrow> length (AList.update k v d) = length d"
  by (induction d) (auto split: if_splits)

lemma distinct_keys_update [simp]:
  "distinct (map fst d) \<Longrightarrow> distinct (map fst (AList.update k v d))"
  by (rule distinct_update)

lemma distinct_keys_filter [simp]:
  "distinct (map fst d) \<Longrightarrow> distinct (map fst (filter P d))"
  by (rule distinct_map_filter)

text \<open>Assigning to a key that is already bound changes one value and nothing else.\<close>

lemma map_fst_update_old:
  "map_of d k = Some v \<Longrightarrow> map fst (AList.update k v' d) = map fst d"
  by (induction d) (auto split: if_splits)

lemma map_snd_update_old:
  assumes "map_of d k = Some v" and "f v' = f v"
  shows "map (f \<circ> snd) (AList.update k v' d) = map (f \<circ> snd) d"
  using assms by (induction d) (auto split: if_splits)

lemma filter_update_old:
  assumes "map_of d k = Some v"
  shows "length (filter (P \<circ> snd) (AList.update k v' d)) + of_bool (P v) =
         length (filter (P \<circ> snd) d) + of_bool (P v')"
  using assms by (induction d) (auto split: if_splits)

lemma set_update_subset: "set (AList.update k v d) \<subseteq> insert (k, v) (set d)"
  by (induction d) auto

text \<open>Updating every entry of a dictionary while iterating over its keys.\<close>

definition adjust :: "('v \<Rightarrow> 'v) \<Rightarrow> 'k \<Rightarrow> ('k \<times> 'v) list \<Rightarrow> ('k \<times> 'v) list" where
  "adjust g k d = (case map_of d k of None \<Rightarrow> d | Some r \<Rightarrow> AList.update k (g r) d)"

lemma update_same: "map_of d k = Some v \<Longrightarrow> AList.update k v d = d"
  by (induction d) auto

lemma adjust_map:
  "distinct (map fst d) \<Longrightarrow> adjust g k d = map (\<lambda>(k', r). (k', if k' = k then g r else r)) d"
proof (induction d)
  case Nil
  then show ?case by (simp add: adjust_def)
next
  case (Cons p d)
  have "k' \<noteq> fst p" if "(k', r) \<in> set d" for k' r
    using Cons.prems that by (metis distinct.simps(2) fst_conv image_eqI list.simps(9) set_map)
  then have m: "map (\<lambda>(k', r). (k', if k' = fst p then g r else r)) d = d"
    by (intro map_idI) auto
  show ?case
  proof (cases "fst p = k")
    case True
    then show ?thesis using m by (cases p) (auto simp: adjust_def)
  next
    case False
    then have "adjust g k (p # d) = p # adjust g k d"
      by (cases p) (auto simp: adjust_def split: option.splits)
    with False Cons show ?thesis by (cases p) auto
  qed
qed

lemma adjust_keys [simp]: "map fst (adjust g k d) = map fst d"
  by (auto simp: adjust_def map_fst_update_old split: option.splits)

lemma fold_adjust:
  "distinct (map fst d) \<Longrightarrow> distinct ks \<Longrightarrow>
     fold (adjust g) ks d = map (\<lambda>(k', r). (k', if k' \<in> set ks then g r else r)) d"
proof (induction ks arbitrary: d)
  case Nil
  then show ?case by (simp add: map_idI)
next
  case (Cons k ks)
  then have "fold (adjust g) (k # ks) d =
      map (\<lambda>(k', r). (k', if k' \<in> set ks then g r else r)) (adjust g k d)"
    by simp
  also have "adjust g k d = map (\<lambda>(k', r). (k', if k' = k then g r else r)) d"
    using Cons.prems by (simp add: adjust_map)
  finally show ?case using Cons.prems by (auto simp: split_beta)
qed

lemma fold_adjust_all:
  "distinct (map fst d) \<Longrightarrow> fold (adjust g) (map fst d) d = map (apsnd g) d"
  by (subst fold_adjust) (auto simp: apsnd_def map_prod_def rev_image_eqI)

section \<open>Traces and ratchets\<close>

text \<open>
  A stateful component is a step function from a state and a call to a new state and an
  output.  A run keeps every call with its output, in order.
\<close>

fun trace :: "('s \<Rightarrow> 'c \<Rightarrow> 's \<times> 'o) \<Rightarrow> 's \<Rightarrow> 'c list \<Rightarrow> ('c \<times> 'o) list" where
  "trace step s [] = []"
| "trace step s (c # cs) = (c, snd (step s c)) # trace step (fst (step s c)) cs"

fun final :: "('s \<Rightarrow> 'c \<Rightarrow> 's \<times> 'o) \<Rightarrow> 's \<Rightarrow> 'c list \<Rightarrow> 's" where
  "final step s [] = s"
| "final step s (c # cs) = final step (fst (step s c)) cs"

lemma trace_append: "trace step s (cs @ ds) = trace step s cs @ trace step (final step s cs) ds"
  by (induction cs arbitrary: s) simp_all

lemma final_append: "final step s (cs @ ds) = final step (final step s cs) ds"
  by (induction cs arbitrary: s) simp_all

text \<open>An invariant of every step holds after every run.\<close>

fun admissible :: "('s \<Rightarrow> 'c \<Rightarrow> bool) \<Rightarrow> ('s \<Rightarrow> 'c \<Rightarrow> 's \<times> 'o) \<Rightarrow> 's \<Rightarrow> 'c list \<Rightarrow> bool" where
  "admissible ok step s [] = True"
| "admissible ok step s (c # cs) \<longleftrightarrow> ok s c \<and> admissible ok step (fst (step s c)) cs"

text \<open>
  A guarded machine keeps its invariant under the calls its environment may make
  (for instance: fresh random identifiers do not repeat).
\<close>

locale guarded_machine =
  fixes step :: "'s \<Rightarrow> 'c \<Rightarrow> 's \<times> 'o"
    and ok :: "'s \<Rightarrow> 'c \<Rightarrow> bool"
    and inv :: "'s \<Rightarrow> bool"
  assumes guarded_step: "inv s \<Longrightarrow> ok s c \<Longrightarrow> inv (fst (step s c))"
begin

lemma guarded_final: "inv s \<Longrightarrow> admissible ok step s cs \<Longrightarrow> inv (final step s cs)"
  by (induction cs arbitrary: s) (simp_all add: guarded_step)

lemma guarded_trace:
  assumes "\<And>s c. inv s \<Longrightarrow> ok s c \<Longrightarrow> P c (snd (step s c))"
  shows "inv s \<Longrightarrow> admissible ok step s cs \<Longrightarrow> (c, out) \<in> set (trace step s cs) \<Longrightarrow> P c out"
proof (induction cs arbitrary: s)
  case (Cons a cs)
  then show ?case using assms [of s a] guarded_step [of s a] by auto
qed simp

end

locale invariant_machine =
  fixes step :: "'s \<Rightarrow> 'c \<Rightarrow> 's \<times> 'o"
    and inv :: "'s \<Rightarrow> bool"
  assumes inv_step: "inv s \<Longrightarrow> inv (fst (step s c))"
begin

lemma inv_final: "inv s \<Longrightarrow> inv (final step s cs)"
  by (induction cs arbitrary: s) (simp_all add: inv_step)

end

sublocale invariant_machine \<subseteq> guarded: guarded_machine step "\<lambda>_ _. True" inv
  by unfold_locales (rule inv_step)

text \<open>
  A ratchet is a rank that no step lowers.  A call whose output is a hit takes the rank
  from below the level to the level, so no run has two hits.
\<close>

locale ratchet = invariant_machine step inv
  for step :: "'s \<Rightarrow> 'c \<Rightarrow> 's \<times> 'o" and inv :: "'s \<Rightarrow> bool" +
  fixes rank :: "'s \<Rightarrow> nat"
    and hit :: "'c \<Rightarrow> 'o \<Rightarrow> bool"
    and level :: nat
  assumes rank_mono: "inv s \<Longrightarrow> rank s \<le> rank (fst (step s c))"
    and hit_raises: "inv s \<Longrightarrow> hit c (snd (step s c)) \<Longrightarrow>
      rank s < level \<and> level \<le> rank (fst (step s c))"
begin

abbreviation hits :: "'s \<Rightarrow> 'c list \<Rightarrow> ('c \<times> 'o) list" where
  "hits s cs \<equiv> filter (\<lambda>(c, out). hit c out) (trace step s cs)"

lemma rank_final: "inv s \<Longrightarrow> rank s \<le> rank (final step s cs)"
proof (induction cs arbitrary: s)
  case Nil
  then show ?case by simp
next
  case (Cons c cs)
  then have "rank s \<le> rank (fst (step s c))" by (simp add: rank_mono)
  also have "\<dots> \<le> rank (final step (fst (step s c)) cs)"
    using Cons by (simp add: inv_step)
  finally show ?case by simp
qed

lemma no_hit_above: "inv s \<Longrightarrow> level \<le> rank s \<Longrightarrow> hits s cs = []"
proof (induction cs arbitrary: s)
  case Nil
  then show ?case by simp
next
  case (Cons c cs)
  have "\<not> hit c (snd (step s c))"
    using hit_raises [of s c] Cons.prems by linarith
  moreover have "hits (fst (step s c)) cs = []"
    using Cons.prems rank_mono [of s c] by (intro Cons.IH) (auto simp: inv_step)
  ultimately show ?case by simp
qed

lemma at_most_once: "inv s \<Longrightarrow> length (hits s cs) \<le> 1"
proof (induction cs arbitrary: s)
  case Nil
  then show ?case by simp
next
  case (Cons c cs)
  show ?case
  proof (cases "hit c (snd (step s c))")
    case True
    with Cons.prems have "hits (fst (step s c)) cs = []"
      by (intro no_hit_above) (auto simp: inv_step hit_raises)
    with True show ?thesis by simp
  next
    case False
    with Cons show ?thesis by (simp add: inv_step)
  qed
qed

lemma hit_reaches_level:
  assumes "inv s" and "hits s cs \<noteq> []"
  shows "level \<le> rank (final step s cs)"
  using assms
proof (induction cs arbitrary: s)
  case Nil
  then show ?case by simp
next
  case (Cons c cs)
  have i: "inv (fst (step s c))" using Cons.prems by (simp add: inv_step)
  show ?case
  proof (cases "hit c (snd (step s c))")
    case True
    then have "level \<le> rank (fst (step s c))" using Cons.prems by (simp add: hit_raises)
    also have "\<dots> \<le> rank (final step (fst (step s c)) cs)" by (rule rank_final [OF i])
    finally show ?thesis by simp
  next
    case False
    with Cons i show ?thesis by simp
  qed
qed

end

section \<open>Event logs\<close>

text \<open>
  A state that is built from its own log.  A step on no state starts a log; a step on a
  state either leaves it as it is or appends its event.  \<open>fold_log\<close> presents a stream to
  the steps and asks after each event that the log has grown by it; it accepts exactly the
  logs of the states that steps can reach, and returns that state.
\<close>

definition fold_log_step ::
    "('s option \<Rightarrow> 'e \<Rightarrow> 's res) \<Rightarrow> ('s \<Rightarrow> 'e list) \<Rightarrow> string \<Rightarrow> 'e \<Rightarrow> nat \<times> 's option \<Rightarrow> (nat \<times> 's option) res" where
  "fold_log_step step entries code e st = (case st of (n, so) \<Rightarrow>
     rbind (step so e) (\<lambda>s. rbind (require (length (entries s) = Suc n) code) (\<lambda>_. Inr (Suc n, Some s))))"

definition fold_log ::
    "('s option \<Rightarrow> 'e \<Rightarrow> 's res) \<Rightarrow> ('s \<Rightarrow> 'e list) \<Rightarrow> string \<Rightarrow> 'e list \<Rightarrow> (nat \<times> 's option) res" where
  "fold_log step entries code es = rfold (fold_log_step step entries code) es (0, None)"

lemma fold_log_snoc:
  "fold_log step entries code (es @ [e]) = rbind (fold_log step entries code es) (fold_log_step step entries code e)"
  by (simp add: fold_log_def rfold_snoc)

inductive sourced :: "('s option \<Rightarrow> 'e \<Rightarrow> 's res) \<Rightarrow> 's \<Rightarrow> bool" for step where
  sourced_first: "step None e = Inr s \<Longrightarrow> sourced step s"
| sourced_next: "sourced step s \<Longrightarrow> step (Some s) e = Inr s' \<Longrightarrow> sourced step s'"

locale event_log =
  fixes step :: "'s option \<Rightarrow> 'e \<Rightarrow> 's res" and entries :: "'s \<Rightarrow> 'e list"
  assumes first_logs: "step None e = Inr s \<Longrightarrow> entries s = [e]"
    and step_logs: "step (Some s) e = Inr s' \<Longrightarrow> s' = s \<or> entries s' = entries s @ [e]"
begin

lemma live_is_folded: "sourced step s \<Longrightarrow> fold_log step entries code (entries s) = Inr (length (entries s), Some s)"
proof (induction rule: sourced.induct)
  case (sourced_first e s)
  then show ?case using first_logs [of e s] by (simp add: fold_log_def fold_log_step_def)
next
  case (sourced_next s e s')
  then show ?case
    using step_logs [of s e s'] by (auto simp: fold_log_snoc fold_log_step_def)
qed

lemma folded_is_live:
  "fold_log step entries code es = Inr (n, so) \<Longrightarrow>
     n = length es \<and> (case so of None \<Rightarrow> es = [] | Some s \<Rightarrow> sourced step s \<and> entries s = es)"
proof (induction es arbitrary: n so rule: rev_induct)
  case Nil
  then show ?case by (simp add: fold_log_def)
next
  case (snoc e es)
  then obtain m ro s where f: "fold_log step entries code es = Inr (m, ro)" "step ro e = Inr s"
      "length (entries s) = Suc m" "n = Suc m" "so = Some s"
    by (auto simp: fold_log_snoc fold_log_step_def guards)
  note IH = snoc.IH [OF f(1)]
  show ?case
  proof (cases ro)
    case None
    then show ?thesis using f IH first_logs [of e s] by (auto intro: sourced_first)
  next
    case (Some r)
    then show ?thesis using f IH step_logs [of r e s] by (auto intro: sourced_next)
  qed
qed

end

end
