(* ===== verification/Supervision.thy ===== *)
theory Supervision
  imports Prelude
begin

text \<open>
  The deadline schedule of one Run (\<open>run_supervision_policy.py\<close>) and the action and
  closeout reducer over it (\<open>run_supervision_reducer.py\<close>).  Both are pure functions
  over unverified observations, so every guarded parameter is a \<open>pyval\<close>.
\<close>

section \<open>The deadline schedule\<close>

definition SECOND_US :: int where "SECOND_US = 1000000"
definition WORK_US :: int where "WORK_US = 270 * SECOND_US"
definition FLUSH_US :: int where "FLUSH_US = 20 * SECOND_US"
definition REAP_US :: int where "REAP_US = 30 * SECOND_US"
definition MAX_MONO_US :: int where "MAX_MONO_US = 2 ^ 63 - 1"

lemmas us_defs = SECOND_US_def WORK_US_def FLUSH_US_def REAP_US_def MAX_MONO_US_def

definition boot_id_matches :: "pyval \<Rightarrow> bool" where
  "boot_id_matches v = (case v of PStr s \<Rightarrow> safe_id_string s | _ \<Rightarrow> False)"

definition sup_valid_time :: "pyval \<Rightarrow> bool" where
  "sup_valid_time v = is_int_in 0 MAX_MONO_US v"

record supervision_window =
  w_phase :: string
  w_work_deadline_us :: int
  w_flush_deadline_us :: int
  w_hard_deadline_us :: int
  w_revoke_due :: bool
  w_interrupt_due :: bool
  w_kill_or_reap_due :: bool

definition window_of :: "int \<Rightarrow> int \<Rightarrow> pyval \<Rightarrow> supervision_window" where
  "window_of launch observed stop_requested =
     (let work_deadline = launch + WORK_US;
          stop = (if stop_requested = PNone then work_deadline
                  else min (int_of stop_requested) work_deadline);
          flush_deadline = min (stop + FLUSH_US) (launch + 290 * SECOND_US);
          hard_deadline = min (stop + REAP_US) (launch + 300 * SECOND_US);
          phase = (if observed < stop then ''work''
                   else if observed < flush_deadline then ''interrupt_flush''
                   else if observed < hard_deadline then ''kill_reap''
                   else ''hard_deadline_exceeded'')
      in \<lparr>w_phase = phase, w_work_deadline_us = work_deadline,
          w_flush_deadline_us = flush_deadline, w_hard_deadline_us = hard_deadline,
          w_revoke_due = (observed \<ge> stop), w_interrupt_due = (observed \<ge> stop),
          w_kill_or_reap_due = (observed \<ge> flush_deadline)\<rparr>)"

definition assess_supervision ::
    "pyval \<Rightarrow> pyval \<Rightarrow> pyval \<Rightarrow> pyval \<Rightarrow> pyval \<Rightarrow> supervision_window res" where
  "assess_supervision launch_boot observed_boot launch_us observed_us stop_requested_us =
     (if \<not> boot_id_matches launch_boot \<or> \<not> boot_id_matches observed_boot
      then Inl ''boot_invalid''
      else if launch_boot \<noteq> observed_boot then Inl ''boot_mismatch''
      else if \<not> sup_valid_time launch_us \<or> \<not> sup_valid_time observed_us
      then Inl ''time_invalid''
      else if int_of observed_us < int_of launch_us then Inl ''time_order''
      else if stop_requested_us \<noteq> PNone \<and>
        (\<not> sup_valid_time stop_requested_us \<or>
         \<not> (int_of launch_us \<le> int_of stop_requested_us \<and>
            int_of stop_requested_us \<le> int_of observed_us))
      then Inl ''stop_invalid''
      else if int_of launch_us > MAX_MONO_US - 300 * SECOND_US then Inl ''deadline_overflow''
      else Inr (window_of (int_of launch_us) (int_of observed_us) stop_requested_us))"

section \<open>Actions and closeout\<close>

record action_history =
  h_revoke_attempted :: pyval
  h_interrupt_attempted :: pyval
  h_kill_attempted :: pyval
  h_early_stop_us :: pyval

record worker_observation =
  o_root_state :: pyval
  o_group_state :: pyval
  o_stable_group_identity :: pyval
  o_stdout_eof :: pyval
  o_stderr_eof :: pyval
  o_capture_complete :: pyval
  o_revocation_state :: pyval
  o_forwarder_closeout :: pyval

record action_decision =
  d_phase :: string
  d_action :: "string option"
  d_hard_deadline_reached :: bool
  d_early_stop_to_record_us :: "int option"

record closeout_assessment =
  c_state :: string
  c_gaps :: "string list"

definition ROOT :: "string list" where
  "ROOT = [''running'', ''exited'', ''reaped'', ''failed_before_process'', ''unknown'']"
definition GROUP :: "string list" where
  "GROUP = [''present'', ''absent'', ''unknown'']"
definition REVOCATION :: "string list" where
  "REVOCATION = [''not_attempted'', ''acknowledged'', ''failed'', ''unknown'']"
definition CLOSEOUT :: "string list" where
  "CLOSEOUT = [''open'', ''draining'', ''closed'', ''overdue'', ''unknown'']"

lemmas sup_vocabulary = ROOT_def GROUP_def REVOCATION_def CLOSEOUT_def

definition valid_history :: "action_history \<Rightarrow> bool" where
  "valid_history h \<longleftrightarrow>
     list_all is_bool [h_revoke_attempted h, h_interrupt_attempted h, h_kill_attempted h] \<and>
     (truth (h_revoke_attempted h) \<or>
      \<not> (truth (h_interrupt_attempted h) \<or> truth (h_kill_attempted h))) \<and>
     (h_early_stop_us h = PNone \<or> is_int_in 0 (2 ^ 63 - 1) (h_early_stop_us h))"

definition valid_observation :: "worker_observation \<Rightarrow> bool" where
  "valid_observation w \<longleftrightarrow>
     is_str_in ROOT (o_root_state w) \<and> is_str_in GROUP (o_group_state w) \<and>
     is_str_in REVOCATION (o_revocation_state w) \<and>
     is_str_in CLOSEOUT (o_forwarder_closeout w) \<and>
     list_all is_bool [o_stable_group_identity w, o_stdout_eof w, o_stderr_eof w,
                       o_capture_complete w] \<and>
     \<not> (o_root_state w = PStr ''failed_before_process'' \<and> o_group_state w \<noteq> PStr ''absent'')"

definition sup_check :: "action_history \<Rightarrow> worker_observation \<Rightarrow> unit res" where
  "sup_check h w =
     (if \<not> valid_history h \<or> \<not> valid_observation w then Inl ''supervision_argument''
      else if (\<not> truth (h_revoke_attempted h) \<and>
               o_revocation_state w \<noteq> PStr ''not_attempted'') \<or>
              (truth (h_revoke_attempted h) \<and>
               o_revocation_state w = PStr ''not_attempted'')
      then Inl ''supervision_order''
      else Inr ())"

text \<open>The window in force: an early stop the caller recorded narrows it.\<close>

definition effective_window ::
    "action_history \<Rightarrow> pyval \<Rightarrow> pyval \<Rightarrow> pyval \<Rightarrow> pyval \<Rightarrow> pyval \<Rightarrow> supervision_window res" where
  "effective_window h launch_boot observed_boot launch_us observed_us stop_requested_us =
     rbind (assess_supervision launch_boot observed_boot launch_us observed_us stop_requested_us)
       (\<lambda>window.
          if h_early_stop_us h = PNone then Inr window
          else rbind (assess_supervision launch_boot observed_boot launch_us observed_us
                        (h_early_stop_us h))
            (\<lambda>_. assess_supervision launch_boot observed_boot launch_us observed_us
               (PInt (min (if stop_requested_us \<noteq> PNone then int_of stop_requested_us
                           else w_work_deadline_us window)
                          (int_of (h_early_stop_us h))))))"

definition early_end :: "worker_observation \<Rightarrow> bool" where
  "early_end w = is_str_in [''exited'', ''reaped'', ''failed_before_process''] (o_root_state w)"

definition early_descendants :: "worker_observation \<Rightarrow> bool" where
  "early_descendants w \<longleftrightarrow>
     is_str_in [''exited'', ''reaped''] (o_root_state w) \<and> o_group_state w \<noteq> PStr ''absent''"

definition can_signal :: "action_history \<Rightarrow> worker_observation \<Rightarrow> bool" where
  "can_signal h w \<longleftrightarrow> truth (h_revoke_attempted h) \<and> truth (o_stable_group_identity w) \<and>
     o_group_state w = PStr ''present''"

definition decide :: "supervision_window \<Rightarrow> string option \<Rightarrow> bool \<Rightarrow> int option \<Rightarrow> action_decision" where
  "decide window action hard early =
     \<lparr>d_phase = w_phase window, d_action = action, d_hard_deadline_reached = hard,
      d_early_stop_to_record_us = early\<rparr>"

definition choose_action ::
    "action_history \<Rightarrow> worker_observation \<Rightarrow> supervision_window \<Rightarrow> int \<Rightarrow> action_decision res" where
  "choose_action h w window observed =
     (if early_descendants w \<and> h_early_stop_us h = PNone \<and> truth (h_revoke_attempted h)
      then Inl ''early_stop_required''
      else if w_phase window = ''hard_deadline_exceeded''
      then Inr (decide window None True None)
      else if (w_revoke_due window \<or> early_end w) \<and> \<not> truth (h_revoke_attempted h)
      then Inr (decide window (Some ''revoke_lease'') False
             (if early_descendants w \<and> h_early_stop_us h = PNone then Some observed else None))
      else if can_signal h w \<and> w_kill_or_reap_due window \<and> \<not> truth (h_kill_attempted h)
      then Inr (decide window (Some ''signal_kill'') False None)
      else if can_signal h w \<and> w_interrupt_due window \<and> \<not> truth (h_interrupt_attempted h)
      then Inr (decide window (Some ''signal_interrupt'') False None)
      else Inr (decide window None False None))"

definition next_supervision_action ::
    "action_history \<Rightarrow> worker_observation \<Rightarrow> pyval \<Rightarrow> pyval \<Rightarrow> pyval \<Rightarrow> pyval \<Rightarrow> pyval \<Rightarrow>
     action_decision res" where
  "next_supervision_action h w launch_boot observed_boot launch_us observed_us stop_requested_us =
     rbind (sup_check h w) (\<lambda>_.
       rbind (effective_window h launch_boot observed_boot launch_us observed_us
                stop_requested_us)
         (\<lambda>window. choose_action h w window (int_of observed_us)))"

definition closeout_gaps :: "action_history \<Rightarrow> worker_observation \<Rightarrow> string list" where
  "closeout_gaps h w =
     (let spawned = (o_root_state w \<noteq> PStr ''failed_before_process'')
      in map snd (filter fst
        [(\<not> is_str_in [''reaped'', ''failed_before_process''] (o_root_state w), ''root_not_reaped''),
         (spawned \<and> \<not> truth (o_stable_group_identity w), ''group_identity_unverified''),
         (spawned \<and> o_group_state w \<noteq> PStr ''absent'', ''group_not_confirmed_absent''),
         (spawned \<and> \<not> truth (o_stdout_eof w), ''stdout_eof_missing''),
         (spawned \<and> \<not> truth (o_stderr_eof w), ''stderr_eof_missing''),
         (spawned \<and> \<not> truth (o_capture_complete w), ''capture_incomplete''),
         (\<not> truth (h_revoke_attempted h) \<or> o_revocation_state w \<noteq> PStr ''acknowledged'',
          ''revocation_unconfirmed''),
         (o_forwarder_closeout w \<noteq> PStr ''closed'',
          ''forwarder_closeout_'' @ str_of (o_forwarder_closeout w))]))"

definition assess_supervisor_closeout ::
    "action_history \<Rightarrow> worker_observation \<Rightarrow> closeout_assessment res" where
  "assess_supervisor_closeout h w =
     rbind (sup_check h w) (\<lambda>_.
       let gaps = closeout_gaps h w
       in Inr \<lparr>c_state = (if gaps = [] then ''claimed_complete'' else ''held''),
               c_gaps = sort gaps\<rparr>)"

section \<open>The schedule\<close>

text \<open>Where the Run has to stop working: its own deadline or an earlier request.\<close>

definition stop_point :: "int \<Rightarrow> pyval \<Rightarrow> int" where
  "stop_point launch stop_requested =
     (if stop_requested = PNone then launch + WORK_US
      else min (int_of stop_requested) (launch + WORK_US))"

lemma assess_supervision_Inr_iff [guards]:
  "assess_supervision lb ob l obs stop = Inr w \<longleftrightarrow>
     boot_id_matches lb \<and> lb = ob \<and> sup_valid_time l \<and> sup_valid_time obs \<and>
     int_of l \<le> int_of obs \<and>
     (stop = PNone \<or>
      sup_valid_time stop \<and> int_of l \<le> int_of stop \<and> int_of stop \<le> int_of obs) \<and>
     int_of l \<le> MAX_MONO_US - 300 * SECOND_US \<and>
     w = window_of (int_of l) (int_of obs) stop"
  by (auto simp: assess_supervision_def)

lemma window_of_stop_point:
  "window_of l obs stop =
     \<lparr>w_phase = (if obs < stop_point l stop then ''work''
                 else if obs < min (stop_point l stop + FLUSH_US) (l + 290 * SECOND_US)
                 then ''interrupt_flush''
                 else if obs < min (stop_point l stop + REAP_US) (l + 300 * SECOND_US)
                 then ''kill_reap'' else ''hard_deadline_exceeded''),
      w_work_deadline_us = l + WORK_US,
      w_flush_deadline_us = min (stop_point l stop + FLUSH_US) (l + 290 * SECOND_US),
      w_hard_deadline_us = min (stop_point l stop + REAP_US) (l + 300 * SECOND_US),
      w_revoke_due = (stop_point l stop \<le> obs),
      w_interrupt_due = (stop_point l stop \<le> obs),
      w_kill_or_reap_due = (min (stop_point l stop + FLUSH_US) (l + 290 * SECOND_US) \<le> obs)\<rparr>"
  by (simp add: window_of_def stop_point_def Let_def)

lemma stop_point_le: "stop_point l stop \<le> l + WORK_US"
  by (simp add: stop_point_def)

lemma stop_point_cases:
  "stop_point l stop = l + WORK_US \<or> stop_point l stop = int_of stop"
  by (auto simp: stop_point_def min_def)

definition phase_rank :: "string \<Rightarrow> nat" where
  "phase_rank p = (if p = ''work'' then 0 else if p = ''interrupt_flush'' then 1
                   else if p = ''kill_reap'' then 2 else 3)"

lemma window_rank:
  "phase_rank (w_phase (window_of l obs stop)) =
     (if obs < stop_point l stop then 0
      else if obs < min (stop_point l stop + FLUSH_US) (l + 290 * SECOND_US) then 1
      else if obs < min (stop_point l stop + REAP_US) (l + 300 * SECOND_US) then 2 else 3)"
  by (auto simp: window_of_stop_point phase_rank_def)


lemma window_flags:
  "w_revoke_due (window_of l obs stop) = (w_phase (window_of l obs stop) \<noteq> ''work'')"
  "w_interrupt_due (window_of l obs stop) = (w_phase (window_of l obs stop) \<noteq> ''work'')"
  "w_kill_or_reap_due (window_of l obs stop) =
     (w_phase (window_of l obs stop) \<in> {''kill_reap'', ''hard_deadline_exceeded''})"
  using stop_point_le [of l stop]
  by (auto simp: window_of_stop_point us_defs min_def split: if_splits)


abbreviation boot_a :: pyval where
  "boot_a \<equiv> PStr ''boot-a''"

lemma boot_a_matches [simp]: "boot_id_matches boot_a"
  by (simp add: boot_id_matches_def safe_id_string_def safe_id_chars_def)


text \<open>
  C31: Time only moves the schedule forward and a stop request only shortens it.  For one
  Run, a later observation never reports an earlier phase, and adding or advancing a stop
  request never reports an earlier phase nor a later flush or hard deadline.
\<close>

theorem supervision_monotone:
  assumes "assess_supervision boot boot launch (PInt t) stop = Inr w"
    and "assess_supervision boot boot launch (PInt t') stop' = Inr w'"
    and "t \<le> t'"
    and "stop' = stop \<or> stop = PNone \<or>
         (stop' \<noteq> PNone \<and> int_of stop' \<le> int_of stop)"
  shows "phase_rank (w_phase w) \<le> phase_rank (w_phase w') \<and>
    w_flush_deadline_us w' \<le> w_flush_deadline_us w \<and>
    w_hard_deadline_us w' \<le> w_hard_deadline_us w"
proof -
  let ?l = "int_of launch"
  from assms(1,2) have w: "w = window_of ?l t stop" and w': "w' = window_of ?l t' stop'"
    by (auto simp: guards)
  have sp: "stop_point ?l stop' \<le> stop_point ?l stop"
    using assms(4) by (auto simp: stop_point_def)
  have "phase_rank (w_phase w) \<le> phase_rank (w_phase w')"
    using sp assms(3) by (auto simp: w w' window_rank)
  moreover have "w_flush_deadline_us w' \<le> w_flush_deadline_us w \<and>
      w_hard_deadline_us w' \<le> w_hard_deadline_us w"
    using sp by (auto simp: w w' window_of_stop_point)
  ultimately show ?thesis by simp
qed

theorem supervision_monotone_witness:
  "phase_rank (w_phase (window_of 0 1000000 PNone)) \<le>
     phase_rank (w_phase (window_of 0 25000000 (PInt 1000000))) \<and>
   w_phase (window_of 0 1000000 PNone) = ''work'' \<and>
   w_phase (window_of 0 25000000 (PInt 1000000)) = ''kill_reap''"
proof -
  have h: "assess_supervision boot_a boot_a (PInt 0) (PInt 1000000) PNone =
      Inr (window_of 0 1000000 PNone)"
    "assess_supervision boot_a boot_a (PInt 0) (PInt 25000000) (PInt 1000000) =
      Inr (window_of 0 25000000 (PInt 1000000))"
    by (simp_all add: guards sup_valid_time_def us_defs)
  have "w_phase (window_of 0 1000000 PNone) = ''work'' \<and>
      w_phase (window_of 0 25000000 (PInt 1000000)) = ''kill_reap''"
    by (simp add: window_of_def us_defs Let_def)
  then show ?thesis using supervision_monotone [OF h] by simp
qed

section \<open>Actions\<close>

lemma decide_simps [simp]:
  "d_phase (decide window action hard early) = w_phase window"
  "d_action (decide window action hard early) = action"
  "d_hard_deadline_reached (decide window action hard early) = hard"
  "d_early_stop_to_record_us (decide window action hard early) = early"
  by (simp_all add: decide_def)

text \<open>The four outcomes of an accepted choice, each with the guard that leads to it.\<close>

lemma choose_action_cases:
  assumes "choose_action h w window obs = Inr d"
  obtains
    (idle) "d_action d = None" "d_phase d = w_phase window"
  | (revoke) "d_action d = Some ''revoke_lease''" "d_phase d = w_phase window"
      "w_phase window \<noteq> ''hard_deadline_exceeded''" "\<not> truth (h_revoke_attempted h)"
  | (kill) "d_action d = Some ''signal_kill''" "d_phase d = w_phase window"
      "w_phase window \<noteq> ''hard_deadline_exceeded''" "can_signal h w"
      "w_kill_or_reap_due window" "\<not> truth (h_kill_attempted h)"
  | (interrupt) "d_action d = Some ''signal_interrupt''" "d_phase d = w_phase window"
      "w_phase window \<noteq> ''hard_deadline_exceeded''" "can_signal h w"
      "w_interrupt_due window" "\<not> truth (h_interrupt_attempted h)"
proof -
  note a = assms [unfolded choose_action_def]
  show thesis
  proof (cases "early_descendants w \<and> h_early_stop_us h = PNone \<and> truth (h_revoke_attempted h)")
    case True
    with a show thesis by simp
  next
    case c1: False
    note a = a [unfolded if_not_P [OF c1]]
    show thesis
    proof (cases "w_phase window = ''hard_deadline_exceeded''")
      case True
      with a show thesis by (intro idle) auto
    next
      case c2: False
      note a = a [unfolded if_not_P [OF c2]]
      show thesis
      proof (cases "(w_revoke_due window \<or> early_end w) \<and> \<not> truth (h_revoke_attempted h)")
        case True
        with a c2 show thesis by (intro revoke) auto
      next
        case c3: False
        note a = a [unfolded if_not_P [OF c3]]
        show thesis
          using a c2 by (auto split: if_splits intro: kill interrupt idle)
      qed
    qed
  qed
qed

text \<open>
  C16: The reducer contains a Run safely.  Whatever the history and observation, an
  accepted decision revokes the lease before any signal, never repeats an attempted action,
  signals only a process group that is present and has a stable identity, kills only from
  the flush deadline in force on, and does nothing once the hard deadline has passed.
\<close>

theorem supervision_action_safe:
  assumes "next_supervision_action h w launch_boot observed_boot launch observed stop = Inr d"
  shows "\<exists>window. effective_window h launch_boot observed_boot launch observed stop = Inr window \<and>
    d_phase d = w_phase window \<and>
    (case d_action d of None \<Rightarrow> True
     | Some a \<Rightarrow>
        w_phase window \<noteq> ''hard_deadline_exceeded'' \<and>
        (if a = ''revoke_lease'' then \<not> truth (h_revoke_attempted h)
         else truth (h_revoke_attempted h) \<and> truth (o_stable_group_identity w) \<and>
           o_group_state w = PStr ''present'' \<and> w_phase window \<noteq> ''work'' \<and>
           (if a = ''signal_kill''
            then \<not> truth (h_kill_attempted h) \<and>
                 w_flush_deadline_us window \<le> int_of observed
            else a = ''signal_interrupt'' \<and> \<not> truth (h_interrupt_attempted h))))"
proof -
  from assms obtain window where eff:
      "effective_window h launch_boot observed_boot launch observed stop = Inr window"
    and ch: "choose_action h w window (int_of observed) = Inr d"
    by (auto simp: next_supervision_action_def guards)
  obtain s where win: "window = window_of (int_of launch) (int_of observed) s"
    using eff by (auto simp: effective_window_def guards split: if_splits)
  note f = window_flags [of "int_of launch" "int_of observed" s, folded win]
  have k: "w_kill_or_reap_due window \<Longrightarrow> w_flush_deadline_us window \<le> int_of observed"
    by (simp add: win window_of_stop_point)
  from ch show ?thesis
  proof (cases rule: choose_action_cases)
    case idle
    then show ?thesis using eff by simp
  next
    case revoke
    then show ?thesis using eff by simp
  next
    case kill
    then show ?thesis using eff f k by (auto simp: can_signal_def)
  next
    case interrupt
    then show ?thesis using eff f by (simp add: can_signal_def)
  qed
qed

abbreviation hist_revoked :: action_history where
  "hist_revoked \<equiv> \<lparr>h_revoke_attempted = PBool True, h_interrupt_attempted = PBool True,
     h_kill_attempted = PBool False, h_early_stop_us = PNone\<rparr>"

abbreviation obs_running :: worker_observation where
  "obs_running \<equiv> \<lparr>o_root_state = PStr ''running'', o_group_state = PStr ''present'',
     o_stable_group_identity = PBool True, o_stdout_eof = PBool False,
     o_stderr_eof = PBool False, o_capture_complete = PBool False,
     o_revocation_state = PStr ''failed'', o_forwarder_closeout = PStr ''open''\<rparr>"

theorem supervision_action_safe_witness:
  "\<exists>d. next_supervision_action hist_revoked obs_running boot_a boot_a (PInt 0)
         (PInt 295000000) PNone = Inr d \<and> d_action d = Some ''signal_kill'' \<and>
       (\<exists>window. effective_window hist_revoked boot_a boot_a (PInt 0) (PInt 295000000) PNone =
           Inr window \<and> w_flush_deadline_us window \<le> 295000000)"
proof -
  let ?d = "\<lparr>d_phase = ''kill_reap'', d_action = Some ''signal_kill'',
     d_hard_deadline_reached = False, d_early_stop_to_record_us = None\<rparr>"
  have h: "next_supervision_action hist_revoked obs_running boot_a boot_a (PInt 0)
         (PInt 295000000) PNone = Inr ?d"
    by (simp add: next_supervision_action_def sup_check_def valid_history_def
        valid_observation_def sup_vocabulary effective_window_def assess_supervision_def
        sup_valid_time_def us_defs choose_action_def window_of_def Let_def early_descendants_def
        early_end_def can_signal_def decide_def)
  obtain window where "effective_window hist_revoked boot_a boot_a (PInt 0) (PInt 295000000) PNone =
      Inr window" "w_flush_deadline_us window \<le> 295000000"
    using supervision_action_safe [OF h] by (elim exE conjE) simp
  then show ?thesis using h by (intro exI [of _ ?d]) simp
qed

section \<open>Closeout\<close>

text \<open>
  C32: The closeout assessment reports no gap exactly when the worker is fully accounted
  for: the lease revocation was attempted and acknowledged, the Forwarder closed, and
  either no process ever started or the root was reaped, the group is absent under a
  stable identity, both streams reached end of file and the capture is complete.  The
  reported gaps are sorted and free of duplicates.
\<close>

theorem closeout_complete_iff:
  assumes "assess_supervisor_closeout h w = Inr c"
  shows "(c_state c = ''claimed_complete'' \<longleftrightarrow>
      truth (h_revoke_attempted h) \<and> o_revocation_state w = PStr ''acknowledged'' \<and>
      o_forwarder_closeout w = PStr ''closed'' \<and>
      (o_root_state w = PStr ''failed_before_process'' \<or>
       o_root_state w = PStr ''reaped'' \<and> o_group_state w = PStr ''absent'' \<and>
       truth (o_stable_group_identity w) \<and> truth (o_stdout_eof w) \<and>
       truth (o_stderr_eof w) \<and> truth (o_capture_complete w))) \<and>
    (c_state c = ''claimed_complete'' \<longleftrightarrow> c_gaps c = []) \<and>
    sorted (c_gaps c) \<and> distinct (c_gaps c)"
proof -
  from assms have c: "c = \<lparr>c_state = (if closeout_gaps h w = [] then ''claimed_complete'' else ''held''),
      c_gaps = sort (closeout_gaps h w)\<rparr>" and v: "sup_check h w = Inr ()"
    by (auto simp: assess_supervisor_closeout_def guards Let_def)
  have "is_str_in ROOT (o_root_state w)"
    using v by (simp add: sup_check_def valid_observation_def split: if_splits)
  then have "closeout_gaps h w = [] \<longleftrightarrow>
      truth (h_revoke_attempted h) \<and> o_revocation_state w = PStr ''acknowledged'' \<and>
      o_forwarder_closeout w = PStr ''closed'' \<and>
      (o_root_state w = PStr ''failed_before_process'' \<or>
       o_root_state w = PStr ''reaped'' \<and> o_group_state w = PStr ''absent'' \<and>
       truth (o_stable_group_identity w) \<and> truth (o_stdout_eof w) \<and>
       truth (o_stderr_eof w) \<and> truth (o_capture_complete w))"
    by (auto simp: closeout_gaps_def Let_def filter_empty_conv)
  moreover have "distinct (closeout_gaps h w)"
    unfolding closeout_gaps_def Let_def by (rule distinct_map_filter) simp
  moreover have "sort (closeout_gaps h w) = [] \<longleftrightarrow> closeout_gaps h w = []"
    by (metis set_empty set_sort)
  ultimately show ?thesis by (simp add: c)
qed

abbreviation obs_done :: worker_observation where
  "obs_done \<equiv> \<lparr>o_root_state = PStr ''reaped'', o_group_state = PStr ''absent'',
     o_stable_group_identity = PBool True, o_stdout_eof = PBool True,
     o_stderr_eof = PBool True, o_capture_complete = PBool True,
     o_revocation_state = PStr ''acknowledged'', o_forwarder_closeout = PStr ''closed''\<rparr>"

theorem closeout_complete_iff_witness:
  "assess_supervisor_closeout hist_revoked obs_done =
     Inr \<lparr>c_state = ''claimed_complete'', c_gaps = []\<rparr> \<and>
   truth (o_capture_complete obs_done)"
proof -
  have h: "assess_supervisor_closeout hist_revoked obs_done =
     Inr \<lparr>c_state = ''claimed_complete'', c_gaps = []\<rparr>"
    by (simp add: assess_supervisor_closeout_def sup_check_def valid_history_def
        valid_observation_def sup_vocabulary closeout_gaps_def)
  show ?thesis using h closeout_complete_iff [OF h] by simp
qed

end
