(* ===== verification/Services.thy ===== *)
theory Services
  imports Prelude
begin

text \<open>
  The fixed listener profiles and the readiness classification
  (\<open>forwarder_services.py\<close>), and the closed route catalog with the readiness facts it
  implies (\<open>forwarder_routes.py\<close>).
\<close>

section \<open>Service profiles\<close>

record service_profile =
  sp_name :: string
  sp_port :: int
  sp_mandatory :: bool
  sp_sentinel_scheme :: string

definition mk_profile :: "string \<Rightarrow> int \<Rightarrow> bool \<Rightarrow> string \<Rightarrow> service_profile" where
  "mk_profile name port mandatory scheme =
     \<lparr>sp_name = name, sp_port = port, sp_mandatory = mandatory, sp_sentinel_scheme = scheme\<rparr>"

definition SERVICE_PROFILES :: "(string \<times> service_profile) list" where
  "SERVICE_PROFILES =
     [(''jira'', mk_profile ''jira'' 17441 True ''Basic''),
      (''confluence'', mk_profile ''confluence'' 17442 False ''Basic''),
      (''grafana'', mk_profile ''grafana'' 17443 True ''Bearer''),
      (''kubernetes'', mk_profile ''kubernetes'' 17444 True ''Bearer''),
      (''anthropic'', mk_profile ''anthropic'' 17445 True ''Bearer'')]"

definition service_known :: "string \<Rightarrow> bool" where
  "service_known s \<longleftrightarrow> s \<in> fst ` set SERVICE_PROFILES"

lemma service_known_iff [simp]:
  "service_known s \<longleftrightarrow> s \<in> {''jira'', ''confluence'', ''grafana'', ''kubernetes'', ''anthropic''}"
  by (simp add: service_known_def SERVICE_PROFILES_def)

record route_readiness =
  rr_mandatory_ready :: bool
  rr_unavailable_mandatory :: "string list"
  rr_degraded_optional :: "string list"

text \<open>
  \<open>classify_readiness\<close> takes a mapping from arbitrary keys to arbitrary values; a
  non-mapping argument is the \<open>TypeError\<close> of the first guard.
\<close>

definition fact_ready :: "(pyval \<times> pyval) list \<Rightarrow> string \<Rightarrow> bool" where
  "fact_ready facts name = (case map_of facts (PStr name) of Some v \<Rightarrow> truth v | None \<Rightarrow> False)"

definition classify_readiness :: "(pyval \<times> pyval) list option \<Rightarrow> route_readiness res" where
  "classify_readiness route_facts = (case route_facts of
     None \<Rightarrow> Inl ''route readiness requires a mapping''
   | Some facts \<Rightarrow>
       if \<not> list_all (\<lambda>(k, v). is_str_in (map fst SERVICE_PROFILES) k) facts
       then Inl ''unknown readiness service''
       else if \<not> list_all (\<lambda>(k, v). is_bool v) facts
       then Inl ''route readiness requires explicit booleans''
       else
         let unavailable = map fst (filter (\<lambda>(n, p). sp_mandatory p \<and> \<not> fact_ready facts n)
                             SERVICE_PROFILES);
             degraded = map fst (filter (\<lambda>(n, p). \<not> sp_mandatory p \<and> \<not> fact_ready facts n)
                             SERVICE_PROFILES)
         in Inr \<lparr>rr_mandatory_ready = (unavailable = []),
                 rr_unavailable_mandatory = unavailable,
                 rr_degraded_optional = degraded\<rparr>)"

section \<open>The route catalog\<close>

record route_status =
  rs_route_id :: string
  rs_service :: string
  rs_state :: string
  rs_optional :: bool
  rs_spec_named :: bool
  rs_missing_inputs :: "string list"

definition ROUTE_DEFINITIONS ::
    "(string \<times> string \<times> string \<times> bool \<times> bool \<times> string list) list" where
  "ROUTE_DEFINITIONS = [
           (''jira.issue.get'', ''jira'', ''partial'', False, True,
      [''effect_identity_binding'', ''tenant_field_ids'']),
           (''jira.search'', ''jira'', ''partial'', False, True, [''continuation_tracking'',
      ''tenant_field_ids'']),
           (''jira.issue.create'', ''jira'', ''unavailable'', False, True, [''adf_profile'',
      ''dispatch_permit'', ''effect_identity_binding'', ''report_attempt_budget'',
      ''tenant_field_ids'']),
           (''jira.issue.update'', ''jira'', ''unavailable'', False, True, [''dispatch_permit'',
      ''membership_state'', ''readback_seam'', ''tenant_field_ids'']),
           (''jira.comment.add'', ''jira'', ''unavailable'', False, True, [''adf_profile'',
      ''dispatch_permit'', ''readback_seam'', ''report_attempt_budget'']),
           (''jira.comments.list'', ''jira'', ''unavailable'', False, True,
      [''continuation_tracking'', ''report_history_scope'', ''response_projection'']),
           (''jira.comment.get'', ''jira'', ''unavailable'', False, True,
      [''effect_identity_binding'', ''readback_seam'', ''response_projection'']),
           (''jira.transition'', ''jira'', ''unavailable'', False, True, [''dispatch_permit'',
      ''readback_seam'', ''tenant_workflow_ids'']),
           (''reference.read'', ''confluence'', ''unavailable'', False, True,
      [''delivery_receipt_seam'', ''response_projection'', ''tenant_space_ids'']),
           (''draft.create'', ''confluence'', ''unavailable'', False, True,
      [''dispatch_permit'', ''draft_mapping'', ''tenant_semantics'', ''tenant_space_ids'']),
           (''draft.read'', ''confluence'', ''unavailable'', False, True,
      [''delivery_receipt_seam'', ''draft_mapping'', ''response_projection'',
      ''tenant_semantics'']),
           (''draft.update'', ''confluence'', ''unavailable'', False, True,
      [''delivery_receipt_seam'', ''dispatch_permit'', ''draft_mapping'', ''tenant_semantics'']),
           (''pod_list'', ''kubernetes'', ''unavailable'', False, True,
      [''continuation_tracking'', ''eyes_schemas'', ''response_projection'']),
           (''pod_status'', ''kubernetes'', ''unavailable'', False, True, [''eyes_schemas'',
      ''handle_binding'', ''response_projection'']),
           (''pod_events'', ''kubernetes'', ''unavailable'', False, True,
      [''event_selector_support'', ''eyes_schemas'', ''response_projection'']),
           (''service_endpoints'', ''kubernetes'', ''unavailable'', False, True,
      [''continuation_tracking'', ''eyes_schemas'', ''response_projection'']),
           (''metrics_instant'', ''grafana'', ''unavailable'', False, True,
      [''datasource_mapping'', ''eyes_schemas'', ''query_templates'', ''rehearsal_window'']),
           (''metrics_range'', ''grafana'', ''unavailable'', False, True,
      [''datasource_mapping'', ''eyes_schemas'', ''query_templates'', ''rehearsal_window'']),
           (''logs_range'', ''grafana'', ''unavailable'', False, True, [''datasource_mapping'',
      ''eyes_schemas'', ''query_templates'', ''rehearsal_window'', ''response_projection'']),
           (''traces_search'', ''grafana'', ''unavailable'', True, True,
      [''datasource_mapping'', ''eyes_schemas'', ''query_templates'', ''rehearsal_window'']),
           (''trace_get'', ''grafana'', ''unavailable'', True, True, [''datasource_mapping'',
      ''eyes_schemas'', ''handle_binding'']),
           (''eyes.run_telemetry_query'', ''grafana'', ''unavailable'', False, True,
      [''eyes_schemas'', ''operation_counters'', ''query_templates'', ''rehearsal_window'']),
           (''eyes.change_query'', ''grafana'', ''unavailable'', False, True, [''eyes_schemas'',
      ''query_templates'', ''rehearsal_window'']),
           (''grafana_health'', ''grafana'', ''unavailable'', False, True, [''health_route'']),
           (''anthropic.messages'', ''anthropic'', ''unavailable'', False, False,
      [''client_profile'', ''dispatch_permit'', ''exposure_reservation'', ''request_envelope'',
      ''sse_qualification''])]"

definition ROUTE_CATALOG :: "(string \<times> route_status) list" where
  "ROUTE_CATALOG = map (\<lambda>(route_id, service, state, optional, spec_named, missing).
     (route_id, \<lparr>rs_route_id = route_id, rs_service = service, rs_state = state,
                 rs_optional = optional, rs_spec_named = spec_named,
                 rs_missing_inputs = sort missing\<rparr>)) ROUTE_DEFINITIONS"

definition policy_readiness_facts :: "(string \<times> bool) list" where
  "policy_readiness_facts =
     fold (\<lambda>(_, status) facts.
             if \<not> rs_optional status \<and> rs_state status \<noteq> ''enabled''
             then AList.update (rs_service status) False facts else facts)
       ROUTE_CATALOG (map (\<lambda>(name, _). (name, True)) SERVICE_PROFILES)"

definition route_service :: "string \<Rightarrow> string option" where
  "route_service route_id = map_option rs_service (map_of ROUTE_CATALOG route_id)"

section \<open>Readiness\<close>

text \<open>
  A missing or false readiness fact is never read as ready: the classification of
  any accepted mapping is ready exactly when all four mandatory services have the fact
  \<open>True\<close>, it lists the missing mandatory services in catalog order, and an optional
  service only degrades.
\<close>

theorem classify_readiness_sound:
  assumes "classify_readiness (Some facts) = Inr r"
  shows "(rr_mandatory_ready r \<longleftrightarrow>
      (\<forall>s \<in> {''jira'', ''grafana'', ''kubernetes'', ''anthropic''}.
         map_of facts (PStr s) = Some (PBool True))) \<and>
    rr_unavailable_mandatory r = filter (\<lambda>s. map_of facts (PStr s) \<noteq> Some (PBool True))
      [''jira'', ''grafana'', ''kubernetes'', ''anthropic''] \<and>
    rr_degraded_optional r = filter (\<lambda>s. map_of facts (PStr s) \<noteq> Some (PBool True)) [''confluence'']"
proof -
  have bools: "\<And>k v. (k, v) \<in> set facts \<Longrightarrow> is_bool v"
    using assms by (auto simp: classify_readiness_def list_all_iff split: if_splits)
  have fr: "fact_ready facts s \<longleftrightarrow> map_of facts (PStr s) = Some (PBool True)" for s
  proof (cases "map_of facts (PStr s)")
    case None
    then show ?thesis by (simp add: fact_ready_def)
  next
    case (Some v)
    then have "is_bool v" using bools map_of_SomeD by fastforce
    with Some show ?thesis by (cases v) (auto simp: fact_ready_def)
  qed
  from assms show ?thesis
    by (auto simp: classify_readiness_def SERVICE_PROFILES_def mk_profile_def Let_def fr
        split: if_splits)
qed

theorem classify_readiness_sound_witness:
  "\<exists>r. classify_readiness (Some [(PStr ''jira'', PBool True), (PStr ''grafana'', PBool False)]) = Inr r \<and>
     rr_unavailable_mandatory r = [''grafana'', ''kubernetes'', ''anthropic''] \<and>
     rr_degraded_optional r = [''confluence''] \<and> \<not> rr_mandatory_ready r"
proof -
  have "\<exists>r. classify_readiness (Some [(PStr ''jira'', PBool True), (PStr ''grafana'', PBool False)]) = Inr r"
    by (simp add: classify_readiness_def SERVICE_PROFILES_def Let_def)
  then obtain r where h:
    "classify_readiness (Some [(PStr ''jira'', PBool True), (PStr ''grafana'', PBool False)]) = Inr r" ..
  show ?thesis using h classify_readiness_sound [OF h] by auto
qed

end
