(* ===== verification/Permits.thy ===== *)
theory Permits
  imports Services
begin

text \<open>
  The one-use dispatch permit (\<open>forwarder_permit_model.py\<close>).  A \<open>PermitHandle\<close> is
  compared by identity (\<open>eq=False\<close>), so a handle is the address of the object the book
  allocated; an object that is not one of the book's handles has an address with no entry.
  The lock makes every public method one atomic step, so a concurrent history of the book is
  a list of calls.
\<close>

section \<open>Data\<close>

definition MAX_OPEN_PERMITS :: nat where "MAX_OPEN_PERMITS = 32"
definition MAX_LIFETIME_PERMITS :: nat where "MAX_LIFETIME_PERMITS = 2048"
definition PERMIT_MAX_MONO_US :: int where "PERMIT_MAX_MONO_US = 2 ^ 53 - 1"

definition permit_safe_id :: "pyval \<Rightarrow> bool" where
  "permit_safe_id v = (case v of PStr s \<Rightarrow> safe_id_string s | _ \<Rightarrow> False)"

definition permit_digest :: "pyval \<Rightarrow> bool" where
  "permit_digest v = (case v of PStr s \<Rightarrow> hex64_string s | _ \<Rightarrow> False)"

definition permit_time :: "pyval \<Rightarrow> bool" where
  "permit_time v = is_int_in 0 PERMIT_MAX_MONO_US v"

record permit_binding =
  b_permit_id :: pyval
  b_receiver_boot_id :: pyval
  b_forwarder_generation :: pyval
  b_run_id :: pyval
  b_attempt_id :: pyval
  b_operation_id :: pyval
  b_effect_intent_id :: pyval
  b_grant_id :: pyval
  b_flight_id :: pyval
  b_service :: pyval
  b_route_id :: pyval
  b_request_digest :: pyval
  b_target_digest :: pyval
  b_expires_us :: pyval

record permit_decision =
  pd_code :: string
  pd_reason :: string
  pd_phase :: "string option"

record permit_entry =
  pe_binding :: permit_binding
  pe_phase :: string

definition OPEN_PHASES :: "string list" where
  "OPEN_PHASES = [''offered'', ''consumed_l1'', ''write_admitted'']"

definition valid_binding :: "permit_binding \<Rightarrow> string \<Rightarrow> string \<Rightarrow> bool" where
  "valid_binding b boot generation \<longleftrightarrow>
     (let route = (case b_route_id b of PStr r \<Rightarrow> map_of ROUTE_CATALOG r | _ \<Rightarrow> None)
      in list_all permit_safe_id
           [b_permit_id b, b_receiver_boot_id b, b_forwarder_generation b, b_run_id b, b_attempt_id b,
            b_operation_id b, b_effect_intent_id b, b_grant_id b, b_flight_id b] \<and>
         b_receiver_boot_id b = PStr boot \<and>
         b_forwarder_generation b = PStr generation \<and>
         (case route of None \<Rightarrow> False
          | Some status \<Rightarrow> is_str (b_service b) \<and> PStr (rs_service status) = b_service b) \<and>
         permit_digest (b_request_digest b) \<and> permit_digest (b_target_digest b) \<and>
         permit_time (b_expires_us b))"

text \<open>\<open>None\<close> stands for an argument that is not a \<open>PermitBinding\<close>.\<close>

definition snapshot_binding ::
    "permit_binding option \<Rightarrow> string \<Rightarrow> string \<Rightarrow> permit_binding option" where
  "snapshot_binding binding boot generation = (case binding of
     None \<Rightarrow> None
   | Some b \<Rightarrow> if valid_binding b boot generation then Some b else None)"

section \<open>The book\<close>

record permit_book =
  pb_boot_id :: string
  pb_generation :: string
  pb_entries :: "(nat \<times> permit_entry) list"
  pb_permit_ids :: "pyval list"
  pb_operation_ids :: "pyval list"
  pb_open :: int

definition permit_book_new :: "pyval \<Rightarrow> pyval \<Rightarrow> permit_book res" where
  "permit_book_new boot generation =
     (if \<not> permit_safe_id boot \<or> \<not> permit_safe_id generation then Inl ''permit_argument''
      else Inr \<lparr>pb_boot_id = str_of boot, pb_generation = str_of generation, pb_entries = [],
                pb_permit_ids = [], pb_operation_ids = [], pb_open = 0\<rparr>)"

definition permit_stage ::
    "permit_book \<Rightarrow> permit_binding option \<Rightarrow> pyval \<Rightarrow> (permit_book \<times> nat) res" where
  "permit_stage p binding now_us =
     (case snapshot_binding binding (pb_boot_id p) (pb_generation p) of
        None \<Rightarrow> Inl ''permit_argument''
      | Some snapshot \<Rightarrow>
          if \<not> permit_time now_us then Inl ''permit_argument''
          else if int_of (b_expires_us snapshot) \<le> int_of now_us then Inl ''permit_expired''
          else if b_permit_id snapshot \<in> set (pb_permit_ids p) \<or>
                  b_operation_id snapshot \<in> set (pb_operation_ids p)
          then Inl ''permit_duplicate''
          else if pb_open p \<ge> int MAX_OPEN_PERMITS \<or>
                  length (pb_entries p) \<ge> MAX_LIFETIME_PERMITS
          then Inl ''permit_capacity''
          else let handle = length (pb_entries p)
               in Inr (p\<lparr>pb_entries := AList.update handle
                            \<lparr>pe_binding = snapshot, pe_phase = ''offered''\<rparr> (pb_entries p),
                         pb_permit_ids := b_permit_id snapshot # pb_permit_ids p,
                         pb_operation_ids := b_operation_id snapshot # pb_operation_ids p,
                         pb_open := pb_open p + 1\<rparr>, handle))"

definition permit_entry_of :: "permit_book \<Rightarrow> nat \<Rightarrow> permit_entry option" where
  "permit_entry_of p handle = map_of (pb_entries p) handle"

definition set_phase :: "permit_book \<Rightarrow> nat \<Rightarrow> permit_entry \<Rightarrow> string \<Rightarrow> permit_book" where
  "set_phase p handle entry phase =
     p\<lparr>pb_entries := AList.update handle (entry\<lparr>pe_phase := phase\<rparr>) (pb_entries p)\<rparr>"

definition permit_close_entry :: "permit_book \<Rightarrow> nat \<Rightarrow> permit_entry \<Rightarrow> permit_book" where
  "permit_close_entry p handle entry =
     (if pe_phase entry \<in> set OPEN_PHASES
      then (set_phase p handle entry ''closed'')\<lparr>pb_open := pb_open p - 1\<rparr>
      else p)"

definition permit_close :: "permit_book \<Rightarrow> nat \<Rightarrow> permit_book res" where
  "permit_close p handle = (case permit_entry_of p handle of
     None \<Rightarrow> Inl ''permit_unknown''
   | Some entry \<Rightarrow> Inr (permit_close_entry p handle entry))"

definition permit_phase :: "permit_book \<Rightarrow> nat \<Rightarrow> string res" where
  "permit_phase p handle = (case permit_entry_of p handle of
     None \<Rightarrow> Inl ''permit_unknown''
   | Some entry \<Rightarrow> Inr (pe_phase entry))"

definition permit_denied ::
    "string \<Rightarrow> string \<Rightarrow> permit_book \<Rightarrow> nat \<Rightarrow> permit_entry \<Rightarrow> permit_book \<times> permit_decision" where
  "permit_denied fence reason p handle entry =
     (let p' = permit_close_entry p handle entry
      in (p', \<lparr>pd_code = fence @ ''_denied'', pd_reason = reason,
               pd_phase = map_option pe_phase (permit_entry_of p' handle)\<rparr>))"

definition required_phase :: "string \<Rightarrow> string" where
  "required_phase fence = (if fence = ''l1'' then ''offered'' else ''consumed_l1'')"

definition passed_phase :: "string \<Rightarrow> string" where
  "passed_phase fence = (if fence = ''l1'' then ''consumed_l1'' else ''write_admitted'')"

text \<open>The first failing check of \<open>_attempt\<close> on a known handle, in the code's order.\<close>

definition permit_refusal ::
    "string \<Rightarrow> permit_book \<Rightarrow> permit_entry \<Rightarrow> permit_binding option \<Rightarrow> pyval \<Rightarrow> pyval \<Rightarrow> pyval \<Rightarrow>
     string option" where
  "permit_refusal fence p entry expected boot generation now_us =
     (let expected_snapshot = snapshot_binding expected (pb_boot_id p) (pb_generation p);
          valid_arguments = (expected_snapshot \<noteq> None \<and> permit_time now_us \<and>
                             permit_safe_id boot \<and> permit_safe_id generation)
      in if \<not> valid_arguments then Some ''invalid_argument''
         else if pe_phase entry \<noteq> required_phase fence then Some ''phase''
         else if boot \<noteq> PStr (pb_boot_id p) \<or> generation \<noteq> PStr (pb_generation p)
         then Some ''stale_context''
         else if int_of now_us \<ge> int_of (b_expires_us (pe_binding entry)) then Some ''expired''
         else if expected_snapshot \<noteq> Some (pe_binding entry) then Some ''binding_mismatch''
         else None)"

definition permit_attempt ::
    "string \<Rightarrow> permit_book \<Rightarrow> nat \<Rightarrow> permit_binding option \<Rightarrow> pyval \<Rightarrow> pyval \<Rightarrow> pyval \<Rightarrow>
     permit_book \<times> permit_decision" where
  "permit_attempt fence p handle expected boot generation now_us =
     (case permit_entry_of p handle of
        None \<Rightarrow> (p, \<lparr>pd_code = fence @ ''_denied'', pd_reason = ''unknown_handle'',
                     pd_phase = None\<rparr>)
      | Some entry \<Rightarrow>
          (case permit_refusal fence p entry expected boot generation now_us of
             Some reason \<Rightarrow> permit_denied fence reason p handle entry
           | None \<Rightarrow> (set_phase p handle entry (passed_phase fence),
                      \<lparr>pd_code = fence @ ''_pass'', pd_reason = ''exact'',
                       pd_phase = Some (passed_phase fence)\<rparr>)))"

definition attempt_l1 where "attempt_l1 = permit_attempt ''l1''"
definition attempt_l2 where "attempt_l2 = permit_attempt ''l2''"

text \<open>The public methods as the calls of one step function.\<close>

datatype permit_call =
    Stage "permit_binding option" pyval
  | AttemptL1 nat "permit_binding option" pyval pyval pyval
  | AttemptL2 nat "permit_binding option" pyval pyval pyval
  | ClosePermit nat
  | PhaseOf nat

datatype permit_out =
    PermitFailed string
  | Staged nat
  | Decided permit_decision
  | Closed
  | PhaseIs string

fun permit_step :: "permit_book \<Rightarrow> permit_call \<Rightarrow> permit_book \<times> permit_out" where
  "permit_step p (Stage binding now) = (case permit_stage p binding now of
     Inl e \<Rightarrow> (p, PermitFailed e) | Inr (p', handle) \<Rightarrow> (p', Staged handle))"
| "permit_step p (AttemptL1 handle expected boot generation now) =
     (case attempt_l1 p handle expected boot generation now of (p', d) \<Rightarrow> (p', Decided d))"
| "permit_step p (AttemptL2 handle expected boot generation now) =
     (case attempt_l2 p handle expected boot generation now of (p', d) \<Rightarrow> (p', Decided d))"
| "permit_step p (ClosePermit handle) = (case permit_close p handle of
     Inl e \<Rightarrow> (p, PermitFailed e) | Inr p' \<Rightarrow> (p', Closed))"
| "permit_step p (PhaseOf handle) = (case permit_phase p handle of
     Inl e \<Rightarrow> (p, PermitFailed e) | Inr phase \<Rightarrow> (p, PhaseIs phase))"

section \<open>The book's invariant\<close>

definition PERMIT_PHASES :: "string set" where
  "PERMIT_PHASES = {''offered'', ''consumed_l1'', ''write_admitted'', ''closed''}"

definition is_open :: "permit_entry \<Rightarrow> bool" where
  "is_open e \<longleftrightarrow> pe_phase e \<in> set OPEN_PHASES"

text \<open>
  Handles are the positions of the entries; the two identifier sets are exactly the
  identifiers of the entries, each used once; the open counter counts the open entries.
\<close>

definition permit_inv :: "permit_book \<Rightarrow> bool" where
  "permit_inv p \<longleftrightarrow>
     map fst (pb_entries p) = [0..<length (pb_entries p)] \<and>
     pb_permit_ids p = rev (map (b_permit_id \<circ> pe_binding \<circ> snd) (pb_entries p)) \<and>
     pb_operation_ids p = rev (map (b_operation_id \<circ> pe_binding \<circ> snd) (pb_entries p)) \<and>
     distinct (pb_permit_ids p) \<and> distinct (pb_operation_ids p) \<and>
     (\<forall>e \<in> snd ` set (pb_entries p).
        valid_binding (pe_binding e) (pb_boot_id p) (pb_generation p) \<and>
        pe_phase e \<in> PERMIT_PHASES) \<and>
     pb_open p = int (length (filter (is_open \<circ> snd) (pb_entries p))) \<and>
     length (filter (is_open \<circ> snd) (pb_entries p)) \<le> MAX_OPEN_PERMITS \<and>
     length (pb_entries p) \<le> MAX_LIFETIME_PERMITS"

lemma permit_entry_of_D:
  "permit_entry_of p h = Some e \<Longrightarrow> (h, e) \<in> set (pb_entries p)"
  by (simp add: permit_entry_of_def map_of_SomeD)

lemma permit_entry_phase:
  assumes "permit_inv p" and "permit_entry_of p h = Some e"
  shows "pe_phase e \<in> PERMIT_PHASES"
  using assms permit_entry_of_D [of p h e] by (force simp: permit_inv_def)

lemma permit_inv_new: "permit_book_new boot generation = Inr p \<Longrightarrow> permit_inv p"
  by (auto simp: permit_book_new_def permit_inv_def split: if_splits)

text \<open>Changing the phase of an entry keeps everything but the open count.\<close>

lemma permit_inv_change:
  assumes inv: "permit_inv p" and e: "permit_entry_of p h = Some e"
    and ph: "phase \<in> PERMIT_PHASES" and less: "is_open (e\<lparr>pe_phase := phase\<rparr>) \<Longrightarrow> is_open e"
    and n: "n = pb_open p - of_bool (is_open e) + of_bool (is_open (e\<lparr>pe_phase := phase\<rparr>))"
  shows "permit_inv ((set_phase p h e phase)\<lparr>pb_open := n\<rparr>)"
proof -
  let ?e = "e\<lparr>pe_phase := phase\<rparr>"
  let ?d = "pb_entries p" and ?d' = "AList.update h ?e (pb_entries p)"
  have m: "map_of ?d h = Some e" using e by (simp add: permit_entry_of_def)
  have keys: "map fst ?d' = map fst ?d" by (rule map_fst_update_old [OF m])
  have same: "map (f \<circ> pe_binding \<circ> snd) ?d' = map (f \<circ> pe_binding \<circ> snd) ?d" for f :: "permit_binding \<Rightarrow> pyval"
    using map_snd_update_old [OF m, of "f \<circ> pe_binding" ?e] by (simp add: comp_assoc)
  have cnt: "length (filter (is_open \<circ> snd) ?d') + of_bool (is_open e) =
      length (filter (is_open \<circ> snd) ?d) + of_bool (is_open ?e)"
    by (rule filter_update_old [OF m])
  have all: "\<forall>x \<in> snd ` set ?d'. valid_binding (pe_binding x) (pb_boot_id p) (pb_generation p) \<and>
        pe_phase x \<in> PERMIT_PHASES"
    using inv ph m set_update_subset [of h ?e ?d]
    by (force simp: permit_inv_def dest: map_of_SomeD)
  show ?thesis
    using inv keys same cnt all less n
    by (auto simp: permit_inv_def set_phase_def length_update_old [OF m] split: if_splits)
qed

lemma permit_inv_close_entry:
  assumes "permit_inv p" and "permit_entry_of p h = Some e"
  shows "permit_inv (permit_close_entry p h e)"
proof (cases "is_open e")
  case True
  have "\<not> is_open (e\<lparr>pe_phase := ''closed''\<rparr>)" by (simp add: is_open_def OPEN_PHASES_def)
  then have "permit_inv ((set_phase p h e ''closed'')\<lparr>pb_open := pb_open p - 1\<rparr>)"
    using True by (intro permit_inv_change [OF assms]) (simp_all add: PERMIT_PHASES_def)
  with True show ?thesis by (simp add: permit_close_entry_def is_open_def)
next
  case False
  with assms show ?thesis by (simp add: permit_close_entry_def is_open_def)
qed

lemma permit_inv_pass:
  assumes "permit_inv p" and "permit_entry_of p h = Some e" and "is_open e"
    and "phase \<in> set OPEN_PHASES"
  shows "permit_inv (set_phase p h e phase)"
proof -
  have "permit_inv ((set_phase p h e phase)\<lparr>pb_open := pb_open p\<rparr>)"
    using assms(3,4)
    by (intro permit_inv_change [OF assms(1,2)])
      (auto simp: is_open_def PERMIT_PHASES_def OPEN_PHASES_def)
  moreover have "pb_open (set_phase p h e phase) = pb_open p" by (simp add: set_phase_def)
  ultimately show ?thesis by (metis permit_book.surjective permit_book.update_convs(6))
qed

text \<open>The three ways an attempt ends: unknown handle, denied and closed, passed.\<close>

lemma permit_attempt_cases:
  obtains
    (unknown) "permit_entry_of p h = None"
      "permit_attempt fence p h expected boot generation now =
         (p, \<lparr>pd_code = fence @ ''_denied'', pd_reason = ''unknown_handle'', pd_phase = None\<rparr>)"
  | (denied) e reason where "permit_entry_of p h = Some e"
      "permit_attempt fence p h expected boot generation now = permit_denied fence reason p h e"
  | (pass) e where "permit_entry_of p h = Some e"
      "pe_phase e = required_phase fence"
      "expected = Some (pe_binding e)" "permit_time now"
      "int_of now < int_of (b_expires_us (pe_binding e))"
      "boot = PStr (pb_boot_id p)" "generation = PStr (pb_generation p)"
      "permit_attempt fence p h expected boot generation now =
         (set_phase p h e (passed_phase fence),
          \<lparr>pd_code = fence @ ''_pass'', pd_reason = ''exact'',
           pd_phase = Some (passed_phase fence)\<rparr>)"
proof (cases "permit_entry_of p h")
  case None
  then show thesis by (intro unknown) (simp_all add: permit_attempt_def)
next
  case (Some e)
  show thesis
  proof (cases "permit_refusal fence p e expected boot generation now")
    case None
    then have "snapshot_binding expected (pb_boot_id p) (pb_generation p) = Some (pe_binding e)"
      by (auto simp: permit_refusal_def Let_def split: if_splits)
    then have "expected = Some (pe_binding e)"
      by (auto simp: snapshot_binding_def split: option.splits if_splits)
    with Some None show thesis
      by (intro pass) (auto simp: permit_attempt_def permit_refusal_def Let_def split: if_splits)
  next
    case (Some reason)
    with \<open>permit_entry_of p h = Some e\<close> show thesis
      by (intro denied) (simp_all add: permit_attempt_def)
  qed
qed

lemma required_phase_open: "pe_phase e = required_phase fence \<Longrightarrow> is_open e"
  by (auto simp: required_phase_def is_open_def OPEN_PHASES_def split: if_splits)

lemma passed_phase_open: "passed_phase fence \<in> set OPEN_PHASES"
  by (simp add: passed_phase_def OPEN_PHASES_def)

lemma permit_inv_attempt:
  assumes "permit_inv p"
  shows "permit_inv (fst (permit_attempt fence p h expected boot generation now))"
  by (cases rule: permit_attempt_cases [of p h fence expected boot generation now])
    (simp_all add: assms permit_denied_def Let_def permit_inv_close_entry permit_inv_pass
      required_phase_open passed_phase_open)

lemma permit_inv_stage:
  assumes inv: "permit_inv p" and st: "permit_stage p binding now = Inr (p', h)"
  shows "permit_inv p'"
proof -
  from st obtain b where b: "snapshot_binding binding (pb_boot_id p) (pb_generation p) = Some b"
    and new: "b_permit_id b \<notin> set (pb_permit_ids p)" "b_operation_id b \<notin> set (pb_operation_ids p)"
    and cap: "pb_open p < int MAX_OPEN_PERMITS" "length (pb_entries p) < MAX_LIFETIME_PERMITS"
    and p': "p' = p\<lparr>pb_entries := AList.update (length (pb_entries p))
                  \<lparr>pe_binding = b, pe_phase = ''offered''\<rparr> (pb_entries p),
                pb_permit_ids := b_permit_id b # pb_permit_ids p,
                pb_operation_ids := b_operation_id b # pb_operation_ids p,
                pb_open := pb_open p + 1\<rparr>"
    by (auto simp: permit_stage_def Let_def split: option.splits if_splits)
  have v: "valid_binding b (pb_boot_id p) (pb_generation p)"
    using b by (auto simp: snapshot_binding_def split: option.splits if_splits)
  have keys: "fst ` set (pb_entries p) = {0..<length (pb_entries p)}"
    using inv by (metis permit_inv_def set_map set_upt)
  then have "AList.update (length (pb_entries p)) \<lparr>pe_binding = b, pe_phase = ''offered''\<rparr> (pb_entries p)
      = pb_entries p @ [(length (pb_entries p), \<lparr>pe_binding = b, pe_phase = ''offered''\<rparr>)]"
    by (intro update_new) simp
  moreover have "is_open \<lparr>pe_binding = b, pe_phase = ''offered''\<rparr>"
    by (simp add: is_open_def OPEN_PHASES_def)
  ultimately show ?thesis
    using inv new cap v by (auto simp: permit_inv_def p' PERMIT_PHASES_def)
qed

lemma permit_inv_step: "permit_inv p \<Longrightarrow> permit_inv (fst (permit_step p c))"
  by (cases c)
    (simp_all add: attempt_l1_def attempt_l2_def permit_close_def permit_phase_def split_beta
      permit_inv_attempt permit_inv_stage permit_inv_close_entry split: sum.split option.split)

interpretation permit_machine: invariant_machine permit_step permit_inv
  by unfold_locales (rule permit_inv_step)

text \<open>
  C28: Whatever calls a permit book receives, in whatever order, its bookkeeping stays
  exact: at most 32 permits are open and at most 2048 were ever staged, the open counter is
  the number of entries in an open phase, no permit identifier and no operation identifier
  is staged twice, and every entry holds a binding that was valid for this boot and
  generation.
\<close>

theorem permit_book_invariant:
  assumes "permit_book_new boot generation = Inr p0" and "p = final permit_step p0 calls"
  shows "pb_open p = int (length (filter (\<lambda>(h, e). pe_phase e \<noteq> ''closed'') (pb_entries p))) \<and>
    pb_open p \<le> 32 \<and> length (pb_entries p) \<le> 2048 \<and>
    distinct (map (b_permit_id \<circ> pe_binding \<circ> snd) (pb_entries p)) \<and>
    distinct (map (b_operation_id \<circ> pe_binding \<circ> snd) (pb_entries p)) \<and>
    (\<forall>(h, e) \<in> set (pb_entries p). valid_binding (pe_binding e) (pb_boot_id p) (pb_generation p))"
proof -
  have inv: "permit_inv p"
    using assms permit_inv_new permit_machine.inv_final by simp
  have "filter (is_open \<circ> snd) (pb_entries p) = filter (\<lambda>(h, e). pe_phase e \<noteq> ''closed'') (pb_entries p)"
    using inv by (intro filter_cong)
      (force simp: permit_inv_def is_open_def OPEN_PHASES_def PERMIT_PHASES_def)+
  with inv show ?thesis
    by (force simp: permit_inv_def MAX_OPEN_PERMITS_def MAX_LIFETIME_PERMITS_def)
qed

section \<open>One use\<close>

text \<open>A permit only moves forward: offered, consumed, admitted, closed.\<close>

definition phase_level :: "string \<Rightarrow> nat" where
  "phase_level phase = (if phase = ''offered'' then 1 else if phase = ''consumed_l1'' then 2
     else if phase = ''write_admitted'' then 3 else 4)"

definition permit_rank :: "nat \<Rightarrow> permit_book \<Rightarrow> nat" where
  "permit_rank h p = (case permit_entry_of p h of None \<Rightarrow> 0 | Some e \<Rightarrow> phase_level (pe_phase e))"

definition l1_pass :: "nat \<Rightarrow> permit_call \<Rightarrow> permit_out \<Rightarrow> bool" where
  "l1_pass h c out = (case (c, out) of
     (AttemptL1 h' _ _ _ _, Decided d) \<Rightarrow> h' = h \<and> pd_code d = ''l1_pass'' | _ \<Rightarrow> False)"

definition l2_pass :: "nat \<Rightarrow> permit_call \<Rightarrow> permit_out \<Rightarrow> bool" where
  "l2_pass h c out = (case (c, out) of
     (AttemptL2 h' _ _ _ _, Decided d) \<Rightarrow> h' = h \<and> pd_code d = ''l2_pass'' | _ \<Rightarrow> False)"

lemma entry_set_phase [simp]:
  "permit_entry_of (set_phase p h e phase) k =
     (if k = h then Some (e\<lparr>pe_phase := phase\<rparr>) else permit_entry_of p k)"
  by (simp add: permit_entry_of_def set_phase_def)

lemma entry_close_entry:
  "permit_entry_of p h = Some e \<Longrightarrow>
   permit_entry_of (permit_close_entry p h e) k =
     (if k = h \<and> is_open e then Some (e\<lparr>pe_phase := ''closed''\<rparr>) else permit_entry_of p k)"
  by (simp add: permit_close_entry_def is_open_def permit_entry_of_def set_phase_def)

lemma rank_close_entry:
  assumes "permit_inv p" and "permit_entry_of p h = Some e"
  shows "permit_rank h (permit_close_entry p h e) = 4"
    and "k \<noteq> h \<Longrightarrow> permit_rank k (permit_close_entry p h e) = permit_rank k p"
  using permit_entry_phase [OF assms] assms(2)
  by (auto simp: permit_rank_def entry_close_entry phase_level_def is_open_def OPEN_PHASES_def
      PERMIT_PHASES_def)

lemma rank_le_4: "permit_rank h p \<le> 4"
  by (simp add: permit_rank_def phase_level_def split: option.split)

lemma rank_stage:
  assumes "permit_inv p" and "permit_stage p binding now = Inr (p', h)"
  shows "permit_rank k p \<le> permit_rank k p'"
proof -
  have h: "h = length (pb_entries p)" and ex: "\<exists>e. pb_entries p' = AList.update h e (pb_entries p)"
    using assms(2) by (auto simp: permit_stage_def Let_def split: option.splits if_splits)
  have "permit_entry_of p h = None"
    using assms(1) h by (auto simp: permit_inv_def permit_entry_of_def map_of_None_keys
        simp flip: set_map)
  with ex show ?thesis by (auto simp: permit_rank_def permit_entry_of_def)
qed

lemma rank_attempt:
  assumes "permit_inv p"
  shows "permit_rank k p \<le> permit_rank k (fst (permit_attempt fence p h expected boot generation now))"
proof (cases rule: permit_attempt_cases [of p h fence expected boot generation now])
  case unknown
  then show ?thesis by simp
next
  case (denied e reason)
  then show ?thesis
    using rank_close_entry [OF assms denied(1)] rank_le_4
    by (cases "k = h") (simp_all add: permit_denied_def Let_def)
next
  case (pass e)
  then show ?thesis
    by (simp add: permit_rank_def required_phase_def passed_phase_def phase_level_def)
qed

lemma permit_rank_mono: "permit_inv p \<Longrightarrow> permit_rank k p \<le> permit_rank k (fst (permit_step p c))"
proof (cases c)
  case (ClosePermit h)
  assume inv: "permit_inv p"
  show ?thesis
  proof (cases "permit_entry_of p h")
    case (Some e)
    then show ?thesis using ClosePermit rank_close_entry [OF inv Some] rank_le_4
      by (cases "k = h") (simp_all add: permit_close_def)
  qed (simp add: ClosePermit permit_close_def)
qed (auto simp: attempt_l1_def attempt_l2_def rank_attempt split_beta permit_phase_def
      dest: rank_stage split: sum.split option.split)

lemma permit_pass_iff:
  assumes "pd_code (snd (permit_attempt fence p h expected boot generation now)) = fence @ ''_pass''"
  obtains e where "permit_entry_of p h = Some e" "pe_phase e = required_phase fence"
    "expected = Some (pe_binding e)" "permit_time now"
    "int_of now < int_of (b_expires_us (pe_binding e))"
    "boot = PStr (pb_boot_id p)" "generation = PStr (pb_generation p)"
    "fst (permit_attempt fence p h expected boot generation now) =
       set_phase p h e (passed_phase fence)"
proof (cases rule: permit_attempt_cases [of p h fence expected boot generation now])
  case (pass e)
  then show ?thesis by (intro that) simp_all
qed (use assms in \<open>simp_all add: permit_denied_def Let_def\<close>)

lemma l1_pass_raises:
  assumes "l1_pass h c (snd (permit_step p c))"
  shows "permit_rank h p = 1 \<and> permit_rank h (fst (permit_step p c)) = 2"
proof -
  from assms obtain expected boot generation now where
    c: "c = AttemptL1 h expected boot generation now"
    and d: "pd_code (snd (permit_attempt ''l1'' p h expected boot generation now)) = ''l1'' @ ''_pass''"
    by (auto simp: l1_pass_def attempt_l1_def split_beta split: permit_call.splits)
  from d show ?thesis
    by (rule permit_pass_iff) (simp add: c attempt_l1_def split_beta permit_rank_def
        required_phase_def passed_phase_def phase_level_def)
qed

lemma l2_pass_raises:
  assumes "l2_pass h c (snd (permit_step p c))"
  shows "permit_rank h p = 2 \<and> permit_rank h (fst (permit_step p c)) = 3"
proof -
  from assms obtain expected boot generation now where
    c: "c = AttemptL2 h expected boot generation now"
    and d: "pd_code (snd (permit_attempt ''l2'' p h expected boot generation now)) = ''l2'' @ ''_pass''"
    by (auto simp: l2_pass_def attempt_l2_def split_beta split: permit_call.splits)
  from d show ?thesis
    by (rule permit_pass_iff) (simp add: c attempt_l2_def split_beta permit_rank_def
        required_phase_def passed_phase_def phase_level_def)
qed

interpretation l1_ratchet: ratchet permit_step permit_inv "permit_rank h" "l1_pass h" 2 for h
  by unfold_locales (use permit_rank_mono l1_pass_raises in \<open>auto\<close>)

interpretation l2_ratchet: ratchet permit_step permit_inv "permit_rank h" "l2_pass h" 3 for h
  by unfold_locales (use permit_rank_mono l2_pass_raises in \<open>auto\<close>)

text \<open>Only an L1 pass consumes an offered permit; every other call leaves it or closes it.\<close>

lemma stage_rank:
  assumes "permit_inv p" and "permit_stage p binding now = Inr (p', h')" and "permit_rank h p \<le> 1"
  shows "permit_rank h p' \<le> 1"
  using assms(2,3)
  by (auto simp: permit_stage_def Let_def permit_rank_def permit_entry_of_def phase_level_def
      split: option.splits if_splits)

lemma attempt_rank:
  assumes inv: "permit_inv p" and low: "permit_rank h p \<le> 1"
    and nopass: "k = h \<Longrightarrow> fence = ''l1'' \<Longrightarrow>
      pd_code (snd (permit_attempt fence p k expected boot generation now)) \<noteq> ''l1_pass''"
  shows "permit_rank h (fst (permit_attempt fence p k expected boot generation now)) \<in> {0, 1, 4}"
proof (cases rule: permit_attempt_cases [of p k fence expected boot generation now])
  case unknown
  with low show ?thesis by auto
next
  case (denied e reason)
  then show ?thesis using rank_close_entry [OF inv denied(1)] low
    by (cases "k = h") (auto simp: permit_denied_def Let_def)
next
  case (pass e)
  show ?thesis
  proof (cases "k = h")
    case True
    then have "fence \<noteq> ''l1''" using nopass pass(8) by auto
    with True pass(1,2) low show ?thesis
      by (simp add: permit_rank_def required_phase_def phase_level_def)
  next
    case False
    with pass(8) low show ?thesis by (auto simp: permit_rank_def)
  qed
qed

lemma step_rank:
  assumes inv: "permit_inv p" and low: "permit_rank h p \<le> 1"
    and nopass: "\<not> l1_pass h c (snd (permit_step p c))"
  shows "permit_rank h (fst (permit_step p c)) \<in> {0, 1, 4}"
proof (cases c)
  case (Stage binding now)
  with low show ?thesis using stage_rank [OF inv, of binding now _ _ h]
    by (auto split: sum.split)
next
  case (AttemptL1 k expected boot generation now)
  then have "permit_rank h (fst (permit_attempt ''l1'' p k expected boot generation now)) \<in> {0, 1, 4}"
    using nopass by (intro attempt_rank [OF inv low]) (auto simp: l1_pass_def attempt_l1_def split_beta)
  with AttemptL1 show ?thesis by (simp add: attempt_l1_def split_beta)
next
  case (AttemptL2 k expected boot generation now)
  have "permit_rank h (fst (permit_attempt ''l2'' p k expected boot generation now)) \<in> {0, 1, 4}"
    by (intro attempt_rank [OF inv low]) simp
  with AttemptL2 show ?thesis by (simp add: attempt_l2_def split_beta)
next
  case (ClosePermit k)
  show ?thesis
  proof (cases "permit_entry_of p k")
    case None
    with ClosePermit low show ?thesis by (auto simp: permit_close_def)
  next
    case (Some e)
    then show ?thesis using ClosePermit rank_close_entry [OF inv Some] low
      by (cases "k = h") (auto simp: permit_close_def)
  qed
next
  case (PhaseOf k)
  with low show ?thesis by (auto simp: permit_phase_def split: option.split)
qed

lemma consumed_needs_pass:
  assumes "permit_inv p" and "permit_rank h p \<le> 1"
    and "permit_rank h (final permit_step p cs) \<in> {2, 3}"
  shows "\<exists>(c, out) \<in> set (trace permit_step p cs). l1_pass h c out"
  using assms
proof (induction cs arbitrary: p)
  case Nil
  then show ?case by simp
next
  case (Cons c cs)
  let ?p = "fst (permit_step p c)"
  have inv: "permit_inv ?p" by (rule permit_inv_step [OF Cons.prems(1)])
  show ?case
  proof (cases "l1_pass h c (snd (permit_step p c))")
    case True
    then show ?thesis by simp
  next
    case False
    then have r: "permit_rank h ?p \<in> {0, 1, 4}"
      using Cons.prems by (intro step_rank)
    have "permit_rank h ?p \<le> permit_rank h (final permit_step ?p cs)"
      by (rule l1_ratchet.rank_final [OF inv])
    with r Cons.prems(3) have "permit_rank h ?p \<le> 1" by auto
    with Cons.IH [OF inv] Cons.prems(3) show ?thesis by simp
  qed
qed

text \<open>
  C4: A permit is good for one dispatch.  In any interleaving of calls on a fresh book,
  each handle passes the initiation fence L1 at most once and the write fence L2 at most
  once, and every L2 pass comes after an L1 pass of the same handle.
\<close>

theorem permit_one_use:
  assumes "permit_book_new boot generation = Inr p0"
  shows "length (filter (\<lambda>(c, out). l1_pass h c out) (trace permit_step p0 calls)) \<le> 1 \<and>
    length (filter (\<lambda>(c, out). l2_pass h c out) (trace permit_step p0 calls)) \<le> 1 \<and>
    (\<forall>before c after. calls = before @ c # after \<and>
       l2_pass h c (snd (permit_step (final permit_step p0 before) c)) \<longrightarrow>
       (\<exists>(c', out) \<in> set (trace permit_step p0 before). l1_pass h c' out))"
proof -
  have inv: "permit_inv p0" by (rule permit_inv_new [OF assms])
  have z: "permit_rank h p0 \<le> 1"
    using assms by (auto simp: permit_book_new_def permit_rank_def permit_entry_of_def split: if_splits)
  have "\<exists>(c', out) \<in> set (trace permit_step p0 before). l1_pass h c' out"
    if "l2_pass h c (snd (permit_step (final permit_step p0 before) c))" for before c
    using l2_pass_raises [OF that] by (intro consumed_needs_pass [OF inv z]) simp
  then show ?thesis
    using l1_ratchet.at_most_once [OF inv] l2_ratchet.at_most_once [OF inv] by blast
qed

text \<open>
  C27: A fence is passed only by the exact staged binding, in time and in context: the
  caller presented the very binding the permit was staged with, the current boot and
  generation, and a clock before the permit's expiry, and the permit was in the phase the
  fence needs.  Any other attempt on a known handle is denied and closes the permit for
  good: no later call of any kind passes a fence with it.
\<close>

theorem permit_attempt_exact_or_closed:
  assumes "permit_inv p" and "permit_entry_of p h = Some e"
    and "permit_attempt fence p h expected boot generation now = (p', d)" and "fence \<in> {''l1'', ''l2''}"
  shows "(pd_code d = fence @ ''_pass'' \<and> expected = Some (pe_binding e) \<and>
      boot = PStr (pb_boot_id p) \<and> generation = PStr (pb_generation p) \<and>
      int_of now < int_of (b_expires_us (pe_binding e)) \<and>
      pe_phase e = (if fence = ''l1'' then ''offered'' else ''consumed_l1'') \<and>
      permit_phase p' h = Inr (if fence = ''l1'' then ''consumed_l1'' else ''write_admitted'')) \<or>
    (pd_code d = fence @ ''_denied'' \<and> permit_phase p' h = Inr ''closed'' \<and>
      (\<forall>calls. \<forall>(c, out) \<in> set (trace permit_step p' calls). \<not> l1_pass h c out \<and> \<not> l2_pass h c out))"
proof (cases rule: permit_attempt_cases [of p h fence expected boot generation now])
  case unknown
  with assms(2) show ?thesis by simp
next
  case (denied e' reason)
  then have p': "p' = permit_close_entry p h e" "pd_code d = fence @ ''_denied''"
    using assms(2,3) by (auto simp: permit_denied_def Let_def)
  have inv: "permit_inv p'" by (simp add: p' permit_inv_close_entry assms)
  have r: "permit_rank h p' = 4" using rank_close_entry(1) [OF assms(1,2)] p' by simp
  then have "permit_phase p' h = Inr ''closed''"
    using p'(1) permit_entry_phase [OF assms(1,2)] assms(2)
    by (auto simp: permit_phase_def entry_close_entry is_open_def OPEN_PHASES_def PERMIT_PHASES_def)
  moreover have "\<forall>calls. \<forall>(c, out) \<in> set (trace permit_step p' calls). \<not> l1_pass h c out \<and> \<not> l2_pass h c out"
    using l1_ratchet.no_hit_above [OF inv, of h] l2_ratchet.no_hit_above [OF inv, of h] r
    by (fastforce simp: filter_empty_conv)
  ultimately show ?thesis using p'(2) by blast
next
  case (pass e')
  with assms(2,3) show ?thesis
    by (auto simp: permit_phase_def required_phase_def passed_phase_def)
qed

section \<open>Witnesses\<close>

definition sample_binding :: permit_binding where
  "sample_binding = \<lparr>b_permit_id = PStr ''p1'', b_receiver_boot_id = PStr ''boot'',
     b_forwarder_generation = PStr ''gen'', b_run_id = PStr ''run'', b_attempt_id = PStr ''att'',
     b_operation_id = PStr ''op1'', b_effect_intent_id = PStr ''ei'', b_grant_id = PStr ''g'',
     b_flight_id = PStr ''f'', b_service = PStr ''jira'', b_route_id = PStr ''jira.search'',
     b_request_digest = PStr zero_digest, b_target_digest = PStr zero_digest,
     b_expires_us = PInt 100\<rparr>"

definition sample_book :: permit_book where
  "sample_book = \<lparr>pb_boot_id = ''boot'', pb_generation = ''gen'', pb_entries = [],
     pb_permit_ids = [], pb_operation_ids = [], pb_open = 0\<rparr>"

definition sample_calls :: "permit_call list" where
  "sample_calls =
     [Stage (Some sample_binding) (PInt 5),
      AttemptL1 0 (Some sample_binding) (PStr ''boot'') (PStr ''gen'') (PInt 6),
      AttemptL1 0 (Some sample_binding) (PStr ''boot'') (PStr ''gen'') (PInt 7)]"

lemma sample_book_new: "permit_book_new (PStr ''boot'') (PStr ''gen'') = Inr sample_book"
  by code_simp

theorem permit_book_invariant_witness:
  "length (pb_entries (final permit_step sample_book sample_calls)) = 1 \<and>
   pb_open (final permit_step sample_book sample_calls) \<le> 32"
proof -
  have "length (pb_entries (final permit_step sample_book sample_calls)) = 1" by code_simp
  with permit_book_invariant [OF sample_book_new refl, of sample_calls] show ?thesis by simp
qed

theorem permit_one_use_witness:
  "length (filter (\<lambda>(c, out). l1_pass 0 c out) (trace permit_step sample_book sample_calls)) = 1 \<and>
   length (filter (\<lambda>(c, out). l2_pass 0 c out) (trace permit_step sample_book sample_calls)) \<le> 1"
proof -
  have "length (filter (\<lambda>(c, out). l1_pass 0 c out) (trace permit_step sample_book sample_calls)) = 1"
    by code_simp
  with permit_one_use [OF sample_book_new, of 0 sample_calls] show ?thesis by simp
qed

definition staged_book :: permit_book where
  "staged_book = fst (permit_step sample_book (Stage (Some sample_binding) (PInt 5)))"

theorem permit_attempt_exact_or_closed_witness:
  "\<exists>p' d. permit_attempt ''l2'' staged_book 0 (Some sample_binding) (PStr ''boot'') (PStr ''gen'')
       (PInt 6) = (p', d) \<and> pd_code d = ''l2_denied'' \<and> permit_phase p' 0 = Inr ''closed''"
proof -
  have inv: "permit_inv staged_book"
    unfolding staged_book_def by (rule permit_inv_step) (rule permit_inv_new [OF sample_book_new])
  have e: "permit_entry_of staged_book 0 = Some \<lparr>pe_binding = sample_binding, pe_phase = ''offered''\<rparr>"
    by code_simp
  obtain p' d where r: "permit_attempt ''l2'' staged_book 0 (Some sample_binding) (PStr ''boot'')
      (PStr ''gen'') (PInt 6) = (p', d)" by fastforce
  show ?thesis using r permit_attempt_exact_or_closed [OF inv e r] by auto
qed

end
