(* ===== verification/PyFloat.thy ===== *)
theory PyFloat
  imports Prelude "HOL-Library.Log_Nat"
begin

text \<open>
  Python's \<open>float\<close> arithmetic on finite values.  A finite float is the rational it
  denotes; addition and subtraction round the exact result to the nearest value with a
  53-bit significand, ties to even.  The sums and differences the package computes stay far
  from the overflow threshold (a finite float plus 310 never rounds to infinity) and sums in
  the subnormal range are exact, so the unbounded exponent loses nothing.
\<close>

definition floor_log2 :: "rat \<Rightarrow> int" where
  "floor_log2 x = (case quotient_of x of (n, d) \<Rightarrow>
     let k = bitlen n - bitlen d in if 2 powi k \<le> x then k else k - 1)"

definition round_half_even :: "rat \<Rightarrow> int" where
  "round_half_even x = (let f = floor x; d = x - of_int f
     in if d < 1 / 2 then f else if 1 / 2 < d then f + 1 else if even f then f else f + 1)"

definition round53 :: "rat \<Rightarrow> rat" where
  "round53 x = (if x = 0 then 0
     else let u = 2 powi (floor_log2 \<bar>x\<bar> - 52) in of_int (round_half_even (x / u)) * u)"

definition fadd :: "rat \<Rightarrow> rat \<Rightarrow> rat" where
  "fadd x y = round53 (x + y)"

definition fsub :: "rat \<Rightarrow> rat \<Rightarrow> rat" where
  "fsub x y = round53 (x - y)"

text \<open>\<open>float(value)\<close> of an \<open>int\<close>: rounded, \<open>OverflowError\<close> from \<open>2^1024\<close> on.\<close>

definition float_of_int :: "int \<Rightarrow> rat option" where
  "float_of_int i = (let x = round53 (of_int i) in if \<bar>x\<bar> < 2 ^ 1024 then Some x else None)"

text \<open>
  \<open>_require_time\<close> of the lease registry and the receipt ledger: an \<open>int\<close> or
  \<open>float\<close> (never a \<open>bool\<close>), finite and not negative.
\<close>

definition require_time :: "pyval \<Rightarrow> string \<Rightarrow> rat res" where
  "require_time v code = (case v of
     PInt i \<Rightarrow> (case float_of_int i of
                  None \<Rightarrow> Inl code | Some x \<Rightarrow> if x < 0 then Inl code else Inr x)
   | PFloat (Finite x) \<Rightarrow> if x < 0 then Inl code else Inr x
   | _ \<Rightarrow> Inl code)"

lemma require_time_nonneg: "require_time v code = Inr x \<Longrightarrow> 0 \<le> x"
  by (auto simp: require_time_def split: pyval.splits pyfloat.splits option.splits if_splits)

section \<open>Rounding is monotone\<close>

lemma round_half_even_mono: "x \<le> y \<Longrightarrow> round_half_even x \<le> round_half_even y"
proof -
  assume le: "x \<le> y"
  then have f: "floor x \<le> floor y" by (rule floor_mono)
  show ?thesis
  proof (cases "floor x = floor y")
    case True
    with le show ?thesis by (auto simp: round_half_even_def Let_def)
  next
    case False
    with f have "floor x + 1 \<le> floor y" by linarith
    moreover have "round_half_even x \<le> floor x + 1" "floor y \<le> round_half_even y"
      by (auto simp: round_half_even_def Let_def)
    ultimately show ?thesis by linarith
  qed
qed

lemma round_half_even_int [simp]: "round_half_even (of_int k) = k"
  by (simp add: round_half_even_def)

lemma round_half_even_nonneg: "0 \<le> x \<Longrightarrow> 0 \<le> round_half_even x"
  using round_half_even_mono [of 0 x] round_half_even_int [of 0] by simp

lemma round53_nonneg: "0 \<le> x \<Longrightarrow> 0 \<le> round53 x"
  by (auto simp: round53_def Let_def intro!: mult_nonneg_nonneg round_half_even_nonneg divide_nonneg_nonneg)

lemma fadd_nonneg: "0 \<le> x \<Longrightarrow> 0 \<le> y \<Longrightarrow> 0 \<le> fadd x y"
  by (simp add: fadd_def round53_nonneg)

lemma round53_int_example: "fadd 5 270 = 275" "fsub 300 5 = 295"
  by code_simp+

end
