(* ===== verification/Json.thy ===== *)
theory Json
  imports Prelude "HOL-Library.Multiset"
begin

text \<open>
  JSON values and their two encodings: the standard library's compact
  \<open>json.dumps(..., sort_keys=True, separators=(",", ":"))\<close>, used to measure registry
  metadata (ASCII text only), and the pinned canonical encoding of \<open>forwarder_json.py\<close>.

  A byte string is a \<open>string\<close>.  A \<open>str\<close> is modelled by its UTF-8 bytes, a lone
  surrogate by the three bytes its code point would have; so \<open>encode("utf-8")\<close> is the
  identity on strings without surrogates.  An object is an association list in insertion
  order; a \<open>dict\<close> never holds a key twice.  The text of a float
  (\<open>float.__repr__\<close>) is a parameter.
\<close>

type_synonym bytes = string

datatype json =
    JNull
  | JBool bool
  | JInt int
  | JFloat rat
  | JDecimal string
  | JStr string
  | JArr "json list"
  | JObj "(string \<times> json) list"

section \<open>Numbers and strings\<close>

definition digit_char :: "nat \<Rightarrow> char" where
  "digit_char n = digits ! n"

fun nat_text :: "nat \<Rightarrow> string" where
  "nat_text n = (if n < 10 then [digit_char n] else nat_text (n div 10) @ [digit_char (n mod 10)])"

declare nat_text.simps [simp del]

definition int_text :: "int \<Rightarrow> string" where
  "int_text i = (if i < 0 then CHR ''-'' # nat_text (nat (- i)) else nat_text (nat i))"

definition hex_digit :: "nat \<Rightarrow> char" where
  "hex_digit n = ''0123456789abcdef'' ! n"

text \<open>The two-character escapes, and \<open>\u00XX\<close> for the other control characters.\<close>

definition escape_u :: "char \<Rightarrow> string" where
  "escape_u c = [CHR 0x5C, CHR ''u'', CHR ''0'', CHR ''0'', hex_digit (of_char c div 16),
                 hex_digit (of_char c mod 16)]"

definition escape_char :: "bool \<Rightarrow> char \<Rightarrow> string" where
  "escape_char ensure_ascii c =
     (if c = CHR 0x22 then [CHR 0x5C, CHR 0x22]
      else if c = CHR 0x5C then [CHR 0x5C, CHR 0x5C]
      else if c = CHR 0x0A then [CHR 0x5C, CHR ''n'']
      else if c = CHR 0x0D then [CHR 0x5C, CHR ''r'']
      else if c = CHR 0x09 then [CHR 0x5C, CHR ''t'']
      else if c = CHR 0x0C then [CHR 0x5C, CHR ''f'']
      else if c = CHR 0x08 then [CHR 0x5C, CHR ''b'']
      else if (of_char c :: nat) < 32 then escape_u c
      else if ensure_ascii \<and> (of_char c :: nat) > 126 then escape_u c
      else [c])"

definition quote_text :: "bool \<Rightarrow> string \<Rightarrow> string" where
  "quote_text ensure_ascii s = CHR 0x22 # concat (map (escape_char ensure_ascii) s) @ [CHR 0x22]"

text \<open>The 16-bit units of \<open>encode("utf-16-be")\<close>, the order of canonical keys.\<close>

definition continuation :: "string \<Rightarrow> nat \<Rightarrow> nat" where
  "continuation s k = (if k < length s then of_char (s ! k) mod 64 else 0)"

function utf16_units :: "string \<Rightarrow> nat list" where
  "utf16_units [] = []"
| "utf16_units (c # s) = (let n = of_char c :: nat in
     if n < 0x80 then n # utf16_units s
     else if n < 0xE0 then ((n - 0xC0) * 64 + continuation s 0) # utf16_units (drop 1 s)
     else if n < 0xF0 then ((n - 0xE0) * 4096 + continuation s 0 * 64 + continuation s 1) # utf16_units (drop 2 s)
     else let p = (n - 0xF0) * 262144 + continuation s 0 * 4096 + continuation s 1 * 64 + continuation s 2 - 0x10000
          in (0xD800 + p div 1024) # (0xDC00 + p mod 1024) # utf16_units (drop 3 s))"
  by pat_completeness auto
termination
  by (relation "measure length") auto

fun join_with :: "char \<Rightarrow> string list \<Rightarrow> string" where
  "join_with sep [] = []"
| "join_with sep [x] = x"
| "join_with sep (x # y # ys) = x @ sep # join_with sep (y # ys)"

section \<open>The standard library's compact encoding\<close>

fun dumps :: "(rat \<Rightarrow> string) \<Rightarrow> json \<Rightarrow> string" where
  "dumps fr JNull = ''null''"
| "dumps fr (JBool b) = (if b then ''true'' else ''false'')"
| "dumps fr (JInt i) = int_text i"
| "dumps fr (JFloat x) = fr x"
| "dumps fr (JDecimal t) = t"
| "dumps fr (JStr s) = quote_text True s"
| "dumps fr (JArr xs) = CHR ''['' # join_with CHR '','' (map (dumps fr) xs) @ '']''"
| "dumps fr (JObj kvs) = CHR ''{'' #
     join_with CHR '','' (map (\<lambda>(k, t). quote_text True k @ CHR '':'' # t)
       (sort_key fst (map (\<lambda>(k, v). (k, dumps fr v)) kvs))) @ ''}''"

section \<open>The canonical encoding\<close>

definition MAX_JSON_DEPTH :: nat where "MAX_JSON_DEPTH = 16"
definition MAX_JSON_ARRAY_ITEMS :: nat where "MAX_JSON_ARRAY_ITEMS = 256"
definition MAX_JSON_STRING_BYTES :: nat where "MAX_JSON_STRING_BYTES = 16384"
definition MAX_SAFE_INTEGER :: int where "MAX_SAFE_INTEGER = 2 ^ 53 - 1"

text \<open>
  \<open>_check_string\<close>: no NUL and no surrogate, printable ASCII when asked, and a bound on
  the UTF-8 length.
\<close>

fun bad_characters :: "string \<Rightarrow> bool" where
  "bad_characters [] = False"
| "bad_characters (c # s) = (c = CHR 0x00 \<or> c = CHR 0xED \<and> s \<noteq> [] \<and> 0xA0 \<le> (of_char (hd s) :: nat) \<or> bad_characters s)"

definition printable :: "char \<Rightarrow> bool" where
  "printable c \<longleftrightarrow> 0x20 \<le> (of_char c :: nat) \<and> of_char c \<le> (0x7E :: nat)"

definition check_string :: "bool \<Rightarrow> nat \<Rightarrow> string \<Rightarrow> unit res" where
  "check_string ascii_only max_bytes s =
     (if bad_characters s then Inl ''json_unicode''
      else if ascii_only \<and> \<not> list_all printable s then Inl ''json_unicode''
      else if length s > max_bytes then Inl ''json_string_too_long''
      else Inr ())"

definition encode_string :: "string \<Rightarrow> bytes" where
  "encode_string s = quote_text False s"

fun rseq :: "'a res list \<Rightarrow> 'a list res" where
  "rseq [] = Inr []"
| "rseq (r # rs) = rbind r (\<lambda>x. rbind (rseq rs) (\<lambda>xs. Inr (x # xs)))"

fun canonicalize :: "bool \<Rightarrow> nat \<Rightarrow> json \<Rightarrow> bytes res" where
  "canonicalize ascii depth (JBool b) = Inr (if b then ''true'' else ''false'')"
| "canonicalize ascii depth (JInt i) =
     (if \<bar>i\<bar> > MAX_SAFE_INTEGER then Inl ''json_number'' else Inr (int_text i))"
| "canonicalize ascii depth JNull = Inr ''null''"
| "canonicalize ascii depth (JStr s) =
     rbind (check_string ascii MAX_JSON_STRING_BYTES s) (\<lambda>_. Inr (encode_string s))"
| "canonicalize ascii depth (JObj kvs) =
     (if depth > MAX_JSON_DEPTH then Inl ''json_depth''
      else rbind (rall (\<lambda>(k, _). check_string ascii MAX_JSON_STRING_BYTES k) kvs) (\<lambda>_.
        rbind (rseq (map (\<lambda>(k, r). rbind r (\<lambda>t. Inr (encode_string k @ CHR '':'' # t)))
                 (sort_key (utf16_units \<circ> fst) (map (\<lambda>(k, v). (k, canonicalize ascii (Suc depth) v)) kvs))))
          (\<lambda>parts. Inr (CHR ''{'' # join_with CHR '','' parts @ ''}''))))"
| "canonicalize ascii depth (JArr xs) =
     (if depth > MAX_JSON_DEPTH then Inl ''json_depth''
      else if length xs > MAX_JSON_ARRAY_ITEMS then Inl ''json_array_too_long''
      else rbind (rseq (map (canonicalize ascii (Suc depth)) xs))
             (\<lambda>parts. Inr (CHR ''['' # join_with CHR '','' parts @ '']'')))"
| "canonicalize ascii depth (JFloat x) = Inl ''json_type''"
| "canonicalize ascii depth (JDecimal t) = Inl ''json_type''"

definition canonical_json :: "bool \<Rightarrow> json \<Rightarrow> bytes res" where
  "canonical_json ascii_only v = canonicalize ascii_only 1 v"

definition tag_pattern :: "string \<Rightarrow> bool" where
  "tag_pattern s = (case s of [] \<Rightarrow> False
     | c # cs \<Rightarrow> c \<in> set (take 26 letters @ digits) \<and> length cs \<le> 63 \<and>
         list_all (\<lambda>c. c \<in> set (take 26 letters @ digits @ ''.-'')) cs)"

text \<open>The hash \<open>sha256(...).hexdigest()\<close> is a parameter from bytes to its text.\<close>

definition tagged_digest :: "(bytes \<Rightarrow> string) \<Rightarrow> string \<Rightarrow> json \<Rightarrow> string res" where
  "tagged_digest sha256 tag v =
     (if \<not> tag_pattern tag then Inl ''json_argument''
      else rbind (canonical_json True v) (\<lambda>body. Inr (sha256 (tag @ CHR 0x00 # body))))"

section \<open>Access to objects\<close>

definition has_keys :: "string list \<Rightarrow> json \<Rightarrow> bool" where
  "has_keys ks v = (case v of JObj kvs \<Rightarrow> set (map fst kvs) = set ks | _ \<Rightarrow> False)"

text \<open>\<open>value[k]\<close>, used only after the keys are checked.\<close>

definition fld :: "json \<Rightarrow> string \<Rightarrow> json" where
  "fld v k = (case v of JObj kvs \<Rightarrow> (case map_of kvs k of Some x \<Rightarrow> x | None \<Rightarrow> JNull) | _ \<Rightarrow> JNull)"

fun jstr :: "json \<Rightarrow> string" where
  "jstr (JStr s) = s"
| "jstr _ = []"

fun jint :: "json \<Rightarrow> int" where
  "jint (JInt i) = i"
| "jint _ = 0"

fun jstr_in :: "string list \<Rightarrow> json \<Rightarrow> bool" where
  "jstr_in xs (JStr s) = (s \<in> set xs)"
| "jstr_in xs _ = False"

fun juuid4 :: "json \<Rightarrow> bool" where
  "juuid4 (JStr s) = uuid4_string s"
| "juuid4 _ = False"

fun jarr :: "json \<Rightarrow> json list" where
  "jarr (JArr xs) = xs"
| "jarr _ = []"

section \<open>Lengths\<close>

lemma length_nat_text_mono: "m \<le> n \<Longrightarrow> length (nat_text m) \<le> length (nat_text n)"
proof (induction n arbitrary: m rule: nat_text.induct)
  case (1 n)
  show ?case
  proof (cases "m < 10")
    case True
    then have "length (nat_text m) = 1" by (simp add: nat_text.simps [of m])
    moreover have "1 \<le> length (nat_text n)" by (subst nat_text.simps) simp
    ultimately show ?thesis by simp
  next
    case False
    then have "length (nat_text (m div 10)) \<le> length (nat_text (n div 10))"
      using "1.prems" by (intro "1.IH") (simp_all add: div_le_mono)
    with False "1.prems" show ?thesis
      by (simp add: nat_text.simps [of m] nat_text.simps [of n])
  qed
qed

lemma length_nat_text_half: "length (nat_text n) \<le> n div 2 + 1"
proof (induction n rule: nat_text.induct)
  case (1 n)
  show ?case
  proof (cases "n < 10")
    case True
    then show ?thesis by (simp add: nat_text.simps [of n])
  next
    case False
    then have "length (nat_text n) = length (nat_text (n div 10)) + 1"
      by (simp add: nat_text.simps [of n])
    also have "\<dots> \<le> n div 10 div 2 + 2" using "1.IH" False by simp
    also have "\<dots> \<le> n div 2 + 1" using False by linarith
    finally show ?thesis .
  qed
qed

lemma nat_text_nonempty: "0 < length (nat_text n)"
  by (subst nat_text.simps) simp

lemma int_text_of_nat [simp]: "int_text (int n) = nat_text n"
  by (simp add: int_text_def)

lemma length_join_with:
  "length (join_with c xs) = sum_list (map length xs) + (length xs - 1)"
  by (induction c xs rule: join_with.induct) auto

definition member_size :: "(rat \<Rightarrow> string) \<Rightarrow> string \<times> json \<Rightarrow> nat" where
  "member_size fr m = length (quote_text True (fst m)) + 1 + length (dumps fr (snd m))"

lemma sum_list_sort_key:
  "sum_list (map (f :: 'a \<Rightarrow> nat) (sort_key g xs)) = sum_list (map f xs)"
  by (metis mset_map mset_sort sum_mset_sum_list)

lemma length_dumps_JObj:
  "length (dumps fr (JObj kvs)) = sum_list (map (member_size fr) kvs) + (length kvs - 1) + 2"
proof -
  let ?f = "\<lambda>(k, t). quote_text True k @ CHR '':'' # t"
  let ?ts = "map (\<lambda>(k, v). (k, dumps fr v)) kvs"
  have "sum_list (map length (map ?f (sort_key fst ?ts))) = sum_list (map (length \<circ> ?f) (sort_key fst ?ts))"
    by simp
  also have "\<dots> = sum_list (map (length \<circ> ?f) ?ts)" by (rule sum_list_sort_key)
  also have "\<dots> = sum_list (map (member_size fr) kvs)"
    by (simp add: comp_def split_beta member_size_def [abs_def])
  finally show ?thesis by (simp add: length_join_with)
qed

lemma length_dumps_JArr:
  "length (dumps fr (JArr xs)) = sum_list (map (length \<circ> dumps fr) xs) + (length xs - 1) + 2"
  by (simp add: length_join_with comp_def)

lemma update_splits:
  "\<exists>xs ys. \<forall>v. AList.update k v d = xs @ (k, v) # ys"
proof (induction d)
  case Nil
  show ?case by (rule exI [of _ "[]"]) simp
next
  case (Cons p d)
  then obtain xs ys where "\<forall>v. AList.update k v d = xs @ (k, v) # ys" by blast
  then show ?case
    by (cases "fst p = k"; cases p) (force intro: exI [of _ "[]"] exI [of _ "p # xs"])+
qed

lemma length_dumps_update:
  "\<exists>n. \<forall>v. length (dumps fr (JObj (AList.update k v d))) = n + length (dumps fr v)"
proof -
  obtain xs ys where e: "\<forall>v. AList.update k v d = xs @ (k, v) # ys" using update_splits [of k d] by blast
  show ?thesis
    by (rule exI [of _ "sum_list (map (member_size fr) (xs @ ys)) + length (quote_text True k) + 1 +
        (length xs + length ys) + 2"])
      (simp add: e length_dumps_JObj member_size_def [of fr "(k, _)"] del: dumps.simps)
qed

end
