(* ===== verification/Leases.thy ===== *)
theory Leases
  imports PyFloat Json Services
begin

text \<open>
  The Receiver-controlled lease registry (\<open>forwarder_leases.py\<close>).  One lock guards every
  public method, so each method is an atomic function of the registry; it returns the new
  registry also when it raises, because a raise keeps the mutations made before it.

  Parameters of an operation beside its arguments: \<open>fr\<close>, the text of a float
  (\<open>float.__repr__\<close>, used only to measure metadata); \<open>tick\<close>, what the injected
  clock returned (\<open>None\<close> when it raised); and for \<open>register\<close> the fresh identifier
  and sentinel drawn from \<open>secrets\<close>.
\<close>

section \<open>Data\<close>

definition MAX_LIVE_LEASES :: nat where "MAX_LIVE_LEASES = 256"
definition MAX_RECORDS :: nat where "MAX_RECORDS = 1024"
definition MAX_HISTORY :: nat where "MAX_HISTORY = 128"
definition MAX_METADATA_BYTES :: nat where "MAX_METADATA_BYTES = 512 * 1024"
definition HEARTBEAT_SECONDS :: rat where "HEARTBEAT_SECONDS = 15"
definition LEASE_SECONDS :: rat where "LEASE_SECONDS = 270"
definition RETENTION_SECONDS :: rat where "RETENTION_SECONDS = 310"
definition STATE_TRANSITION_RESERVE_BYTES :: nat where "STATE_TRANSITION_RESERVE_BYTES = 128"
definition HISTORY_RECEIPT_RESERVE_BYTES :: nat where "HISTORY_RECEIPT_RESERVE_BYTES = 512"
definition TOP_LEVEL_RESERVE_BYTES :: nat where "TOP_LEVEL_RESERVE_BYTES = 4096"
definition MAX_HISTORY_DROPPED :: int where "MAX_HISTORY_DROPPED = 2 ^ 31 - 1"

definition REVOCATION_REASONS :: "string list" where
  "REVOCATION_REASONS = [''cancelled'', ''deadline'', ''control_failure'', ''launch_failure'',
     ''operator_cancel'', ''receiver_shutdown'']"

record lease_grant =
  lg_generation :: string
  lg_lease_id :: string
  lg_run_id :: string
  lg_attempt_id :: string
  lg_receiver_boot_id :: string
  lg_service :: string
  lg_scope_digest :: string
  lg_expires_at :: rat
  lg_sentinel :: string

record lease_receipt =
  rc_operation :: string
  rc_generation :: string
  rc_lease_id :: "string option"
  rc_service :: "string option"
  rc_state :: string
  rc_reason :: string
  rc_authorized :: "bool option"
  rc_observed_at :: rat

record lease_record =
  lr_grant :: lease_grant
  lr_receiver_boot_id :: string
  lr_created_at :: rat
  lr_state :: string
  lr_launch_at :: "rat option"
  lr_retired_at :: "rat option"

record lease_registry =
  lx_generation :: string
  lx_receiver_boot_id :: "string option"
  lx_last_heartbeat :: "rat option"
  lx_records :: "(string \<times> lease_record) list"
  lx_bindings :: "((string \<times> string \<times> string) \<times> string) list"
  lx_history :: "lease_receipt list"
  lx_history_dropped :: int
  lx_last_now :: "rat option"
  lx_held_code :: "string option"
  lx_control_stale :: bool

definition lease_registry_new :: "string \<Rightarrow> lease_registry" where
  "lease_registry_new generation =
     \<lparr>lx_generation = generation, lx_receiver_boot_id = None, lx_last_heartbeat = None,
      lx_records = [], lx_bindings = [], lx_history = [], lx_history_dropped = 0,
      lx_last_now = None, lx_held_code = None, lx_control_stale = False\<rparr>"

section \<open>Argument checks\<close>

definition require_id :: "pyval \<Rightarrow> string \<Rightarrow> string res" where
  "require_id v code = (case v of
     PStr s \<Rightarrow> if safe_id_string s then Inr s else Inl code | _ \<Rightarrow> Inl code)"

definition require_token :: "pyval \<Rightarrow> string res" where
  "require_token v = (case v of
     PStr s \<Rightarrow> if 1 \<le> length s \<and> length s \<le> 64 \<and> list_all (\<lambda>c. c \<in> safe_token_chars) s
               then Inr s else Inl ''invalid_sentinel''
   | _ \<Rightarrow> Inl ''invalid_sentinel'')"

definition require_digest :: "pyval \<Rightarrow> string res" where
  "require_digest v = (case v of
     PStr s \<Rightarrow> if hex64_string s then Inr s else Inl ''invalid_scope_digest''
   | _ \<Rightarrow> Inl ''invalid_scope_digest'')"

definition require_service :: "pyval \<Rightarrow> string res" where
  "require_service v = (case v of
     PStr s \<Rightarrow> if service_known s then Inr s else Inl ''invalid_service''
   | _ \<Rightarrow> Inl ''invalid_service'')"

definition require_reason :: "pyval \<Rightarrow> string res" where
  "require_reason v = (case v of
     PStr s \<Rightarrow> if s \<in> set REVOCATION_REASONS then Inr s else Inl ''invalid_reason''
   | _ \<Rightarrow> Inl ''invalid_reason'')"

section \<open>Metadata\<close>

definition opt_str :: "string option \<Rightarrow> json" where
  "opt_str v = (case v of None \<Rightarrow> JNull | Some s \<Rightarrow> JStr s)"

definition opt_float :: "rat option \<Rightarrow> json" where
  "opt_float v = (case v of None \<Rightarrow> JNull | Some x \<Rightarrow> JFloat x)"

definition receipt_metadata :: "lease_receipt \<Rightarrow> json" where
  "receipt_metadata r = JObj
     [(''operation'', JStr (rc_operation r)), (''generation'', JStr (rc_generation r)),
      (''lease_id'', opt_str (rc_lease_id r)), (''service'', opt_str (rc_service r)),
      (''state'', JStr (rc_state r)), (''reason'', JStr (rc_reason r)),
      (''authorized'', case rc_authorized r of None \<Rightarrow> JNull | Some b \<Rightarrow> JBool b),
      (''observed_at'', JFloat (rc_observed_at r))]"

definition record_metadata :: "lease_record \<Rightarrow> json" where
  "record_metadata r = JObj
     [(''generation'', JStr (lg_generation (lr_grant r))),
      (''lease_id'', JStr (lg_lease_id (lr_grant r))),
      (''run_id'', JStr (lg_run_id (lr_grant r))),
      (''attempt_id'', JStr (lg_attempt_id (lr_grant r))),
      (''receiver_boot_id'', JStr (lg_receiver_boot_id (lr_grant r))),
      (''service'', JStr (lg_service (lr_grant r))),
      (''scope_digest'', JStr (lg_scope_digest (lr_grant r))),
      (''expires_at'', JFloat (lg_expires_at (lr_grant r))),
      (''created_at'', JFloat (lr_created_at r)),
      (''launch_at'', opt_float (lr_launch_at r)),
      (''retired_at'', opt_float (lr_retired_at r)),
      (''state'', JStr (lr_state r))]"

definition live :: "lease_record \<Rightarrow> bool" where
  "live r \<longleftrightarrow> lr_state r \<in> {''registered'', ''active''}"

definition snapshot_payload :: "lease_registry \<Rightarrow> (string \<times> json) list" where
  "snapshot_payload x =
     (let records = map snd (lx_records x)
      in [(''generation'', JStr (lx_generation x)),
          (''registry_state'', JStr (if lx_held_code x \<noteq> None then ''held''
             else if lx_control_stale x then ''stale'' else ''ready'')),
          (''receiver_boot_id'', opt_str (lx_receiver_boot_id x)),
          (''last_heartbeat'', opt_float (lx_last_heartbeat x)),
          (''live_leases'', JInt (int (length (filter live records)))),
          (''retained_records'', JInt (int (length records))),
          (''leases'', JArr (map record_metadata records)),
          (''history'', JArr (map receipt_metadata (lx_history x))),
          (''history_dropped'', JInt (lx_history_dropped x))])"

definition canonical_bytes :: "(rat \<Rightarrow> string) \<Rightarrow> json \<Rightarrow> nat" where
  "canonical_bytes fr v = length (dumps fr v)"

definition probe_bytes :: "(rat \<Rightarrow> string) \<Rightarrow> (string \<times> json) list \<Rightarrow> nat \<Rightarrow> nat" where
  "probe_bytes fr payload current =
     canonical_bytes fr (JObj (AList.update ''metadata_bytes'' (JInt (int current)) payload))"

lemma probe_bytes_affine:
  "probe_bytes fr payload c + 1 = probe_bytes fr payload 0 + length (nat_text c)"
proof -
  obtain n where "\<forall>v. length (dumps fr (JObj (AList.update ''metadata_bytes'' v payload))) =
      n + length (dumps fr v)"
    using length_dumps_update by blast
  then have "probe_bytes fr payload m = n + length (nat_text m)" for m
    by (simp add: probe_bytes_def canonical_bytes_def del: dumps.simps(8))
  moreover have "length (nat_text 0) = 1" by (simp add: nat_text.simps)
  ultimately show ?thesis by simp
qed

lemma probe_bytes_mono: "c \<le> c' \<Longrightarrow> probe_bytes fr payload c \<le> probe_bytes fr payload c'"
  using probe_bytes_affine [of fr payload c] probe_bytes_affine [of fr payload c']
    length_nat_text_mono [of c c'] by linarith

lemma probe_bytes_bound:
  "c < probe_bytes fr payload c \<Longrightarrow> c < 2 * probe_bytes fr payload 0 + 2"
  using probe_bytes_affine [of fr payload c] length_nat_text_half [of c] by linarith

text \<open>
  \<open>_fixed_point_bytes\<close> iterates the size of the snapshot that reports its own size.  A
  size has at most half as many digits as its value, so a growing iteration is bounded and
  a shrinking one decreases: the loop ends.
\<close>

function fixed_point_loop :: "(rat \<Rightarrow> string) \<Rightarrow> (string \<times> json) list \<Rightarrow> nat \<Rightarrow> nat" where
  "fixed_point_loop fr payload current =
     (let updated = probe_bytes fr payload current
      in if updated = current then updated else fixed_point_loop fr payload updated)"
  by pat_completeness auto
termination
proof (relation "measures [\<lambda>(fr, p, c). of_bool (probe_bytes fr p c \<noteq> c),
    \<lambda>(fr, p, c). if c < probe_bytes fr p c then 2 * probe_bytes fr p 0 + 2 - c else c]")
  fix fr :: "rat \<Rightarrow> string" and payload :: "(string \<times> json) list" and current updated :: nat
  assume u: "updated = probe_bytes fr payload current" and ne: "updated \<noteq> current"
  show "((fr, payload, updated), fr, payload, current) \<in>
      measures [\<lambda>(fr, p, c). of_bool (probe_bytes fr p c \<noteq> c),
        \<lambda>(fr, p, c). if c < probe_bytes fr p c then 2 * probe_bytes fr p 0 + 2 - c else c]"
    using u ne probe_bytes_mono [of current updated fr payload]
      probe_bytes_mono [of updated current fr payload] probe_bytes_bound [of current fr payload]
      probe_bytes_bound [of updated fr payload]
    by (cases "current < updated") auto
qed simp

declare fixed_point_loop.simps [simp del]

definition fixed_point_bytes :: "(rat \<Rightarrow> string) \<Rightarrow> (string \<times> json) list \<Rightarrow> nat" where
  "fixed_point_bytes fr payload = fixed_point_loop fr payload (canonical_bytes fr (JObj payload))"

lemma fixed_point_loop_fixed: "probe_bytes fr payload (fixed_point_loop fr payload c) = fixed_point_loop fr payload c"
proof (induction fr payload c rule: fixed_point_loop.induct)
  case (1 fr payload c)
  then show ?case
    by (cases "probe_bytes fr payload c = c") (simp_all add: fixed_point_loop.simps [of fr payload c] Let_def)
qed

section \<open>Receipts, expiry and retention\<close>

definition snapshot_bytes :: "(rat \<Rightarrow> string) \<Rightarrow> lease_registry \<Rightarrow> nat" where
  "snapshot_bytes fr x = fixed_point_bytes fr (snapshot_payload x)"

definition drop_history :: "int \<Rightarrow> lease_registry \<Rightarrow> lease_registry" where
  "drop_history n x =
     x\<lparr>lx_history_dropped := min MAX_HISTORY_DROPPED (lx_history_dropped x + n)\<rparr>"

definition pop_history :: "lease_registry \<Rightarrow> lease_registry" where
  "pop_history x = drop_history 1 (x\<lparr>lx_history := tl (lx_history x)\<rparr>)"

lemma lx_history_pop [simp]: "lx_history (pop_history x) = tl (lx_history x)"
  by (simp add: pop_history_def drop_history_def)

function trim_history :: "(rat \<Rightarrow> string) \<Rightarrow> lease_registry \<Rightarrow> lease_registry" where
  "trim_history fr x =
     (if snapshot_bytes fr x > MAX_METADATA_BYTES \<and> lx_history x \<noteq> []
      then trim_history fr (pop_history x) else x)"
  by pat_completeness auto
termination
  by (relation "measure (\<lambda>(fr, x). length (lx_history x))") auto

declare trim_history.simps [simp del]

definition append_receipt :: "lease_receipt \<Rightarrow> lease_registry \<Rightarrow> lease_registry" where
  "append_receipt r x =
     (let x = (if length (lx_history x) = MAX_HISTORY then pop_history x else x)
      in x\<lparr>lx_history := lx_history x @ [r]\<rparr>)"

definition record_receipt :: "(rat \<Rightarrow> string) \<Rightarrow> string \<Rightarrow> string option \<Rightarrow> string option \<Rightarrow> string \<Rightarrow>
    string \<Rightarrow> bool option \<Rightarrow> rat \<Rightarrow> lease_registry \<Rightarrow> lease_registry \<times> lease_receipt res" where
  "record_receipt fr operation lease_id service state reason authorized now x =
     (let receipt = \<lparr>rc_operation = operation, rc_generation = lx_generation x,
            rc_lease_id = lease_id, rc_service = service, rc_state = state, rc_reason = reason,
            rc_authorized = authorized, rc_observed_at = now\<rparr>
      in (trim_history fr (append_receipt receipt x), Inr receipt))"

definition retire :: "string \<Rightarrow> string \<Rightarrow> rat \<Rightarrow> lease_registry \<Rightarrow> lease_registry" where
  "retire lease_id state now x = (case map_of (lx_records x) lease_id of
     None \<Rightarrow> x
   | Some r \<Rightarrow> x\<lparr>lx_records := AList.update lease_id (r\<lparr>lr_state := state, lr_retired_at := Some now\<rparr>)
       (lx_records x)\<rparr>)"

definition retire_noted :: "(rat \<Rightarrow> string) \<Rightarrow> string \<Rightarrow> string \<Rightarrow> string \<Rightarrow> string \<Rightarrow> rat \<Rightarrow> lease_record \<Rightarrow>
    lease_registry \<Rightarrow> lease_registry" where
  "retire_noted fr lease_id operation state reason now r x =
     fst (record_receipt fr operation (Some (lg_lease_id (lr_grant r))) (Some (lg_service (lr_grant r)))
       state reason None now (retire lease_id state now x))"

definition lease_limit :: "lease_record \<Rightarrow> rat" where
  "lease_limit r =
     (let base = min (lg_expires_at (lr_grant r)) (fadd (lr_created_at r) LEASE_SECONDS)
      in case lr_launch_at r of None \<Rightarrow> base | Some t \<Rightarrow> min base (fadd t LEASE_SECONDS))"

definition expire_record :: "(rat \<Rightarrow> string) \<Rightarrow> rat \<Rightarrow> string \<Rightarrow> lease_registry \<Rightarrow> lease_registry" where
  "expire_record fr now lease_id x = (case map_of (lx_records x) lease_id of
     None \<Rightarrow> x
   | Some r \<Rightarrow> if live r \<and> lease_limit r \<le> now
               then retire_noted fr lease_id ''expire'' ''expired'' ''expired'' now r x else x)"

definition expire_all :: "(rat \<Rightarrow> string) \<Rightarrow> rat \<Rightarrow> lease_registry \<Rightarrow> lease_registry" where
  "expire_all fr now x = fold (expire_record fr now) (map fst (lx_records x)) x"

definition revoke_record :: "(rat \<Rightarrow> string) \<Rightarrow> string \<Rightarrow> rat \<Rightarrow> string \<Rightarrow> lease_registry \<Rightarrow> lease_registry" where
  "revoke_record fr reason now lease_id x = (case map_of (lx_records x) lease_id of
     None \<Rightarrow> x
   | Some r \<Rightarrow> if live r then retire_noted fr lease_id ''revoke'' ''revoked'' reason now r x else x)"

definition retire_connected :: "(rat \<Rightarrow> string) \<Rightarrow> string \<Rightarrow> rat \<Rightarrow> lease_registry \<Rightarrow> lease_registry" where
  "retire_connected fr reason now x = fold (revoke_record fr reason now) (map fst (lx_records x)) x"

definition binding_key :: "lease_record \<Rightarrow> string \<times> string \<times> string" where
  "binding_key r = (lg_run_id (lr_grant r), lg_attempt_id (lr_grant r), lg_service (lr_grant r))"

definition stale_record :: "rat \<Rightarrow> lease_record \<Rightarrow> bool" where
  "stale_record now r \<longleftrightarrow> fsub now (lr_created_at r) \<ge> RETENTION_SECONDS"

definition prune_record :: "rat \<Rightarrow> string \<times> lease_record \<Rightarrow> lease_registry \<Rightarrow> lease_registry" where
  "prune_record now kr x =
     (if stale_record now (snd kr)
      then x\<lparr>lx_records := AList.delete (fst kr) (lx_records x),
             lx_bindings := AList.delete (binding_key (snd kr)) (lx_bindings x)\<rparr>
      else x)"

function prune_history :: "rat \<Rightarrow> lease_registry \<Rightarrow> lease_registry" where
  "prune_history now x =
     (if lx_history x \<noteq> [] \<and> fsub now (rc_observed_at (hd (lx_history x))) \<ge> RETENTION_SECONDS
      then prune_history now (pop_history x) else x)"
  by pat_completeness auto
termination
  by (relation "measure (\<lambda>(now, x). length (lx_history x))") auto

declare prune_history.simps [simp del]

definition prune :: "rat \<Rightarrow> lease_registry \<Rightarrow> lease_registry" where
  "prune now x = prune_history now (fold (prune_record now) (lx_records x) x)"

definition heartbeat_late :: "rat \<Rightarrow> lease_registry \<Rightarrow> bool" where
  "heartbeat_late now x \<longleftrightarrow> lx_receiver_boot_id x \<noteq> None \<and>
     (case lx_last_heartbeat x of None \<Rightarrow> False | Some t \<Rightarrow> fsub now t \<ge> HEARTBEAT_SECONDS)"

text \<open>\<open>_now\<close>: every public method but \<open>hold\<close> starts here.\<close>

definition lease_now :: "(rat \<Rightarrow> string) \<Rightarrow> pyval option \<Rightarrow> lease_registry \<Rightarrow> lease_registry \<times> rat res" where
  "lease_now fr tick x =
     (case (case tick of None \<Rightarrow> Inl ''clock_invalid'' | Some v \<Rightarrow> require_time v ''clock_invalid'') of
        Inl _ \<Rightarrow> (x\<lparr>lx_held_code := Some ''clock_invalid''\<rparr>, Inl ''clock_invalid'')
      | Inr now \<Rightarrow>
          if lx_last_now x \<noteq> None \<and> now < the (lx_last_now x)
          then (x\<lparr>lx_held_code := Some ''clock_regressed''\<rparr>, Inl ''clock_regressed'')
          else if lx_held_code x \<noteq> None then (x, Inl ''registry_held'')
          else
            let x = expire_all fr now (prune now (x\<lparr>lx_last_now := Some now\<rparr>));
                x = (if heartbeat_late now x
                     then (retire_connected fr ''heartbeat_late'' now x)\<lparr>lx_control_stale := True\<rparr>
                     else x)
            in (x, Inr now))"

section \<open>Public methods\<close>

definition require_generation :: "pyval \<Rightarrow> lease_registry \<Rightarrow> string res" where
  "require_generation generation x =
     rbind (require_id generation ''invalid_generation'') (\<lambda>g.
     rbind (require (g = lx_generation x) ''generation_mismatch'') (\<lambda>_. Inr g))"

definition require_receiver :: "bool \<Rightarrow> pyval \<Rightarrow> lease_registry \<Rightarrow> string res" where
  "require_receiver require_fresh receiver_boot_id x =
     rbind (require_id receiver_boot_id ''invalid_receiver_boot_id'') (\<lambda>b.
     rbind (require (lx_receiver_boot_id x \<noteq> None) ''receiver_not_connected'') (\<lambda>_.
     rbind (require (\<not> (require_fresh \<and> lx_control_stale x)) ''heartbeat_late'') (\<lambda>_.
     rbind (require (Some b = lx_receiver_boot_id x) ''receiver_boot_mismatch'') (\<lambda>_. Inr b))))"

definition record_for_control :: "pyval \<Rightarrow> string \<Rightarrow> lease_registry \<Rightarrow> (string \<times> lease_record) res" where
  "record_for_control lease_id receiver_boot_id x =
     rbind (require_id lease_id ''invalid_lease_id'') (\<lambda>i.
     case map_of (lx_records x) i of
       None \<Rightarrow> Inl ''lease_unknown''
     | Some r \<Rightarrow> rbind (require (lr_receiver_boot_id r = receiver_boot_id) ''receiver_boot_mismatch'')
                    (\<lambda>_. Inr (i, r)))"

definition ensure_registration_capacity :: "lease_registry \<Rightarrow> unit res" where
  "ensure_registration_capacity x =
     rbind (require (length (filter live (map snd (lx_records x))) < MAX_LIVE_LEASES) ''capacity_live'') (\<lambda>_.
     require (length (lx_records x) < MAX_RECORDS) ''capacity_total'')"

definition admission_reserve_bytes :: "(rat \<Rightarrow> string) \<Rightarrow> lease_record \<Rightarrow> lease_registry \<Rightarrow> nat" where
  "admission_reserve_bytes fr extra x =
     sum_list (map (\<lambda>r. canonical_bytes fr (record_metadata r) + STATE_TRANSITION_RESERVE_BYTES)
       (map snd (lx_records x) @ [extra]))
     + MAX_HISTORY * HISTORY_RECEIPT_RESERVE_BYTES + TOP_LEVEL_RESERVE_BYTES"

definition lease_hold :: "lease_registry \<Rightarrow> lease_registry" where
  "lease_hold x = x\<lparr>lx_held_code := Some ''control_failure''\<rparr>"

definition handshake :: "(rat \<Rightarrow> string) \<Rightarrow> pyval option \<Rightarrow> pyval \<Rightarrow> pyval \<Rightarrow>
    lease_registry \<Rightarrow> lease_registry \<times> lease_receipt res" where
  "handshake fr tick receiver_boot_id generation =
     sthen (lease_now fr tick) (\<lambda>now.
     checked (require_generation generation) (\<lambda>_.
     checked (\<lambda>_. require_id receiver_boot_id ''invalid_receiver_boot_id'') (\<lambda>boot x.
       let x = (if lx_receiver_boot_id x \<noteq> None \<and> lx_receiver_boot_id x \<noteq> Some boot
                then retire_connected fr ''receiver_replaced'' now x else x);
           x = x\<lparr>lx_receiver_boot_id := Some boot, lx_last_heartbeat := Some now, lx_control_stale := False\<rparr>
       in record_receipt fr ''handshake'' None None ''connected'' ''ok'' None now x)))"

definition heartbeat :: "(rat \<Rightarrow> string) \<Rightarrow> pyval option \<Rightarrow> pyval \<Rightarrow> pyval \<Rightarrow>
    lease_registry \<Rightarrow> lease_registry \<times> lease_receipt res" where
  "heartbeat fr tick receiver_boot_id generation =
     sthen (lease_now fr tick) (\<lambda>now.
     checked (require_generation generation) (\<lambda>_.
     checked (require_receiver False receiver_boot_id) (\<lambda>_ x.
       if lx_control_stale x
       then record_receipt fr ''heartbeat'' None None ''connected'' ''late_recovered'' None now
              (x\<lparr>lx_last_heartbeat := Some now, lx_control_stale := False\<rparr>)
       else record_receipt fr ''heartbeat'' None None ''connected'' ''ok'' None now
              (x\<lparr>lx_last_heartbeat := Some now\<rparr>))))"

definition disconnect :: "(rat \<Rightarrow> string) \<Rightarrow> pyval option \<Rightarrow> pyval \<Rightarrow> pyval \<Rightarrow>
    lease_registry \<Rightarrow> lease_registry \<times> lease_receipt res" where
  "disconnect fr tick receiver_boot_id generation =
     sthen (lease_now fr tick) (\<lambda>now.
     checked (require_generation generation) (\<lambda>_.
     checked (require_receiver False receiver_boot_id) (\<lambda>_ x.
       record_receipt fr ''disconnect'' None None ''disconnected'' ''ok'' None now
         ((retire_connected fr ''receiver_disconnected'' now x)
            \<lparr>lx_receiver_boot_id := None, lx_last_heartbeat := None, lx_control_stale := False\<rparr>))))"

text \<open>
  \<open>register\<close>: the replay of a known binding and the creation of a fresh lease are
  separate definitions; a missing record of a known binding would be a \<open>KeyError\<close>.
\<close>

definition register_replay :: "(rat \<Rightarrow> string) \<Rightarrow> rat \<Rightarrow> string \<Rightarrow> string \<Rightarrow> string \<Rightarrow> string \<Rightarrow> rat \<Rightarrow>
    lease_registry \<Rightarrow> lease_registry \<times> lease_grant res" where
  "register_replay fr now known_id receiver_boot_id generation scope_digest expiry x =
     (case map_of (lx_records x) known_id of
        None \<Rightarrow> (x, Inl ''KeyError'')
      | Some r \<Rightarrow>
          let grant = lr_grant r; x = expire_record fr now known_id x
          in case map_of (lx_records x) known_id of
               None \<Rightarrow> (x, Inl ''KeyError'')
             | Some r \<Rightarrow>
                 if \<not> live r then (x, Inl ''replay_not_live'')
                 else if lr_receiver_boot_id r \<noteq> receiver_boot_id \<or> lg_generation grant \<noteq> generation \<or>
                         lg_scope_digest grant \<noteq> scope_digest \<or> lg_expires_at grant \<noteq> expiry
                 then (x, Inl ''binding_conflict'') else (x, Inr grant))"

definition fresh_record :: "lease_registry \<Rightarrow> rat \<Rightarrow> string \<Rightarrow> string \<Rightarrow> string \<Rightarrow> string \<Rightarrow> string \<Rightarrow> string \<Rightarrow>
    string \<Rightarrow> rat \<Rightarrow> lease_record" where
  "fresh_record x now new_id new_token run_id attempt_id receiver_boot_id service scope_digest expiry =
     \<lparr>lr_grant = \<lparr>lg_generation = lx_generation x, lg_lease_id = new_id, lg_run_id = run_id,
        lg_attempt_id = attempt_id, lg_receiver_boot_id = receiver_boot_id, lg_service = service,
        lg_scope_digest = scope_digest, lg_expires_at = expiry, lg_sentinel = new_token\<rparr>,
      lr_receiver_boot_id = receiver_boot_id, lr_created_at = now, lr_state = ''registered'',
      lr_launch_at = None, lr_retired_at = None\<rparr>"

definition register_fresh :: "(rat \<Rightarrow> string) \<Rightarrow> rat \<Rightarrow> string \<Rightarrow> string \<Rightarrow> string \<Rightarrow> string \<Rightarrow> string \<Rightarrow> string \<Rightarrow>
    string \<Rightarrow> rat \<Rightarrow> lease_registry \<Rightarrow> lease_registry \<times> lease_grant res" where
  "register_fresh fr now new_id new_token run_id attempt_id receiver_boot_id service scope_digest expiry =
     checked ensure_registration_capacity (\<lambda>_ x.
       let r = fresh_record x now new_id new_token run_id attempt_id receiver_boot_id service scope_digest expiry
       in if admission_reserve_bytes fr r x > MAX_METADATA_BYTES then (x, Inl ''capacity_metadata'')
          else (fst (record_receipt fr ''register'' (Some new_id) (Some service) ''registered'' ''ok'' None now
                 (x\<lparr>lx_records := AList.update new_id r (lx_records x),
                    lx_bindings := AList.update (run_id, attempt_id, service) new_id (lx_bindings x)\<rparr>)),
                Inr (lr_grant r)))"

definition register :: "(rat \<Rightarrow> string) \<Rightarrow> pyval option \<Rightarrow> string \<Rightarrow> string \<Rightarrow> pyval \<Rightarrow> pyval \<Rightarrow> pyval \<Rightarrow> pyval \<Rightarrow>
    pyval \<Rightarrow> pyval \<Rightarrow> pyval \<Rightarrow> lease_registry \<Rightarrow> lease_registry \<times> lease_grant res" where
  "register fr tick new_id new_token run_id attempt_id receiver_boot_id service scope_digest expires_at generation =
     sthen (lease_now fr tick) (\<lambda>now.
     checked (require_generation generation) (\<lambda>gen.
     checked (require_receiver True receiver_boot_id) (\<lambda>boot.
     checked (\<lambda>_. require_id run_id ''invalid_run_id'') (\<lambda>run.
     checked (\<lambda>_. require_id attempt_id ''invalid_attempt_id'') (\<lambda>attempt.
     checked (\<lambda>_. require_service service) (\<lambda>svc.
     checked (\<lambda>_. require_digest scope_digest) (\<lambda>digest.
     checked (\<lambda>_. require_time expires_at ''invalid_expiry'') (\<lambda>expiry.
     checked (\<lambda>_. require (now < expiry \<and> expiry \<le> fadd now LEASE_SECONDS) ''invalid_expiry'') (\<lambda>_ x.
       case map_of (lx_bindings x) (run, attempt, svc) of
         Some known_id \<Rightarrow> register_replay fr now known_id boot gen digest expiry x
       | None \<Rightarrow> register_fresh fr now new_id new_token run attempt boot svc digest expiry x)))))))))"

text \<open>
  \<open>activate\<close> and \<open>revoke\<close> first expire the record and then read its state again.
\<close>

definition record_state :: "string \<Rightarrow> lease_registry \<Rightarrow> string" where
  "record_state lease_id x = (case map_of (lx_records x) lease_id of None \<Rightarrow> [] | Some r \<Rightarrow> lr_state r)"

definition activate_refusal :: "rat \<Rightarrow> rat \<Rightarrow> string \<Rightarrow> lease_record \<Rightarrow> lease_registry \<Rightarrow> string option" where
  "activate_refusal now launch lease_id r x =
     (let state = record_state lease_id x
      in if state = ''revoked'' then Some ''lease_revoked''
         else if state = ''expired'' then Some ''lease_expired''
         else if state = ''active'' \<and> lr_launch_at r \<noteq> Some launch then Some ''lease_active''
         else if state \<noteq> ''active'' \<and> state \<noteq> ''registered'' then Some ''lease_not_registered''
         else None)"

definition set_active :: "string \<Rightarrow> rat \<Rightarrow> lease_registry \<Rightarrow> lease_registry" where
  "set_active lease_id launch x = (case map_of (lx_records x) lease_id of
     None \<Rightarrow> x
   | Some r \<Rightarrow> x\<lparr>lx_records := AList.update lease_id (r\<lparr>lr_launch_at := Some launch, lr_state := ''active''\<rparr>)
       (lx_records x)\<rparr>)"

definition activate_record :: "(rat \<Rightarrow> string) \<Rightarrow> rat \<Rightarrow> rat \<Rightarrow> string \<times> lease_record \<Rightarrow>
    lease_registry \<Rightarrow> lease_registry \<times> lease_receipt res" where
  "activate_record fr now launch kr x =
     (let (lease_id, r) = kr; x = expire_record fr now lease_id x;
          noted = (\<lambda>reason. record_receipt fr ''activate'' (Some (lg_lease_id (lr_grant r)))
            (Some (lg_service (lr_grant r))) ''active'' reason None now)
      in case activate_refusal now launch lease_id r x of
           Some code \<Rightarrow> (x, Inl code)
         | None \<Rightarrow>
             if record_state lease_id x = ''active'' then noted ''replay'' x
             else if fadd launch LEASE_SECONDS \<le> now
             then (retire lease_id ''expired'' now x, Inl ''lease_expired'')
             else noted ''ok'' (set_active lease_id launch x))"

definition activate :: "(rat \<Rightarrow> string) \<Rightarrow> pyval option \<Rightarrow> pyval \<Rightarrow> pyval \<Rightarrow> pyval \<Rightarrow> pyval \<Rightarrow>
    lease_registry \<Rightarrow> lease_registry \<times> lease_receipt res" where
  "activate fr tick lease_id receiver_boot_id generation launch_at =
     sthen (lease_now fr tick) (\<lambda>now.
     checked (require_generation generation) (\<lambda>_.
     checked (require_receiver True receiver_boot_id) (\<lambda>boot.
     checked (record_for_control lease_id boot) (\<lambda>kr.
     checked (\<lambda>_. require_time launch_at ''invalid_launch_time'') (\<lambda>launch.
     checked (\<lambda>_. require (lr_created_at (snd kr) \<le> launch \<and> launch \<le> now) ''invalid_launch_time'') (\<lambda>_.
       activate_record fr now launch kr))))))"

definition revoke_controlled :: "(rat \<Rightarrow> string) \<Rightarrow> rat \<Rightarrow> string \<Rightarrow> string \<times> lease_record \<Rightarrow>
    lease_registry \<Rightarrow> lease_registry \<times> lease_receipt res" where
  "revoke_controlled fr now reason kr x =
     (let (lease_id, r) = kr; x = expire_record fr now lease_id x; state = record_state lease_id x
      in if state = ''expired'' then (x, Inl ''lease_expired'')
         else if state = ''revoked'' then (x, Inl ''lease_revoked'')
         else record_receipt fr ''revoke'' (Some (lg_lease_id (lr_grant r))) (Some (lg_service (lr_grant r)))
                ''revoked'' reason None now (retire lease_id ''revoked'' now x))"

definition revoke :: "(rat \<Rightarrow> string) \<Rightarrow> pyval option \<Rightarrow> pyval \<Rightarrow> pyval \<Rightarrow> pyval \<Rightarrow> pyval \<Rightarrow>
    lease_registry \<Rightarrow> lease_registry \<times> lease_receipt res" where
  "revoke fr tick lease_id receiver_boot_id generation reason =
     sthen (lease_now fr tick) (\<lambda>now.
     checked (require_generation generation) (\<lambda>_.
     checked (require_receiver False receiver_boot_id) (\<lambda>boot.
     checked (record_for_control lease_id boot) (\<lambda>kr.
     checked (\<lambda>_. require_reason reason) (\<lambda>why.
       revoke_controlled fr now why kr)))))"

definition check_denied :: "(rat \<Rightarrow> string) \<Rightarrow> rat \<Rightarrow> string option \<Rightarrow> string \<Rightarrow> string \<Rightarrow>
    lease_registry \<Rightarrow> lease_registry \<times> lease_receipt res" where
  "check_denied fr now lease_id service reason =
     record_receipt fr ''check'' lease_id (Some service) ''denied'' reason (Some False) now"

definition sentinel_matches :: "string \<Rightarrow> string \<Rightarrow> string \<times> lease_record \<Rightarrow> bool" where
  "sentinel_matches service sentinel kr \<longleftrightarrow>
     lg_service (lr_grant (snd kr)) = service \<and> lg_sentinel (lr_grant (snd kr)) = sentinel"

definition check_record :: "(rat \<Rightarrow> string) \<Rightarrow> rat \<Rightarrow> string \<Rightarrow> string \<Rightarrow> string \<times> lease_record \<Rightarrow>
    lease_registry \<Rightarrow> lease_registry \<times> lease_receipt res" where
  "check_record fr now service scope_digest kr x =
     (let grant = lr_grant (snd kr); x = expire_record fr now (fst kr) x; state = record_state (fst kr) x
      in if state \<noteq> ''active'' then check_denied fr now (Some (lg_lease_id grant)) service (''lease_'' @ state) x
         else if lg_scope_digest grant \<noteq> scope_digest
         then check_denied fr now (Some (lg_lease_id grant)) service ''scope_mismatch'' x
         else record_receipt fr ''check'' (Some (lg_lease_id grant)) (Some service) ''active'' ''ok'' (Some True) now x)"

definition heartbeat_expired :: "rat \<Rightarrow> lease_registry \<Rightarrow> bool" where
  "heartbeat_expired now x \<longleftrightarrow>
     (case lx_last_heartbeat x of None \<Rightarrow> True | Some t \<Rightarrow> fsub now t \<ge> HEARTBEAT_SECONDS)"

definition check_now :: "(rat \<Rightarrow> string) \<Rightarrow> rat \<Rightarrow> string \<Rightarrow> string \<Rightarrow> string \<Rightarrow> string \<Rightarrow>
    lease_registry \<Rightarrow> lease_registry \<times> lease_receipt res" where
  "check_now fr now service sentinel scope_digest generation x =
     (if generation \<noteq> lx_generation x then check_denied fr now None service ''generation_mismatch'' x
      else if lx_receiver_boot_id x = None then check_denied fr now None service ''receiver_disconnected'' x
      else if heartbeat_expired now x
      then check_denied fr now None service ''heartbeat_late'' (retire_connected fr ''heartbeat_late'' now x)
      else case List.find (sentinel_matches service sentinel) (lx_records x) of
             None \<Rightarrow> check_denied fr now None service ''sentinel_unknown'' x
           | Some kr \<Rightarrow> check_record fr now service scope_digest kr x)"

definition check :: "(rat \<Rightarrow> string) \<Rightarrow> pyval option \<Rightarrow> pyval \<Rightarrow> pyval \<Rightarrow> pyval \<Rightarrow> pyval \<Rightarrow>
    lease_registry \<Rightarrow> lease_registry \<times> lease_receipt res" where
  "check fr tick service sentinel generation scope_digest =
     sthen (lease_now fr tick) (\<lambda>now.
     checked (\<lambda>_. require_service service) (\<lambda>svc.
     checked (\<lambda>_. require_token sentinel) (\<lambda>token.
     checked (\<lambda>_. require_digest scope_digest) (\<lambda>digest.
     checked (\<lambda>_. require_id generation ''invalid_generation'') (\<lambda>gen.
       check_now fr now svc token digest gen)))))"

definition snapshot :: "(rat \<Rightarrow> string) \<Rightarrow> pyval option \<Rightarrow> lease_registry \<Rightarrow> lease_registry \<times> (string \<times> json) list" where
  "snapshot fr tick x =
     (let (x, now) = (case lease_now fr tick x of
            (x, Inr now) \<Rightarrow> (x, now)
          | (x, Inl _) \<Rightarrow> (x, case lx_last_now x of None \<Rightarrow> 0 | Some t \<Rightarrow> t));
          x = prune now x; payload = snapshot_payload x
      in (x, payload @ [(''metadata_bytes'', JInt (int (fixed_point_bytes fr payload)))]))"

section \<open>Runs\<close>

datatype lease_call =
    LHold
  | LHandshake "pyval option" pyval pyval
  | LHeartbeat "pyval option" pyval pyval
  | LDisconnect "pyval option" pyval pyval
  | LRegister "pyval option" string string pyval pyval pyval pyval pyval pyval pyval
  | LActivate "pyval option" pyval pyval pyval pyval
  | LRevoke "pyval option" pyval pyval pyval pyval
  | LCheck "pyval option" pyval pyval pyval pyval
  | LSnapshot "pyval option"

datatype lease_out =
    LDone
  | LReceipt "lease_receipt res"
  | LGrant "lease_grant res"
  | LView "(string \<times> json) list"

fun lease_step :: "(rat \<Rightarrow> string) \<Rightarrow> lease_registry \<Rightarrow> lease_call \<Rightarrow> lease_registry \<times> lease_out" where
  "lease_step fr x LHold = (lease_hold x, LDone)"
| "lease_step fr x (LHandshake t b g) = apsnd LReceipt (handshake fr t b g x)"
| "lease_step fr x (LHeartbeat t b g) = apsnd LReceipt (heartbeat fr t b g x)"
| "lease_step fr x (LDisconnect t b g) = apsnd LReceipt (disconnect fr t b g x)"
| "lease_step fr x (LRegister t i k run att b svc d e g) =
     apsnd LGrant (register fr t i k run att b svc d e g x)"
| "lease_step fr x (LActivate t i b g l) = apsnd LReceipt (activate fr t i b g l x)"
| "lease_step fr x (LRevoke t i b g why) = apsnd LReceipt (revoke fr t i b g why x)"
| "lease_step fr x (LCheck t svc k g d) = apsnd LReceipt (check fr t svc k g d x)"
| "lease_step fr x (LSnapshot t) = apsnd LView (snapshot fr t x)"

section \<open>What the primitives change\<close>

lemma pop_history_core:
  "\<exists>h d. pop_history x = x\<lparr>lx_history := h, lx_history_dropped := d\<rparr>"
  by (auto simp: pop_history_def drop_history_def)

lemma trim_history_core:
  "\<exists>h d. trim_history fr x = x\<lparr>lx_history := h, lx_history_dropped := d\<rparr>"
proof (induction fr x rule: trim_history.induct)
  case (1 fr x)
  obtain h d where p: "pop_history x = x\<lparr>lx_history := h, lx_history_dropped := d\<rparr>"
    using pop_history_core by blast
  show ?case
  proof (cases "snapshot_bytes fr x > MAX_METADATA_BYTES \<and> lx_history x \<noteq> []")
    case True
    with "1" p show ?thesis by (subst trim_history.simps) auto
  next
    case False
    then show ?thesis
      by (subst trim_history.simps) (auto intro!: exI [of _ "lx_history x"] exI [of _ "lx_history_dropped x"])
  qed
qed

lemma prune_history_core:
  "\<exists>h d. prune_history now x = x\<lparr>lx_history := h, lx_history_dropped := d\<rparr>"
proof (induction now x rule: prune_history.induct)
  case (1 now x)
  obtain h d where p: "pop_history x = x\<lparr>lx_history := h, lx_history_dropped := d\<rparr>"
    using pop_history_core by blast
  show ?case
  proof (cases "lx_history x \<noteq> [] \<and> fsub now (rc_observed_at (hd (lx_history x))) \<ge> RETENTION_SECONDS")
    case True
    with "1" p show ?thesis by (subst prune_history.simps) auto
  next
    case False
    then show ?thesis
      by (subst prune_history.simps) (auto intro!: exI [of _ "lx_history x"] exI [of _ "lx_history_dropped x"])
  qed
qed

lemma record_receipt_core:
  "\<exists>h d. fst (record_receipt fr op i svc st why au now x) = x\<lparr>lx_history := h, lx_history_dropped := d\<rparr>"
proof -
  obtain h d where "pop_history x = x\<lparr>lx_history := h, lx_history_dropped := d\<rparr>"
    using pop_history_core by blast
  moreover obtain g where "g = append_receipt \<lparr>rc_operation = op, rc_generation = lx_generation x,
            rc_lease_id = i, rc_service = svc, rc_state = st, rc_reason = why,
            rc_authorized = au, rc_observed_at = now\<rparr> x" by blast
  moreover obtain h' d' where "trim_history fr g = g\<lparr>lx_history := h', lx_history_dropped := d'\<rparr>"
    using trim_history_core by blast
  ultimately show ?thesis
    by (auto simp: record_receipt_def append_receipt_def Let_def)
qed

definition core :: "lease_registry \<Rightarrow> lease_registry" where
  "core x = x\<lparr>lx_history := [], lx_history_dropped := 0\<rparr>"

lemma core_eq_iff:
  "core x = core y \<longleftrightarrow> (\<exists>h d. x = y\<lparr>lx_history := h, lx_history_dropped := d\<rparr>)"
  by (cases x; cases y) (auto simp: core_def)

lemma core_record_receipt [simp]: "core (fst (record_receipt fr op i svc st why au now x)) = core x"
  by (simp add: core_eq_iff record_receipt_core)

lemma core_prune_history [simp]: "core (prune_history now x) = core x"
  by (simp add: core_eq_iff prune_history_core)

lemma core_fields:
  assumes "core x = core y"
  shows "lx_generation x = lx_generation y" "lx_receiver_boot_id x = lx_receiver_boot_id y"
    "lx_last_heartbeat x = lx_last_heartbeat y" "lx_records x = lx_records y"
    "lx_bindings x = lx_bindings y" "lx_last_now x = lx_last_now y"
    "lx_held_code x = lx_held_code y" "lx_control_stale x = lx_control_stale y"
  using assms by (auto simp: core_eq_iff)

lemmas receipt_fields [simp] = core_fields [OF core_record_receipt]
lemmas prune_history_fields [simp] = core_fields [OF core_prune_history]

lemma record_receipt_result [simp]:
  "snd (record_receipt fr op i svc st why au now x) =
     Inr \<lparr>rc_operation = op, rc_generation = lx_generation x, rc_lease_id = i, rc_service = svc,
       rc_state = st, rc_reason = why, rc_authorized = au, rc_observed_at = now\<rparr>"
  by (simp add: record_receipt_def Let_def)

text \<open>
  The reference view of the loops: expiry and revocation map a function over the records,
  retention filters them.
\<close>

definition retired_as :: "string \<Rightarrow> rat \<Rightarrow> lease_record \<Rightarrow> lease_record" where
  "retired_as state now r = r\<lparr>lr_state := state, lr_retired_at := Some now\<rparr>"

definition expired_at :: "rat \<Rightarrow> lease_record \<Rightarrow> lease_record" where
  "expired_at now r = (if live r \<and> lease_limit r \<le> now then retired_as ''expired'' now r else r)"

definition revoked_at :: "rat \<Rightarrow> lease_record \<Rightarrow> lease_record" where
  "revoked_at now r = (if live r then retired_as ''revoked'' now r else r)"

definition with_records :: "lease_registry \<Rightarrow> (string \<times> lease_record) list \<Rightarrow> lease_registry" where
  "with_records x d = core (x\<lparr>lx_records := d\<rparr>)"

lemma core_retire_noted:
  "map_of (lx_records x) k = Some r \<Longrightarrow> core (retire_noted fr k op st why now r x) =
     with_records x (AList.update k (retired_as st now r) (lx_records x))"
  by (simp add: retire_noted_def retire_def with_records_def retired_as_def)

lemma with_records_same [simp]: "with_records x (lx_records x) = core x"
  by (simp add: with_records_def)

lemma core_expire_record:
  "core (expire_record fr now k x) = with_records x (adjust (expired_at now) k (lx_records x))"
  by (auto simp: expire_record_def adjust_def expired_at_def core_retire_noted update_same
      split: option.splits)

lemma core_revoke_record:
  "core (revoke_record fr why now k x) = with_records x (adjust (revoked_at now) k (lx_records x))"
  by (auto simp: revoke_record_def adjust_def revoked_at_def core_retire_noted update_same
      split: option.splits)

lemma with_records_step:
  "core y = with_records x d \<Longrightarrow> lx_records y = d \<and> (\<forall>e. with_records y e = with_records x e)"
  by (cases x; cases y) (auto simp: with_records_def core_def)

lemma core_fold_adjust:
  assumes "\<And>k x. core (f k x) = with_records x (adjust g k (lx_records x))"
  shows "core (fold f ks x) = with_records x (fold (adjust g) ks (lx_records x))"
proof (induction ks arbitrary: x)
  case (Cons k ks)
  show ?case using Cons.IH [of "f k x"] with_records_step [OF assms [of k x]] by simp
qed simp

lemma core_expire_all:
  "distinct (map fst (lx_records x)) \<Longrightarrow>
     core (expire_all fr now x) = with_records x (map (apsnd (expired_at now)) (lx_records x))"
  by (simp only: expire_all_def core_fold_adjust [OF core_expire_record] fold_adjust_all)

lemma core_retire_connected:
  "distinct (map fst (lx_records x)) \<Longrightarrow>
     core (retire_connected fr why now x) = with_records x (map (apsnd (revoked_at now)) (lx_records x))"
  by (simp only: retire_connected_def core_fold_adjust [OF core_revoke_record] fold_adjust_all)

section \<open>The registry invariant\<close>

text \<open>
  Bindings and records name each other; every live lease belongs to the connected,
  fresh Receiver; the capacity limits hold.
\<close>

definition linked :: "(string \<times> lease_record) list \<Rightarrow> ((string \<times> string \<times> string) \<times> string) list \<Rightarrow> bool" where
  "linked recs binds \<longleftrightarrow>
     (\<forall>b k. map_of binds b = Some k \<longleftrightarrow> (\<exists>r. map_of recs k = Some r \<and> binding_key r = b))"

definition record_ok :: "string \<Rightarrow> string option \<Rightarrow> bool \<Rightarrow> rat option \<Rightarrow> string \<Rightarrow> lease_record \<Rightarrow> bool" where
  "record_ok generation boot stale last_now k r \<longleftrightarrow>
     lg_lease_id (lr_grant r) = k \<and> lg_generation (lr_grant r) = generation \<and>
     lr_receiver_boot_id r = lg_receiver_boot_id (lr_grant r) \<and>
     lr_state r \<in> {''registered'', ''active'', ''revoked'', ''expired''} \<and>
     (lr_state r = ''active'' \<longrightarrow> lr_launch_at r \<noteq> None) \<and>
     (live r \<longrightarrow> boot = Some (lr_receiver_boot_id r) \<and> \<not> stale) \<and>
     (\<exists>t. last_now = Some t \<and> lr_created_at r \<le> t)"

definition live_count :: "(string \<times> lease_record) list \<Rightarrow> nat" where
  "live_count recs = length (filter live (map snd recs))"

definition core_inv :: "lease_registry \<Rightarrow> bool" where
  "core_inv x \<longleftrightarrow> distinct (map fst (lx_records x)) \<and> distinct (map fst (lx_bindings x)) \<and>
     linked (lx_records x) (lx_bindings x) \<and>
     (\<forall>(k, r) \<in> set (lx_records x).
        record_ok (lx_generation x) (lx_receiver_boot_id x) (lx_control_stale x) (lx_last_now x) k r) \<and>
     length (lx_records x) \<le> MAX_RECORDS \<and> live_count (lx_records x) \<le> MAX_LIVE_LEASES"

definition history_inv :: "lease_registry \<Rightarrow> bool" where
  "history_inv x \<longleftrightarrow> length (lx_history x) \<le> MAX_HISTORY \<and>
     0 \<le> lx_history_dropped x \<and> lx_history_dropped x \<le> MAX_HISTORY_DROPPED"

definition lease_inv :: "lease_registry \<Rightarrow> bool" where
  "lease_inv x \<longleftrightarrow> core_inv x \<and> history_inv x"

lemma core_inv_core: "core x = core y \<Longrightarrow> core_inv x = core_inv y"
  by (auto simp: core_eq_iff core_inv_def)

lemma core_invD:
  assumes "core_inv x"
  shows "distinct (map fst (lx_records x))" "linked (lx_records x) (lx_bindings x)"
  using assms by (simp_all add: core_inv_def)

lemma core_inv_record:
  "core_inv x \<Longrightarrow> map_of (lx_records x) k = Some r \<Longrightarrow>
     record_ok (lx_generation x) (lx_receiver_boot_id x) (lx_control_stale x) (lx_last_now x) k r"
  by (auto simp: core_inv_def dest!: map_of_SomeD)

lemma live_retired [simp]:
  "\<not> live (retired_as ''expired'' now r)" "\<not> live (retired_as ''revoked'' now r)"
  by (simp_all add: live_def retired_as_def)

lemma retired_as_fields [simp]:
  "lr_grant (retired_as st now r) = lr_grant r"
  "lr_receiver_boot_id (retired_as st now r) = lr_receiver_boot_id r"
  "lr_created_at (retired_as st now r) = lr_created_at r"
  "lr_launch_at (retired_as st now r) = lr_launch_at r"
  "lr_state (retired_as st now r) = st"
  "binding_key (retired_as st now r) = binding_key r"
  by (simp_all add: retired_as_def binding_key_def)

text \<open>Functions on records that retire some of them and change nothing else.\<close>

definition retires :: "(lease_record \<Rightarrow> lease_record) \<Rightarrow> bool" where
  "retires g \<longleftrightarrow> (\<forall>r. g r = r \<or> (\<exists>st now. st \<in> {''expired'', ''revoked''} \<and> g r = retired_as st now r))"

lemma retires_expired_at [simp]: "retires (expired_at now)"
  by (auto simp: retires_def expired_at_def)

lemma retires_revoked_at [simp]: "retires (revoked_at now)"
  by (auto simp: retires_def revoked_at_def)

lemma retiresE:
  assumes "retires g"
  obtains (same) "g r = r"
  | (retired) st now where "st \<in> {''expired'', ''revoked''}" "g r = retired_as st now r"
  using assms unfolding retires_def by blast

lemma retires_binding [simp]: "retires g \<Longrightarrow> binding_key (g r) = binding_key r"
  by (rule retiresE [of g r]) auto

lemma retires_live: "retires g \<Longrightarrow> live (g r) \<Longrightarrow> g r = r \<and> live r"
  by (rule retiresE [of g r]) auto

lemma retires_record_ok: "retires g \<Longrightarrow> record_ok gen b s t k r \<Longrightarrow> record_ok gen b s t k (g r)"
  by (rule retiresE [of g r]) (auto simp: record_ok_def)

lemma map_of_apsnd: "map_of (map (apsnd g) d) k = map_option g (map_of d k)"
  by (induction d) (auto simp: apsnd_def map_prod_def)

lemma linked_apsnd: "retires g \<Longrightarrow> linked recs binds \<Longrightarrow> linked (map (apsnd g) recs) binds"
proof -
  assume "retires g" "linked recs binds"
  moreover from this have "(\<exists>r. map_option g (map_of recs k) = Some r \<and> binding_key r = b) \<longleftrightarrow>
      (\<exists>r. map_of recs k = Some r \<and> binding_key r = b)" for k b
    by (cases "map_of recs k") simp_all
  ultimately show ?thesis by (simp add: linked_def map_of_apsnd del: split_paired_All)
qed

lemma live_count_apsnd: "retires g \<Longrightarrow> live_count (map (apsnd g) recs) \<le> live_count recs"
proof (induction recs)
  case (Cons kr recs)
  then have "live (g (snd kr)) \<Longrightarrow> live (snd kr)" using retires_live by blast
  with Cons show ?case by (auto simp: live_count_def)
qed simp

lemma core_inv_retires:
  assumes "core_inv x" "retires g" "core y = with_records x (map (apsnd g) (lx_records x))"
  shows "core_inv y"
proof -
  have "core_inv y = core_inv (x\<lparr>lx_records := map (apsnd g) (lx_records x)\<rparr>)"
    using assms(3) by (intro core_inv_core) (simp add: with_records_def)
  moreover have "core_inv (x\<lparr>lx_records := map (apsnd g) (lx_records x)\<rparr>)"
    using assms(1,2) live_count_apsnd [of g "lx_records x"]
    unfolding core_inv_def by (simp add: linked_apsnd comp_def split_beta retires_record_ok)
  ultimately show ?thesis by (simp only:)
qed

lemma core_inv_expire_all: "core_inv x \<Longrightarrow> core_inv (expire_all fr now x)"
  by (rule core_inv_retires [OF _ retires_expired_at core_expire_all [OF core_invD(1)]])

lemma core_inv_retire_connected: "core_inv x \<Longrightarrow> core_inv (retire_connected fr why now x)"
  by (rule core_inv_retires [OF _ retires_revoked_at core_retire_connected [OF core_invD(1)]])

definition no_live :: "lease_registry \<Rightarrow> bool" where
  "no_live x \<longleftrightarrow> (\<forall>(k, r) \<in> set (lx_records x). \<not> live r)"

lemma no_live_retire_connected:
  "distinct (map fst (lx_records x)) \<Longrightarrow> no_live (retire_connected fr why now x)"
  using with_records_step [OF core_retire_connected [of x fr why now]]
  by (auto simp: no_live_def revoked_at_def split: if_splits)

lemma linked_delete:
  assumes "linked recs binds" "map_of recs k = Some r"
  shows "linked (AList.delete k recs) (AList.delete (binding_key r) binds)"
  unfolding linked_def
proof (intro allI)
  fix b k'
  note iff = assms(1) [unfolded linked_def, rule_format]
  have "map_of binds (binding_key r) = Some k" using assms(2) by (simp add: iff)
  with assms(2) iff [of b k'] show "map_of (AList.delete (binding_key r) binds) b = Some k' \<longleftrightarrow>
      (\<exists>r. map_of (AList.delete k recs) k' = Some r \<and> binding_key r = b)"
    by (cases "k' = k"; cases "b = binding_key r") simp_all
qed

lemma delete_filter_entry:
  assumes "distinct (map fst d)" "(k, v) \<in> set d"
  shows "AList.delete k d = filter (\<lambda>kr. kr \<noteq> (k, v)) d"
  unfolding AList.delete_eq
proof (rule filter_cong [OF refl])
  fix kr assume "kr \<in> set d"
  then have "fst kr = k \<Longrightarrow> kr = (k, v)"
    using assms by (metis eq_key_imp_eq_value prod.collapse)
  then show "(case kr of (k', uu) \<Rightarrow> k \<noteq> k') = (kr \<noteq> (k, v))" by (auto simp: split_beta)
qed

lemma fold_prune:
  assumes "distinct (map fst (lx_records x))" "set krs \<subseteq> set (lx_records x)" "distinct (map fst krs)"
  shows "\<exists>b. fold (prune_record now) krs x =
      x\<lparr>lx_records := filter (\<lambda>kr. \<not> (kr \<in> set krs \<and> stale_record now (snd kr))) (lx_records x), lx_bindings := b\<rparr> \<and>
      (linked (lx_records x) (lx_bindings x) \<longrightarrow>
        linked (filter (\<lambda>kr. \<not> (kr \<in> set krs \<and> stale_record now (snd kr))) (lx_records x)) b) \<and>
      (distinct (map fst (lx_bindings x)) \<longrightarrow> distinct (map fst b))"
  using assms
proof (induction krs arbitrary: x)
  case Nil
  show ?case by (rule exI [of _ "lx_bindings x"]) simp
next
  case (Cons kr krs)
  obtain k r where kr: "kr = (k, r)" by fastforce
  show ?case
  proof (cases "stale_record now r")
    case False
    have f: "filter (\<lambda>kr'. \<not> (kr' \<in> set (kr # krs) \<and> stale_record now (snd kr'))) (lx_records x) =
        filter (\<lambda>kr. \<not> (kr \<in> set krs \<and> stale_record now (snd kr))) (lx_records x)"
      using False kr by (intro filter_cong) auto
    have "fold (prune_record now) (kr # krs) x = fold (prune_record now) krs x"
      using False kr by (simp add: prune_record_def)
    with Cons.IH [of x] Cons.prems show ?thesis unfolding f by simp
  next
    case True
    let ?d = "AList.delete k (lx_records x)"
    let ?x = "x\<lparr>lx_records := ?d, lx_bindings := AList.delete (binding_key r) (lx_bindings x)\<rparr>"
    have d: "?d = filter (\<lambda>kr'. kr' \<noteq> kr) (lx_records x)"
      using Cons.prems kr by (simp add: delete_filter_entry)
    have m: "map_of (lx_records x) k = Some r" using Cons.prems kr by simp
    have sub: "set krs \<subseteq> set ?d" using Cons.prems kr by (auto simp: d rev_image_eqI)
    have f: "filter (\<lambda>kr. \<not> (kr \<in> set krs \<and> stale_record now (snd kr))) ?d =
        filter (\<lambda>kr'. \<not> (kr' \<in> set (kr # krs) \<and> stale_record now (snd kr'))) (lx_records x)"
      unfolding d filter_filter using True kr by (intro filter_cong) auto
    have s: "fold (prune_record now) (kr # krs) x = fold (prune_record now) krs ?x"
      using True kr by (simp add: prune_record_def)
    show ?thesis
      using Cons.IH [of ?x] Cons.prems sub linked_delete [OF _ m, of "lx_bindings x"]
      unfolding s f [symmetric] by (auto simp: AList.distinct_delete)
  qed
qed

lemma live_count_filter: "live_count (filter P d) \<le> live_count d"
  by (induction d) (auto simp: live_count_def)

lemma core_inv_prune:
  assumes "core_inv x"
  shows "core_inv (prune now x)"
    and "\<exists>b. core (prune now x) = core (x\<lparr>lx_records := filter (\<lambda>kr. \<not> stale_record now (snd kr)) (lx_records x),
       lx_bindings := b\<rparr>)"
proof -
  let ?d = "filter (\<lambda>kr. \<not> stale_record now (snd kr)) (lx_records x)"
  have d: "filter (\<lambda>kr. \<not> (kr \<in> set (lx_records x) \<and> stale_record now (snd kr))) (lx_records x) = ?d"
    by (rule filter_cong) auto
  obtain b where b: "fold (prune_record now) (lx_records x) x = x\<lparr>lx_records := ?d, lx_bindings := b\<rparr>"
      "linked ?d b" "distinct (map fst b)"
    using fold_prune [of x "lx_records x" now] assms unfolding d core_inv_def by auto
  have "core_inv (x\<lparr>lx_records := ?d, lx_bindings := b\<rparr>)"
    using assms b live_count_filter [of "\<lambda>kr. \<not> stale_record now (snd kr)" "lx_records x"]
    by (auto simp: core_inv_def intro: order_trans [OF length_filter_le])
  then show "core_inv (prune now x)"
    using core_inv_core [OF core_prune_history] by (simp add: prune_def b(1))
  show "\<exists>b. core (prune now x) = core (x\<lparr>lx_records := ?d, lx_bindings := b\<rparr>)"
    by (rule exI [of _ b]) (simp add: prune_def b(1))
qed

lemma core_inv_same:
  assumes "core_inv x" "lx_records y = lx_records x" "lx_bindings y = lx_bindings x"
    "lx_generation y = lx_generation x" "lx_last_now y = lx_last_now x"
    "no_live x \<or> lx_receiver_boot_id y = lx_receiver_boot_id x \<and> lx_control_stale y = lx_control_stale x"
  shows "core_inv y"
  using assms unfolding core_inv_def by (force simp: record_ok_def no_live_def)

lemma core_inv_last_now:
  assumes "core_inv x" "\<And>t. lx_last_now x = Some t \<Longrightarrow> t \<le> now"
  shows "core_inv (x\<lparr>lx_last_now := Some now\<rparr>)"
  using assms unfolding core_inv_def by (fastforce simp: record_ok_def)


definition record_at :: "bool \<Rightarrow> rat \<Rightarrow> lease_record \<Rightarrow> lease_record" where
  "record_at late now = (if late then revoked_at now \<circ> expired_at now else expired_at now)"

definition records_at :: "rat \<Rightarrow> lease_registry \<Rightarrow> (string \<times> lease_record) list" where
  "records_at now x = map (apsnd (record_at (heartbeat_late now x) now))
     (filter (\<lambda>kr. \<not> stale_record now (snd kr)) (lx_records x))"

text \<open>A successful \<open>_now\<close>, and what it leaves.\<close>

definition now_ok :: "pyval option \<Rightarrow> lease_registry \<Rightarrow> rat \<Rightarrow> bool" where
  "now_ok tick x now \<longleftrightarrow> (\<exists>v. tick = Some v \<and> require_time v ''clock_invalid'' = Inr now) \<and>
     lx_held_code x = None \<and> (\<forall>t. lx_last_now x = Some t \<longrightarrow> t \<le> now)"

definition after_now :: "rat \<Rightarrow> lease_registry \<Rightarrow> lease_registry \<Rightarrow> bool" where
  "after_now now x x' \<longleftrightarrow> core_inv x' \<and> lx_records x' = records_at now x \<and>
     lx_generation x' = lx_generation x \<and> lx_receiver_boot_id x' = lx_receiver_boot_id x \<and>
     lx_last_heartbeat x' = lx_last_heartbeat x \<and> lx_last_now x' = Some now \<and> lx_held_code x' = None \<and>
     lx_control_stale x' = (heartbeat_late now x \<or> lx_control_stale x)"

lemma expired_prune_core:
  fixes fr :: "rat \<Rightarrow> string"
  assumes "core_inv x" "\<And>t. lx_last_now x = Some t \<Longrightarrow> t \<le> now"
  defines "y \<equiv> expire_all fr now (prune now (x\<lparr>lx_last_now := Some now\<rparr>))"
  shows "core_inv y" and "lx_records y = map (apsnd (expired_at now))
      (filter (\<lambda>kr. \<not> stale_record now (snd kr)) (lx_records x))"
    and "lx_generation y = lx_generation x" "lx_receiver_boot_id y = lx_receiver_boot_id x"
      "lx_last_heartbeat y = lx_last_heartbeat x" "lx_last_now y = Some now"
      "lx_held_code y = lx_held_code x" "lx_control_stale y = lx_control_stale x"
proof -
  let ?x = "x\<lparr>lx_last_now := Some now\<rparr>" and ?p = "prune now (x\<lparr>lx_last_now := Some now\<rparr>)"
  have p: "core_inv ?p" using assms by (intro core_inv_prune core_inv_last_now)
  then show "core_inv y" unfolding y_def by (rule core_inv_expire_all)
  obtain b where b: "core ?p = core (?x\<lparr>lx_records :=
      filter (\<lambda>kr. \<not> stale_record now (snd kr)) (lx_records x), lx_bindings := b\<rparr>)"
    using core_inv_prune(2) [of ?x now] core_inv_last_now [OF assms(1,2)] by auto
  have y: "core y = core (?p\<lparr>lx_records := map (apsnd (expired_at now)) (lx_records ?p)\<rparr>)"
    using core_expire_all [OF core_invD(1) [OF p]] by (simp add: y_def with_records_def)
  note f = core_fields [OF y] and g = core_fields [OF b]
  show "lx_records y = map (apsnd (expired_at now))
      (filter (\<lambda>kr. \<not> stale_record now (snd kr)) (lx_records x))"
    "lx_generation y = lx_generation x" "lx_receiver_boot_id y = lx_receiver_boot_id x"
    "lx_last_heartbeat y = lx_last_heartbeat x" "lx_last_now y = Some now"
    "lx_held_code y = lx_held_code x" "lx_control_stale y = lx_control_stale x"
    by (simp_all add: f g)
qed

lemma lease_now_after:
  assumes "core_inv x"
  shows "\<And>x' now. lease_now fr tick x = (x', Inr now) \<Longrightarrow> now_ok tick x now \<and> after_now now x x'"
    and "\<And>now. now_ok tick x now \<Longrightarrow> snd (lease_now fr tick x) = Inr now"
proof -
  fix x' now assume s: "lease_now fr tick x = (x', Inr now)"
  then have ok: "now_ok tick x now"
    by (auto simp: lease_now_def now_ok_def Let_def split: option.splits sum.splits if_splits)
  let ?y = "expire_all fr now (prune now (x\<lparr>lx_last_now := Some now\<rparr>))"
  have le: "\<And>t. lx_last_now x = Some t \<Longrightarrow> t \<le> now" using ok by (simp add: now_ok_def)
  note e = expired_prune_core [OF assms le, of fr]
  have late: "heartbeat_late now ?y = heartbeat_late now x" by (simp add: heartbeat_late_def e)
  have x': "x' = (if heartbeat_late now x
      then (retire_connected fr ''heartbeat_late'' now ?y)\<lparr>lx_control_stale := True\<rparr> else ?y)"
    using s by (auto simp: lease_now_def Let_def late split: option.splits sum.splits if_splits)
  show "now_ok tick x now \<and> after_now now x x'"
  proof (cases "heartbeat_late now x")
    case False
    then show ?thesis using ok e by (simp add: x' after_now_def records_at_def record_at_def now_ok_def)
  next
    case True
    let ?z = "retire_connected fr ''heartbeat_late'' now ?y"
    have z: "core ?z = core (?y\<lparr>lx_records := map (apsnd (revoked_at now)) (lx_records ?y)\<rparr>)"
      using core_retire_connected [OF core_invD(1) [OF e(1)]] by (simp add: with_records_def)
    have "core_inv (?z\<lparr>lx_control_stale := True\<rparr>)"
      by (rule core_inv_same [OF core_inv_retire_connected [OF e(1)]])
        (simp_all add: no_live_retire_connected [OF core_invD(1) [OF e(1)]])
    then show ?thesis
      using ok True by (simp add: x' after_now_def records_at_def record_at_def now_ok_def
          core_fields [OF z] e comp_def)
  qed
next
  fix now assume "now_ok tick x now"
  then show "snd (lease_now fr tick x) = Inr now"
    by (auto simp: now_ok_def lease_now_def Let_def)
qed

lemma lease_now_inv: "core_inv x \<Longrightarrow> core_inv (fst (lease_now fr tick x))"
proof (cases "\<exists>now. snd (lease_now fr tick x) = Inr now")
  case True
  then obtain now where "lease_now fr tick x = (fst (lease_now fr tick x), Inr now)"
    by (metis prod.collapse)
  then show "core_inv x \<Longrightarrow> ?thesis" using lease_now_after(1) after_now_def by blast
next
  case False
  then have "fst (lease_now fr tick x) \<in> {x, x\<lparr>lx_held_code := Some ''clock_invalid''\<rparr>,
      x\<lparr>lx_held_code := Some ''clock_regressed''\<rparr>}"
    by (auto simp: lease_now_def Let_def split: option.splits sum.splits if_splits)
  then show "core_inv x \<Longrightarrow> ?thesis" by (elim insertE emptyE) (simp_all add: core_inv_same [of x])
qed

text \<open>The state every method body starts from: expiry at this instant is already applied.\<close>

definition settled :: "rat \<Rightarrow> lease_registry \<Rightarrow> bool" where
  "settled now x \<longleftrightarrow> core_inv x \<and> lx_last_now x = Some now \<and>
     (\<forall>(k, r) \<in> set (lx_records x). live r \<longrightarrow> now < lease_limit r)"

lemma live_record_at:
  "live (record_at late now r) \<longleftrightarrow> live r \<and> now < lease_limit r \<and> \<not> late"
  "live (record_at late now r) \<Longrightarrow> record_at late now r = r"
  by (cases late; auto simp: record_at_def expired_at_def revoked_at_def split: if_splits)+

lemma after_now_settled: "after_now now x x' \<Longrightarrow> settled now x'"
  by (auto simp: after_now_def settled_def records_at_def live_record_at)

lemma core_inv_entered:
  assumes "core_inv x" "\<And>now x1. after_now now x x1 \<Longrightarrow> settled now x1 \<Longrightarrow> core_inv (fst (k now x1))"
  shows "core_inv (fst (sthen (lease_now fr tick) k x))"
  using assms lease_now_inv lease_now_after(1) after_now_settled
  by (intro sthen_keeps [where P = core_inv]) blast+

lemma expire_record_idle: "settled now x \<Longrightarrow> expire_record fr now k x = x"
  by (auto simp: settled_def expire_record_def split: option.splits dest!: map_of_SomeD)

lemma core_inv_receipt [simp]:
  "core_inv (fst (record_receipt fr op i svc st why au now x)) = core_inv x"
  by (rule core_inv_core) simp

lemma live_count_update:
  "map_of d k = Some r \<Longrightarrow> (live r' \<Longrightarrow> live r) \<Longrightarrow> live_count (AList.update k r' d) \<le> live_count d"
  by (induction d) (auto simp: live_count_def)

lemma linked_update:
  assumes "linked d b" "map_of d k = Some r" "binding_key r' = binding_key r"
  shows "linked (AList.update k r' d) b"
  unfolding linked_def
proof (intro allI)
  fix c k'
  note iff = assms(1) [unfolded linked_def, rule_format]
  show "map_of b c = Some k' \<longleftrightarrow> (\<exists>r. map_of (AList.update k r' d) k' = Some r \<and> binding_key r = c)"
    using assms(2,3) by (cases "k' = k") (simp_all add: iff)
qed

lemma linked_insert:
  assumes "linked d b" "map_of d k = None" "map_of b (binding_key r) = None"
  shows "linked (AList.update k r d) (AList.update (binding_key r) k b)"
  unfolding linked_def
proof (intro allI)
  fix c k'
  note iff = assms(1) [unfolded linked_def, rule_format]
  have "map_of b c \<noteq> Some k" using assms(2) by (simp add: iff)
  moreover have "\<not> (\<exists>r'. map_of d k' = Some r' \<and> binding_key r' = binding_key r)"
    using assms(3) iff [of "binding_key r" k'] by simp
  ultimately show "map_of (AList.update (binding_key r) k b) c = Some k' \<longleftrightarrow>
      (\<exists>r'. map_of (AList.update k r d) k' = Some r' \<and> binding_key r' = c)"
    by (cases "k' = k"; cases "c = binding_key r") (simp_all add: iff)
qed

lemma core_inv_update:
  assumes "core_inv x" "map_of (lx_records x) k = Some r" "binding_key r' = binding_key r" "live r' \<Longrightarrow> live r"
    "record_ok (lx_generation x) (lx_receiver_boot_id x) (lx_control_stale x) (lx_last_now x) k r'"
  shows "core_inv (x\<lparr>lx_records := AList.update k r' (lx_records x)\<rparr>)"
  using assms live_count_update [of "lx_records x" k r r'] set_update_subset [of k r' "lx_records x"]
  unfolding core_inv_def
  by (simp add: linked_update length_update_old) fast

lemma core_inv_retire:
  assumes "core_inv x" "st \<in> {''expired'', ''revoked''}"
  shows "core_inv (retire k st now x)"
proof (cases "map_of (lx_records x) k")
  case (Some r)
  have "core_inv (x\<lparr>lx_records := AList.update k (retired_as st now r) (lx_records x)\<rparr>)"
    using core_inv_record [OF assms(1) Some] assms(2)
    by (intro core_inv_update [OF assms(1) Some]) (auto simp: record_ok_def)
  then show ?thesis using Some by (simp add: retire_def retired_as_def)
qed (simp add: retire_def assms)

lemma core_inv_set_active:
  assumes "core_inv x" "record_state k x = ''registered''"
  shows "core_inv (set_active k launch x)"
proof -
  obtain r where r: "map_of (lx_records x) k = Some r" "lr_state r = ''registered''"
    using assms(2) by (auto simp: record_state_def split: option.splits)
  have "core_inv (x\<lparr>lx_records := AList.update k (r\<lparr>lr_launch_at := Some launch, lr_state := ''active''\<rparr>) (lx_records x)\<rparr>)"
    using core_inv_record [OF assms(1) r(1)] r(2)
    by (intro core_inv_update [OF assms(1) r(1)]) (auto simp: record_ok_def live_def binding_key_def)
  then show ?thesis using r by (simp add: set_active_def)
qed

lemma no_live_unless_connected:
  "core_inv x \<Longrightarrow> lx_control_stale x \<or> lx_receiver_boot_id x = None \<Longrightarrow> no_live x"
  by (fastforce simp: core_inv_def no_live_def record_ok_def)

section \<open>Every method keeps the invariant\<close>

lemmas keeps_core_inv = core_inv_entered checked_keeps [where P = core_inv]

lemma settledD: "settled now x \<Longrightarrow> core_inv x"
  by (simp add: settled_def)

lemma handshake_inv: "core_inv x \<Longrightarrow> core_inv (fst (handshake fr tick b g x))"
  unfolding handshake_def
proof (intro keeps_core_inv, goal_cases)
  case (4 now x gen boot')
  let ?replaced = "lx_receiver_boot_id x \<noteq> None \<and> lx_receiver_boot_id x \<noteq> Some boot'"
  let ?y = "if ?replaced then retire_connected fr ''receiver_replaced'' now x else x"
  have x: "core_inv x" using 4 by (simp add: settledD)
  have "core_inv ?y" using x by (simp add: core_inv_retire_connected)
  moreover have "no_live ?y \<or> lx_receiver_boot_id ?y = Some boot' \<and> \<not> lx_control_stale ?y"
    using no_live_unless_connected [OF x] no_live_retire_connected [OF core_invD(1) [OF x]] by auto
  ultimately have "core_inv (?y\<lparr>lx_receiver_boot_id := Some boot', lx_last_heartbeat := Some now,
      lx_control_stale := False\<rparr>)"
    by (elim core_inv_same) auto
  then show ?case by (simp only: Let_def core_inv_receipt)
qed (auto dest: settledD)

lemma heartbeat_inv: "core_inv x \<Longrightarrow> core_inv (fst (heartbeat fr tick b g x))"
  unfolding heartbeat_def
proof (intro keeps_core_inv, goal_cases)
  case (4 now x gen boot)
  then have x: "core_inv x" by (simp add: settledD)
  then show ?case
    using no_live_unless_connected [OF x]
    by (cases "lx_control_stale x") (simp_all add: core_inv_same [OF x])
qed (auto dest: settledD)

lemma disconnect_inv: "core_inv x \<Longrightarrow> core_inv (fst (disconnect fr tick b g x))"
  unfolding disconnect_def
proof (intro keeps_core_inv, goal_cases)
  case (4 now x gen boot)
  then have x: "core_inv x" by (simp add: settledD)
  show ?case
    by (simp, rule core_inv_same [OF core_inv_retire_connected [OF x]])
      (simp_all add: no_live_retire_connected [OF core_invD(1) [OF x]])
qed (auto dest: settledD)

lemma register_replay_inv:
  "settled now x \<Longrightarrow> core_inv (fst (register_replay fr now i b g d e x))"
  by (auto simp: register_replay_def expire_record_idle Let_def settledD split: option.splits)

lemma register_fresh_inv:
  assumes "settled now x" "lx_receiver_boot_id x = Some boot" "\<not> lx_control_stale x"
    "map_of (lx_records x) new_id = None" "map_of (lx_bindings x) (run, att, svc) = None"
  shows "core_inv (fst (register_fresh fr now new_id token run att boot svc digest expiry x))"
  unfolding register_fresh_def
proof (rule checked_keeps [where P = core_inv])
  show x: "core_inv x" using assms(1) by (rule settledD)
  fix u assume cap: "ensure_registration_capacity x = Inr u"
  define r where "r = fresh_record x now new_id token run att boot svc digest expiry"
  have k: "binding_key r = (run, att, svc)" and l: "live r"
    by (simp_all add: r_def fresh_record_def binding_key_def live_def)
  have ok: "record_ok (lx_generation x) (lx_receiver_boot_id x) (lx_control_stale x) (lx_last_now x) new_id r"
    using assms(1-3) by (auto simp: r_def fresh_record_def record_ok_def settled_def)
  let ?d = "AList.update new_id r (lx_records x)"
  have d: "?d = lx_records x @ [(new_id, r)]"
    using assms(4) by (intro update_new) (simp add: map_of_None_keys)
  have "linked ?d (AList.update (run, att, svc) new_id (lx_bindings x))"
    using linked_insert [OF core_invD(2) [OF x] assms(4), of r] assms(5) by (simp add: k)
  moreover have "distinct (map fst ?d)" "distinct (map fst (AList.update (run, att, svc) new_id (lx_bindings x)))"
    using x by (simp_all add: core_inv_def)
  moreover have "length ?d \<le> MAX_RECORDS" "live_count ?d \<le> MAX_LIVE_LEASES"
    using cap l by (auto simp: d ensure_registration_capacity_def live_count_def guards)
  ultimately have "core_inv (x\<lparr>lx_records := ?d, lx_bindings := AList.update (run, att, svc) new_id (lx_bindings x)\<rparr>)"
    using x ok unfolding core_inv_def by (simp add: d)
  then show "core_inv (fst (let r = fresh_record x now new_id token run att boot svc digest expiry
      in if admission_reserve_bytes fr r x > MAX_METADATA_BYTES then (x, Inl ''capacity_metadata'')
         else (fst (record_receipt fr ''register'' (Some new_id) (Some svc) ''registered'' ''ok'' None now
                 (x\<lparr>lx_records := AList.update new_id r (lx_records x),
                    lx_bindings := AList.update (run, att, svc) new_id (lx_bindings x)\<rparr>)),
               Inr (lr_grant r))))"
    using x by (simp add: Let_def r_def)
qed

lemma records_at_keys: "map_of (lx_records x) k = None \<Longrightarrow> map_of (records_at now x) k = None"
  by (force simp: records_at_def map_of_eq_None_iff image_iff)

lemma require_receiver_Inr [guards]:
  "require_receiver fresh b x = Inr boot \<longleftrightarrow> require_id b ''invalid_receiver_boot_id'' = Inr boot \<and>
     lx_receiver_boot_id x = Some boot \<and> \<not> (fresh \<and> lx_control_stale x)"
  by (auto simp: require_receiver_def guards)

lemma register_inv:
  assumes "core_inv x" "map_of (lx_records x) new_id = None"
  shows "core_inv (fst (register fr tick new_id token run att b svc d e g x))"
  unfolding register_def
  using assms(1)
proof (intro keeps_core_inv, goal_cases)
  case (10 now x1 gen boot run' att' svc' digest expiry u)
  then have "map_of (lx_records x1) new_id = None"
    using assms(2) by (simp add: after_now_def records_at_keys)
  with 10 show ?case
    by (auto simp: guards register_replay_inv intro!: register_fresh_inv split: option.splits)
qed (auto dest: settledD)

lemma record_for_control_Inr [guards]:
  "record_for_control i b x = Inr kr \<longleftrightarrow> require_id i ''invalid_lease_id'' = Inr (fst kr) \<and>
     map_of (lx_records x) (fst kr) = Some (snd kr) \<and> lr_receiver_boot_id (snd kr) = b"
  by (cases kr) (auto simp: record_for_control_def guards split: option.splits)

lemma core_inv_states:
  "core_inv x \<Longrightarrow> map_of (lx_records x) k = Some r \<Longrightarrow>
     record_state k x = lr_state r \<and> lr_state r \<in> {''registered'', ''active'', ''revoked'', ''expired''}"
  using core_inv_record [of x k r] by (simp add: record_state_def record_ok_def)

lemma activate_record_inv:
  assumes "settled now x" "map_of (lx_records x) (fst kr) = Some (snd kr)"
  shows "core_inv (fst (activate_record fr now launch kr x))"
proof (cases "activate_refusal now launch (fst kr) (snd kr) x")
  case None
  then have "record_state (fst kr) x = ''active'' \<or> record_state (fst kr) x = ''registered''"
    by (auto simp: activate_refusal_def Let_def split: if_splits)
  then show ?thesis
    using None assms settledD [OF assms(1)]
    by (auto simp: activate_record_def Let_def split_beta expire_record_idle core_inv_retire core_inv_set_active)
qed (use assms in \<open>simp add: activate_record_def Let_def split_beta expire_record_idle settledD\<close>)

lemma activate_inv: "core_inv x \<Longrightarrow> core_inv (fst (activate fr tick i b g l x))"
  unfolding activate_def
proof (intro keeps_core_inv, goal_cases)
  case (7 now x1 gen boot kr launch u)
  then show ?case by (intro activate_record_inv) (simp_all add: guards)
qed (auto dest: settledD)

lemma revoke_inv: "core_inv x \<Longrightarrow> core_inv (fst (revoke fr tick i b g why x))"
  unfolding revoke_def
proof (intro keeps_core_inv, goal_cases)
  case (6 now x1 gen boot kr reason)
  then show ?case
    using settledD [of now x1]
    by (simp add: revoke_controlled_def Let_def split_beta expire_record_idle core_inv_retire)
qed (auto dest: settledD)

lemma check_inv: "core_inv x \<Longrightarrow> core_inv (fst (check fr tick svc k g d x))"
  unfolding check_def
proof (intro keeps_core_inv, goal_cases)
  case (6 now x1 svc' token digest gen)
  then show ?case
    using settledD [of now x1]
    by (auto simp: check_now_def check_denied_def check_record_def Let_def expire_record_idle
        core_inv_retire_connected split: option.splits)
qed (auto dest: settledD)

lemma snapshot_inv: "core_inv x \<Longrightarrow> core_inv (fst (snapshot fr tick x))"
  using lease_now_inv [of x fr tick]
  by (auto simp: snapshot_def Let_def split_beta core_inv_prune split: sum.splits prod.splits)

text \<open>The bounded history, kept by every step that touches it.\<close>

named_theorems history_keeps

lemma pop_history_inv: "history_inv x \<Longrightarrow> history_inv (pop_history x)"
  by (auto simp: history_inv_def pop_history_def drop_history_def MAX_HISTORY_DROPPED_def)

lemma trim_history_inv: "history_inv x \<Longrightarrow> history_inv (trim_history fr x)"
proof (induction fr x rule: trim_history.induct)
  case (1 fr x)
  then show ?case by (subst trim_history.simps) (simp add: pop_history_inv)
qed

lemma prune_history_inv [history_keeps]: "history_inv x \<Longrightarrow> history_inv (prune_history now x)"
proof (induction now x rule: prune_history.induct)
  case (1 now x)
  then show ?case by (subst prune_history.simps) (simp add: pop_history_inv)
qed

lemma record_receipt_history [history_keeps]:
  assumes "history_inv x"
  shows "history_inv (fst (record_receipt fr op i svc st why au now x))"
proof -
  have "history_inv (append_receipt r x)" for r
    using pop_history_inv [OF assms] assms
    by (auto simp: append_receipt_def history_inv_def Let_def MAX_HISTORY_def)
  then show ?thesis by (simp add: record_receipt_def Let_def trim_history_inv)
qed

lemma history_inv_other [simp]:
  "history_inv (x\<lparr>lx_records := d\<rparr>) = history_inv x" "history_inv (x\<lparr>lx_bindings := b\<rparr>) = history_inv x"
  "history_inv (x\<lparr>lx_last_now := t\<rparr>) = history_inv x" "history_inv (x\<lparr>lx_held_code := h\<rparr>) = history_inv x"
  "history_inv (x\<lparr>lx_receiver_boot_id := i\<rparr>) = history_inv x" "history_inv (x\<lparr>lx_last_heartbeat := hb\<rparr>) = history_inv x"
  "history_inv (x\<lparr>lx_control_stale := c\<rparr>) = history_inv x"
  by (simp_all add: history_inv_def)

lemma retire_history [history_keeps]: "history_inv x \<Longrightarrow> history_inv (retire k st now x)"
  by (simp add: retire_def split: option.splits)

lemma expire_record_history [history_keeps]: "history_inv x \<Longrightarrow> history_inv (expire_record fr now k x)"
  by (simp add: expire_record_def retire_noted_def history_keeps split: option.splits)

lemma revoke_record_history [history_keeps]: "history_inv x \<Longrightarrow> history_inv (revoke_record fr why now k x)"
  by (simp add: revoke_record_def retire_noted_def history_keeps split: option.splits)

lemma fold_keeps: "(\<And>k x. P x \<Longrightarrow> P (f k x)) \<Longrightarrow> P x \<Longrightarrow> P (fold f ks x)"
  by (induction ks arbitrary: x) simp_all

lemma expire_all_history [history_keeps]: "history_inv x \<Longrightarrow> history_inv (expire_all fr now x)"
  unfolding expire_all_def by (rule fold_keeps [where P = history_inv]) (simp_all add: history_keeps)

lemma retire_connected_history [history_keeps]: "history_inv x \<Longrightarrow> history_inv (retire_connected fr why now x)"
  unfolding retire_connected_def by (rule fold_keeps [where P = history_inv]) (simp_all add: history_keeps)

lemma prune_inv_history [history_keeps]: "history_inv x \<Longrightarrow> history_inv (prune now x)"
  unfolding prune_def
  by (intro prune_history_inv fold_keeps [where P = history_inv]) (simp_all add: prune_record_def)

lemma lease_now_history [history_keeps]: "history_inv x \<Longrightarrow> history_inv (fst (lease_now fr tick x))"
  by (simp add: lease_now_def Let_def history_keeps split: option.splits sum.splits)

lemmas keeps_history = checked_keeps [where P = history_inv] sthen_keeps [where P = history_inv]

lemma lease_step_history: "history_inv x \<Longrightarrow> history_inv (fst (lease_step fr x c))"
proof (cases c)
  case (LHandshake t b g)
  then show "history_inv x \<Longrightarrow> ?thesis"
    by (auto simp: handshake_def history_keeps Let_def intro!: keeps_history)
next
  case (LRegister t i k run att b svc d e g)
  then show "history_inv x \<Longrightarrow> ?thesis"
    by (auto simp: register_def register_replay_def register_fresh_def history_keeps Let_def
        intro!: keeps_history split: option.splits)
next
  case (LActivate t i b g l)
  then show "history_inv x \<Longrightarrow> ?thesis"
    by (auto simp: activate_def activate_record_def set_active_def history_keeps Let_def split_beta
        intro!: keeps_history split: option.splits)
next
  case (LRevoke t i b g why)
  then show "history_inv x \<Longrightarrow> ?thesis"
    by (auto simp: revoke_def revoke_controlled_def history_keeps Let_def split_beta intro!: keeps_history)
next
  case (LCheck t svc k g d)
  then show "history_inv x \<Longrightarrow> ?thesis"
    by (auto simp: check_def check_now_def check_record_def check_denied_def history_keeps Let_def
        intro!: keeps_history split: option.splits)
next
  case (LSnapshot t)
  then show "history_inv x \<Longrightarrow> ?thesis"
    using lease_now_history [of x fr t]
    by (auto simp: snapshot_def history_keeps Let_def split_beta split: sum.splits prod.splits)
qed (auto simp: lease_hold_def heartbeat_def disconnect_def history_keeps intro!: keeps_history)

section \<open>Runs of the registry\<close>

text \<open>Identifiers drawn from \<open>secrets\<close> do not repeat a retained lease identifier.\<close>

fun new_ids :: "lease_call \<Rightarrow> string set" where
  "new_ids (LRegister t i k run att b svc d e g) = {i}"
| "new_ids c = {}"

definition lease_ok :: "lease_registry \<Rightarrow> lease_call \<Rightarrow> bool" where
  "lease_ok x c \<longleftrightarrow> new_ids c \<inter> fst ` set (lx_records x) = {}"

lemma lease_inv_new: "lease_inv (lease_registry_new g)"
  by (simp add: lease_inv_def core_inv_def history_inv_def lease_registry_new_def linked_def live_count_def
      MAX_HISTORY_DROPPED_def)

lemma core_inv_hold: "core_inv x \<Longrightarrow> core_inv (lease_hold x)"
  by (simp add: lease_hold_def core_inv_same [of x])

lemma lease_inv_step: "lease_inv x \<Longrightarrow> lease_ok x c \<Longrightarrow> lease_inv (fst (lease_step fr x c))"
  unfolding lease_inv_def
proof (intro conjI lease_step_history)
  assume "core_inv x \<and> history_inv x" "lease_ok x c"
  then show "core_inv (fst (lease_step fr x c))"
    by (cases c) (simp_all add: core_inv_hold handshake_inv heartbeat_inv disconnect_inv register_inv
        activate_inv revoke_inv check_inv snapshot_inv lease_ok_def map_of_eq_None_iff)
qed simp

interpretation lease_machine: guarded_machine "lease_step fr" lease_ok lease_inv for fr
  by unfold_locales (rule lease_inv_step)

text \<open>
  C14: In every run of the lease registry whose random lease identifiers are fresh, bindings
  and records stay linked one to one, at most 256 leases are live and 1,024 retained, the
  history holds at most 128 receipts, and every live lease belongs to the connected
  Receiver while its heartbeat is not overdue.
\<close>

theorem lease_registry_invariant:
  assumes "admissible lease_ok (lease_step fr) (lease_registry_new g) cs"
  shows "lease_inv (final (lease_step fr) (lease_registry_new g) cs)"
  using assms lease_inv_new by (rule lease_machine.guarded_final [rotated])

definition live_ids :: "lease_registry \<Rightarrow> string set" where
  "live_ids x = {k. \<exists>r. map_of (lx_records x) k = Some r \<and> live r}"

lemma live_ids_receipt [simp]: "live_ids (fst (record_receipt fr op i svc st why au now x)) = live_ids x"
  by (simp add: live_ids_def)

lemma live_ids_set: "distinct (map fst (lx_records x)) \<Longrightarrow> live_ids x = {k. \<exists>r. (k, r) \<in> set (lx_records x) \<and> live r}"
  by (simp add: live_ids_def)

lemma no_live_iff: "core_inv x \<Longrightarrow> no_live x \<longleftrightarrow> live_ids x = {}"
  using core_invD(1) [of x] by (auto simp: live_ids_set no_live_def)

lemma live_ids_after_now:
  assumes "core_inv x" "after_now now x x'"
  shows "live_ids x' \<subseteq> {k. \<not> heartbeat_late now x \<and> (\<exists>r. map_of (lx_records x) k = Some r \<and> live r \<and>
    now < lease_limit r \<and> \<not> stale_record now r)}"
proof -
  have "distinct (map fst (lx_records x'))" using assms(2) by (intro core_invD) (simp add: after_now_def)
  then show ?thesis
    using assms core_invD(1) [OF assms(1)]
    by (auto simp: live_ids_set after_now_def records_at_def live_record_at)
qed

lemma live_ids_retire_connected:
  "core_inv x \<Longrightarrow> live_ids (retire_connected fr why now x) = {}"
  using no_live_retire_connected [OF core_invD(1)] no_live_iff [OF core_inv_retire_connected] by blast

lemma live_ids_retire: "live_ids (retire k st now x) \<subseteq> live_ids x \<union> (if st \<in> {''expired'', ''revoked''} then {} else {k})"
  by (auto simp: retire_def live_ids_def live_def split: option.splits if_splits)

lemma live_ids_set_active: "record_state k x = ''registered'' \<Longrightarrow> live_ids (set_active k l x) = live_ids x"
  by (auto simp: set_active_def record_state_def live_ids_def live_def split: option.splits)

lemma lease_now_error:
  "lease_now fr tick x = (x', Inl e) \<Longrightarrow> lx_records x' = lx_records x \<and> lx_held_code x' \<noteq> None"
  by (auto simp: lease_now_def Let_def split: option.splits sum.splits if_splits)

lemma live_ids_entered:
  assumes "core_inv x"
    "\<And>now x1. after_now now x x1 \<Longrightarrow> settled now x1 \<Longrightarrow> live_ids (fst (k now x1)) \<subseteq> live_ids x1 \<union> N"
  shows "live_ids (fst (sthen (lease_now fr tick) k x)) \<subseteq> live_ids x \<union> N"
proof (cases "lease_now fr tick x")
  case (Pair x1 res)
  show ?thesis
  proof (cases res)
    case (Inl e)
    with Pair show ?thesis using lease_now_error [of fr tick x x1 e] by (simp add: live_ids_def)
  next
    case (Inr now)
    then have "after_now now x x1" using Pair lease_now_after(1) [OF assms(1)] by simp
    then show ?thesis
      using assms(2) [of now x1] after_now_settled [of now x x1] live_ids_after_now [OF assms(1), of now x1]
      by (auto simp: Pair Inr live_ids_def)
  qed
qed

lemma live_ids_checked:
  "(\<And>b. f x = Inr b \<Longrightarrow> live_ids (fst (k b x)) \<subseteq> live_ids x \<union> N) \<Longrightarrow>
     live_ids (fst (checked f k x)) \<subseteq> live_ids x \<union> N"
  by (simp add: checked_def split: sum.splits)

lemma live_ids_fields [simp]:
  "live_ids (x\<lparr>lx_receiver_boot_id := i\<rparr>) = live_ids x" "live_ids (x\<lparr>lx_last_heartbeat := hb\<rparr>) = live_ids x"
  "live_ids (x\<lparr>lx_control_stale := c\<rparr>) = live_ids x" "live_ids (x\<lparr>lx_bindings := b\<rparr>) = live_ids x"
  "live_ids (x\<lparr>lx_held_code := h\<rparr>) = live_ids x"
  by (simp_all add: live_ids_def)

lemmas keeps_live = live_ids_entered live_ids_checked

lemma live_ids_methods:
  assumes "core_inv x"
  shows "live_ids (fst (handshake fr t b g x)) \<subseteq> live_ids x \<union> {}"
    "live_ids (fst (heartbeat fr t b g x)) \<subseteq> live_ids x \<union> {}"
    "live_ids (fst (disconnect fr t b g x)) \<subseteq> live_ids x \<union> {}"
  unfolding handshake_def heartbeat_def disconnect_def
  subgoal by (intro keeps_live assms) (auto simp: Let_def live_ids_retire_connected settledD)
  subgoal by (intro keeps_live assms) auto
  subgoal by (intro keeps_live assms) (auto simp: live_ids_retire_connected settledD)
  done

lemma live_ids_activate:
  assumes "core_inv x"
  shows "live_ids (fst (activate fr t i b g l x)) \<subseteq> live_ids x \<union> {}"
  unfolding activate_def
proof (intro keeps_live assms)
  fix now x1 kr launch
  assume "settled now x1"
  then show "live_ids (fst (activate_record fr now launch kr x1)) \<subseteq> live_ids x1 \<union> {}"
  proof (cases "activate_refusal now launch (fst kr) (snd kr) x1")
    case None
    then have "record_state (fst kr) x1 = ''active'' \<or> record_state (fst kr) x1 = ''registered''"
      by (auto simp: activate_refusal_def Let_def split: if_splits)
    with None \<open>settled now x1\<close> show ?thesis
      using live_ids_retire [of "fst kr" "''expired''" now x1]
      by (auto simp: activate_record_def Let_def split_beta expire_record_idle live_ids_set_active)
  qed (simp add: activate_record_def Let_def split_beta expire_record_idle)
qed

lemma live_ids_revoke:
  assumes "core_inv x"
  shows "live_ids (fst (revoke fr t i b g why x)) \<subseteq> live_ids x \<union> {}"
  unfolding revoke_def
proof (intro keeps_live assms)
  fix now x1 kr reason
  assume "settled now x1"
  then show "live_ids (fst (revoke_controlled fr now reason kr x1)) \<subseteq> live_ids x1 \<union> {}"
    using live_ids_retire [of "fst kr" "''revoked''" now x1]
    by (auto simp: revoke_controlled_def Let_def split_beta expire_record_idle)
qed

lemma live_ids_check:
  assumes "core_inv x"
  shows "live_ids (fst (check fr t svc k g d x)) \<subseteq> live_ids x \<union> {}"
  unfolding check_def
proof (intro keeps_live assms)
  fix now x1 svc' token digest gen
  assume "settled now x1"
  then show "live_ids (fst (check_now fr now svc' token digest gen x1)) \<subseteq> live_ids x1 \<union> {}"
    by (auto simp: check_now_def check_denied_def check_record_def Let_def expire_record_idle
        live_ids_retire_connected settledD split: option.splits)
qed

lemma live_ids_register:
  assumes "core_inv x"
  shows "live_ids (fst (register fr t i k run att b svc d e g x)) \<subseteq> live_ids x \<union> {i}"
  unfolding register_def
proof (intro keeps_live assms)
  fix now x1 gen boot run' att' svc' digest expiry
  assume "settled now x1"
  then show "live_ids (fst (case map_of (lx_bindings x1) (run', att', svc') of
        Some known_id \<Rightarrow> register_replay fr now known_id boot gen digest expiry x1
      | None \<Rightarrow> register_fresh fr now i k run' att' boot svc' digest expiry x1)) \<subseteq> live_ids x1 \<union> {i}"
    by (auto simp: register_replay_def register_fresh_def checked_def Let_def expire_record_idle
        live_ids_def split: option.splits sum.splits if_splits)
qed

lemma live_ids_snapshot:
  assumes "core_inv x"
  shows "live_ids (fst (snapshot fr t x)) \<subseteq> live_ids x"
proof -
  have p: "live_ids (prune now y) \<subseteq> live_ids y" if "core_inv y" for now y
    using core_inv_prune [OF that, of now] core_invD(1) [OF that]
    by (auto simp: live_ids_set core_invD dest!: core_fields(4))
  have "live_ids (fst (lease_now fr t x)) \<subseteq> live_ids x"
    using live_ids_entered [OF assms, of "\<lambda>now x. (x, Inr now)" "{}" fr t]
    by (simp add: sthen_def split: prod.splits sum.splits)
  moreover have "\<exists>now. fst (snapshot fr t x) = prune now (fst (lease_now fr t x))"
    by (auto simp: snapshot_def Let_def split_beta split: prod.splits sum.splits)
  ultimately show ?thesis using p [OF lease_now_inv [OF assms]] by fastforce
qed

lemma live_ids_step: "core_inv x \<Longrightarrow> live_ids (fst (lease_step fr x c)) \<subseteq> live_ids x \<union> new_ids c"
  using live_ids_methods [of x fr] live_ids_activate [of x fr] live_ids_revoke [of x fr] live_ids_check [of x fr]
    live_ids_register [of x fr] live_ids_snapshot [of x fr]
  by (cases c) (simp_all add: lease_hold_def)

section \<open>Authorisation\<close>

lemma find_map: "List.find P (map f xs) = map_option f (List.find (P \<circ> f) xs)"
  by (induction xs) auto

lemma record_at_fields [simp]:
  "lr_grant (record_at late now r) = lr_grant r"
  by (simp add: record_at_def revoked_at_def expired_at_def)

lemma find_records_at:
  "List.find (sentinel_matches s tk) (records_at now x) =
     map_option (apsnd (record_at (heartbeat_late now x) now))
       (List.find (sentinel_matches s tk) (filter (\<lambda>kr. \<not> stale_record now (snd kr)) (lx_records x)))"
proof -
  have "sentinel_matches s tk \<circ> apsnd (record_at late now) = sentinel_matches s tk" for late
    by (rule ext) (simp add: sentinel_matches_def)
  then show ?thesis by (simp add: records_at_def find_map)
qed

lemma active_record_at:
  "lr_state (record_at late now r) = ''active'' \<longleftrightarrow> lr_state r = ''active'' \<and> now < lease_limit r \<and> \<not> late"
  by (auto simp: record_at_def expired_at_def revoked_at_def live_def)

lemma find_SomeD: "List.find P xs = Some v \<Longrightarrow> P v \<and> v \<in> set xs"
  by (induction xs) (auto split: if_splits)

text \<open>The result of a call authorises lease \<open>k\<close>.\<close>

definition authorizes :: "string \<Rightarrow> lease_registry \<times> lease_receipt res \<Rightarrow> bool" where
  "authorizes k out = (case snd out of Inl _ \<Rightarrow> False
     | Inr rc \<Rightarrow> rc_authorized rc = Some True \<and> rc_lease_id rc = Some k)"

lemma authorizes_receipt [simp]:
  "authorizes k (record_receipt fr op i svc st why au now y) \<longleftrightarrow> au = Some True \<and> i = Some k"
  by (simp add: authorizes_def)

lemma authorizes_denied [simp]: "\<not> authorizes k (check_denied fr now i svc why y)"
  by (simp add: check_denied_def)

lemma check_now_authorized:
  assumes "settled now x"
  shows "authorizes k (check_now fr now s tk d g x) \<longleftrightarrow>
    g = lx_generation x \<and> lx_receiver_boot_id x \<noteq> None \<and> \<not> heartbeat_expired now x \<and>
    (\<exists>r. List.find (sentinel_matches s tk) (lx_records x) = Some (k, r) \<and> lr_state r = ''active'' \<and>
      lg_scope_digest (lr_grant r) = d)"
proof -
  have "authorizes k (check_record fr now s d (k', r) x) \<longleftrightarrow>
      k' = k \<and> lr_state r = ''active'' \<and> lg_scope_digest (lr_grant r) = d"
    if "List.find (sentinel_matches s tk) (lx_records x) = Some (k', r)" for k' r
  proof -
    have "map_of (lx_records x) k' = Some r"
      using find_SomeD [OF that] core_invD(1) [OF settledD [OF assms]] by simp
    then have "record_state k' x = lr_state r \<and> lg_lease_id (lr_grant r) = k'"
      using core_inv_record [OF settledD [OF assms]] by (simp add: record_state_def record_ok_def)
    then show ?thesis by (auto simp: check_record_def Let_def expire_record_idle [OF assms])
  qed
  then show ?thesis
    by (cases "List.find (sentinel_matches s tk) (lx_records x)") (auto simp: check_now_def)
qed

text \<open>
  C1: \<open>check\<close> authorises a lease exactly when the clock reading is valid and not behind the
  last one, the registry is not held, the arguments are well formed, the generation is the
  registry's own, a Receiver is connected with a heartbeat less than 15 seconds old, and the
  first retained lease with that service and sentinel is active, before its limit (its
  expiry, 270 seconds after creation and after launch) and bound to that scope digest.
\<close>

theorem check_authorizes_iff:
  assumes "lease_inv x"
  shows "authorizes k (check fr tick service sentinel generation scope_digest x) \<longleftrightarrow>
    (\<exists>now s tk d hb r. now_ok tick x now \<and> require_service service = Inr s \<and> require_token sentinel = Inr tk \<and>
      require_digest scope_digest = Inr d \<and>
      require_id generation ''invalid_generation'' = Inr (lx_generation x) \<and>
      lx_receiver_boot_id x \<noteq> None \<and> lx_last_heartbeat x = Some hb \<and> fsub now hb < HEARTBEAT_SECONDS \<and>
      List.find (sentinel_matches s tk) (filter (\<lambda>kr. \<not> stale_record now (snd kr)) (lx_records x)) = Some (k, r) \<and>
      lr_state r = ''active'' \<and> now < lease_limit r \<and> lg_scope_digest (lr_grant r) = d)"
proof -
  have x: "core_inv x" using assms by (simp add: lease_inv_def)
  have iff: "authorizes k (check_now fr now s tk d g x1) \<longleftrightarrow>
      g = lx_generation x \<and> lx_receiver_boot_id x \<noteq> None \<and>
      (\<exists>hb. lx_last_heartbeat x = Some hb \<and> fsub now hb < HEARTBEAT_SECONDS) \<and>
      (\<exists>r. List.find (sentinel_matches s tk) (filter (\<lambda>kr. \<not> stale_record now (snd kr)) (lx_records x)) = Some (k, r) \<and>
        lr_state r = ''active'' \<and> now < lease_limit r \<and> lg_scope_digest (lr_grant r) = d)"
    if "after_now now x x1" for now x1 s tk d g
    using that unfolding check_now_authorized [OF after_now_settled [OF that]]
    by (auto simp: after_now_def heartbeat_expired_def find_records_at active_record_at heartbeat_late_def
        split: option.splits)
  show ?thesis
  proof (cases "lease_now fr tick x")
    case (Pair x1 res)
    show ?thesis
    proof (cases res)
      case (Inl e)
      then have "\<not> now_ok tick x now" for now using Pair lease_now_after(2) [OF x, of tick now fr] by auto
      then show ?thesis by (simp add: check_def Pair Inl authorizes_def)
    next
      case (Inr now)
      then have a: "now_ok tick x now" "after_now now x x1" using Pair lease_now_after(1) [OF x] by simp_all
      then have u: "now_ok tick x now' \<longleftrightarrow> now' = now" for now' by (auto simp: now_ok_def)
      have "authorizes k (check fr tick service sentinel generation scope_digest x) \<longleftrightarrow>
        (\<exists>s tk d g. require_service service = Inr s \<and> require_token sentinel = Inr tk \<and>
          require_digest scope_digest = Inr d \<and> require_id generation ''invalid_generation'' = Inr g \<and>
          authorizes k (check_now fr now s tk d g x1))"
        by (auto simp: check_def Pair Inr checked_def authorizes_def split: sum.splits)
      then show ?thesis unfolding iff [OF a(2)] u by blast
    qed
  qed
qed

lemma unauthorized_checked:
  "(\<And>b. f x = Inr b \<Longrightarrow> \<not> authorizes k (h b x)) \<Longrightarrow> \<not> authorizes k (checked f h x)"
  by (cases "f x") (auto simp: checked_def authorizes_def)

lemma unauthorized_sthen:
  "(\<And>b x1. m x = (x1, Inr b) \<Longrightarrow> \<not> authorizes k (h b x1)) \<Longrightarrow> \<not> authorizes k (sthen m h x)"
  by (cases "m x"; cases "snd (m x)") (auto simp: sthen_def authorizes_def)

lemmas unauthorized = unauthorized_sthen unauthorized_checked

lemma control_unauthorized:
  "\<not> authorizes k (handshake fr t b g x)" "\<not> authorizes k (heartbeat fr t b g x)"
  "\<not> authorizes k (disconnect fr t b g x)" "\<not> authorizes k (revoke fr t i b g why x)"
  "\<not> authorizes k (activate fr t i b g l x)"
  unfolding handshake_def heartbeat_def disconnect_def revoke_def activate_def
  subgoal by (intro unauthorized) (simp add: Let_def)
  subgoal by (intro unauthorized) simp
  subgoal by (intro unauthorized) simp
  subgoal by (intro unauthorized) (simp add: revoke_controlled_def Let_def split_beta authorizes_def)
  subgoal by (intro unauthorized) (simp add: activate_record_def Let_def split_beta authorizes_def split: option.splits)
  done

lemma check_authorizes_live:
  assumes "core_inv x" "authorizes k (check fr t svc tok g d x)"
  shows "k \<in> live_ids x"
proof (rule ccontr)
  assume dead: "k \<notin> live_ids x"
  have "\<not> authorizes k (check fr t svc tok g d x)"
    unfolding check_def
  proof (intro unauthorized)
    fix now x1 svc' tk dg gen assume "lease_now fr t x = (x1, Inr now)"
    then have a: "after_now now x x1" using lease_now_after(1) [OF assms(1)] by simp
    then have "k \<notin> live_ids x1" using dead live_ids_after_now [OF assms(1) a] unfolding live_ids_def by blast
    moreover have "distinct (map fst (lx_records x1))" using settledD [OF after_now_settled [OF a]] by (rule core_invD)
    ultimately show "\<not> authorizes k (check_now fr now svc' tk dg gen x1)"
      unfolding check_now_authorized [OF after_now_settled [OF a]]
      by (auto simp: live_ids_set live_def dest: find_SomeD)
  qed
  with assms(2) show False by simp
qed

lemma step_authorizes_live:
  assumes "core_inv x" "snd (lease_step fr x c) = LReceipt (Inr rc)" "rc_authorized rc = Some True"
    "rc_lease_id rc = Some k"
  shows "k \<in> live_ids x"
proof -
  have a: "authorizes k out" if "snd out = Inr rc" for out :: "lease_registry \<times> lease_receipt res"
    using that assms(3,4) by (simp add: authorizes_def)
  show ?thesis
    using assms(2)
    by (cases c) (auto dest!: a simp: control_unauthorized intro: check_authorizes_live [OF assms(1)])
qed

interpretation retired_machine: guarded_machine "lease_step fr"
  "\<lambda>x c. lease_ok x c \<and> k \<notin> new_ids c" "\<lambda>x. lease_inv x \<and> k \<notin> live_ids x" for fr k
proof
  fix x c
  assume "lease_inv x \<and> k \<notin> live_ids x" "lease_ok x c \<and> k \<notin> new_ids c"
  then show "lease_inv (fst (lease_step fr x c)) \<and> k \<notin> live_ids (fst (lease_step fr x c))"
    using live_ids_step [of x fr c] by (auto simp: lease_inv_step lease_inv_def [of x])
qed

text \<open>
  C15: A lease that is no longer live (revoked, expired, lost with its Receiver or pruned) is
  never authorised again, whatever calls follow, as long as its identifier is not drawn
  again.
\<close>

theorem lease_retired_forever:
  assumes "lease_inv x" "k \<notin> live_ids x"
    "admissible (\<lambda>x c. lease_ok x c \<and> k \<notin> new_ids c) (lease_step fr) x cs"
    "(c, LReceipt (Inr rc)) \<in> set (trace (lease_step fr) x cs)" "rc_authorized rc = Some True"
  shows "rc_lease_id rc \<noteq> Some k"
proof -
  have "\<forall>r. out = LReceipt (Inr r) \<longrightarrow> rc_authorized r = Some True \<longrightarrow> rc_lease_id r \<noteq> Some k"
    if "(c, out) \<in> set (trace (lease_step fr) x cs)" for out
    using retired_machine.guarded_trace [where P = "\<lambda>_ out. \<forall>r. out = LReceipt (Inr r) \<longrightarrow>
        rc_authorized r = Some True \<longrightarrow> rc_lease_id r \<noteq> Some k", OF _ _ assms(3) that] assms(1,2)
      step_authorizes_live by (fastforce simp: lease_inv_def)
  with assms(4,5) show ?thesis by blast
qed

section \<open>Holding the registry\<close>

definition refused :: "lease_call \<Rightarrow> lease_out \<Rightarrow> bool" where
  "refused c out = (case out of LReceipt (Inr _) \<Rightarrow> False | LGrant (Inr _) \<Rightarrow> False | _ \<Rightarrow> True)"

lemma lease_now_held:
  "lx_held_code x \<noteq> None \<Longrightarrow> \<exists>x' e. lease_now fr tick x = (x', Inl e) \<and> lx_held_code x' \<noteq> None"
  by (auto simp: lease_now_def Let_def split: option.splits sum.splits)

lemma held_entered:
  assumes "lx_held_code x \<noteq> None"
  shows "lx_held_code (fst (sthen (lease_now fr tick) h x)) \<noteq> None"
    "snd (sthen (lease_now fr tick) h x) = Inl (projl (snd (lease_now fr tick x)))"
  using lease_now_held [OF assms, of fr tick] by auto

lemma held_prune [simp]: "lx_held_code (prune now x) = lx_held_code x"
proof -
  have "lx_held_code (fold (prune_record now) krs y) = lx_held_code y" for krs y
    by (induction krs arbitrary: y) (simp_all add: prune_record_def)
  then show ?thesis by (simp add: prune_def)
qed

lemma held_step:
  assumes "lx_held_code x \<noteq> None"
  shows "lx_held_code (fst (lease_step fr x c)) \<noteq> None" "refused c (snd (lease_step fr x c))"
proof -
  have "lx_held_code (fst (lease_step fr x c)) \<noteq> None \<and> refused c (snd (lease_step fr x c))"
  proof (cases c)
    case (LSnapshot t)
    then show ?thesis using lease_now_held [OF assms, of fr t]
      by (auto simp: snapshot_def Let_def refused_def)
  qed (simp_all add: held_entered [OF assms] lease_hold_def refused_def handshake_def heartbeat_def
      disconnect_def register_def activate_def revoke_def check_def del: not_None_eq)
  then show "lx_held_code (fst (lease_step fr x c)) \<noteq> None" "refused c (snd (lease_step fr x c))" by simp_all
qed

interpretation held_machine: invariant_machine "lease_step fr" "\<lambda>x. lx_held_code x \<noteq> None" for fr
  by unfold_locales (rule held_step)

text \<open>
  C26: A held registry (after \<open>hold\<close>, an invalid clock reading or a clock that went
  backwards) refuses every later registration, activation, revocation, heartbeat and check.
\<close>

theorem lease_hold_permanent:
  assumes "lx_held_code x \<noteq> None" "(c, out) \<in> set (trace (lease_step fr) x cs)"
  shows "refused c out"
proof -
  have "admissible (\<lambda>_ _. True) (lease_step fr) x cs" by (induction cs arbitrary: x) simp_all
  then show ?thesis
    using held_machine.guarded.guarded_trace [where P = refused] held_step(2) assms by blast
qed

section \<open>Losing the Receiver\<close>

lemma record_receipt_iff [guards]:
  "record_receipt fr op i svc st why au now x = (x', Inr rc) \<longleftrightarrow>
     x' = fst (record_receipt fr op i svc st why au now x) \<and>
     rc = \<lparr>rc_operation = op, rc_generation = lx_generation x, rc_lease_id = i, rc_service = svc,
       rc_state = st, rc_reason = why, rc_authorized = au, rc_observed_at = now\<rparr>"
  by (auto simp: record_receipt_def Let_def)

lemma handshake_no_live:
  assumes "core_inv x" "lx_receiver_boot_id x \<noteq> Some boot" "handshake fr t (PStr boot) g x = (x', Inr rc)"
  shows "live_ids x' = {}"
proof -
  obtain now x1 where n: "lease_now fr t x = (x1, Inr now)" using assms(3) by (auto simp: handshake_def guards)
  then have a: "after_now now x x1" using lease_now_after(1) [OF assms(1)] by simp
  then have b: "core_inv x1" "lx_receiver_boot_id x1 \<noteq> Some boot" using assms(2) by (auto simp: after_now_def)
  have "live_ids (if lx_receiver_boot_id x1 \<noteq> None \<and> lx_receiver_boot_id x1 \<noteq> Some boot
      then retire_connected fr ''receiver_replaced'' now x1 else x1) = {}"
    using b no_live_unless_connected [OF b(1)] by (auto simp: live_ids_retire_connected no_live_iff)
  then show ?thesis
    using assms(3) unfolding handshake_def
    by (auto simp: n guards Let_def require_id_def split: if_splits)
qed

lemma heartbeat_late_no_live:
  assumes "core_inv x" "heartbeat fr t b g x = (x', Inr rc)" "now_ok t x now" "heartbeat_late now x"
  shows "live_ids x' = {}" "rc_reason rc = ''late_recovered''"
proof -
  obtain now' x1 where n: "lease_now fr t x = (x1, Inr now')" using assms(2) by (auto simp: heartbeat_def guards)
  then have "now' = now" using lease_now_after(2) [OF assms(1,3), of fr] by simp
  then have a: "after_now now x x1" using lease_now_after(1) [OF assms(1)] n by simp
  have s: "lx_control_stale x1" using a assms(4) by (simp add: after_now_def)
  have "live_ids x1 = {}" using live_ids_after_now [OF assms(1) a] assms(4) by auto
  with s show "live_ids x' = {}" "rc_reason rc = ''late_recovered''"
    using assms(2) by (auto simp: heartbeat_def n guards)
qed

lemma disconnect_no_live:
  assumes "core_inv x" "disconnect fr t b g x = (x', Inr rc)"
  shows "live_ids x' = {}" "lx_receiver_boot_id x' = None"
proof -
  obtain now x1 where n: "lease_now fr t x = (x1, Inr now)" using assms(2) by (auto simp: disconnect_def guards)
  then have "core_inv x1" using lease_now_after(1) [OF assms(1)] by (auto simp: after_now_def)
  then show "live_ids x' = {}" "lx_receiver_boot_id x' = None"
    using assms(2) by (auto simp: disconnect_def n guards live_ids_retire_connected)
qed

text \<open>
  C25: No lease outlives its Receiver connection: after an acknowledged disconnect, after the
  handshake of a Receiver with another boot identity, and after a heartbeat that came 15
  seconds late or later (which is acknowledged as recovered) no lease is live.
\<close>

theorem lease_receiver_loss:
  assumes "lease_inv x"
  shows "(disconnect fr t b g x = (x1, Inr rc1) \<longrightarrow> live_ids x1 = {} \<and> lx_receiver_boot_id x1 = None) \<and>
    (handshake fr t (PStr boot) g x = (x2, Inr rc2) \<and> lx_receiver_boot_id x \<noteq> Some boot \<longrightarrow> live_ids x2 = {}) \<and>
    (heartbeat fr t b g x = (x3, Inr rc3) \<and> now_ok t x now \<and> heartbeat_late now x \<longrightarrow>
      live_ids x3 = {} \<and> rc_reason rc3 = ''late_recovered'')"
proof -
  have c: "core_inv x" using assms by (simp add: lease_inv_def)
  show ?thesis
    by (intro conjI impI; (elim conjE)?)
      (erule disconnect_no_live [OF c] handshake_no_live [OF c] heartbeat_late_no_live [OF c]; assumption)+
qed

section \<open>Registration\<close>

text \<open>A registry whose clock stands still: \<open>_now\<close> changes nothing that is looked up.\<close>

definition calm :: "rat \<Rightarrow> lease_registry \<Rightarrow> bool" where
  "calm now x \<longleftrightarrow> settled now x \<and> lx_held_code x = None \<and> \<not> lx_control_stale x \<and> \<not> heartbeat_late now x \<and>
     (\<forall>(k, r) \<in> set (lx_records x). \<not> stale_record now r)"

lemma linked_unique: "linked d b \<Longrightarrow> linked d b' \<Longrightarrow> map_of b = map_of b'"
  unfolding linked_def by (rule ext) (metis not_None_eq)

lemma lease_now_calm:
  assumes "calm now x" "require_time v ''clock_invalid'' = Inr now"
  obtains y where "lease_now fr (Some v) x = (y, Inr now)" "calm now y" "lx_records y = lx_records x"
    "map_of (lx_bindings y) = map_of (lx_bindings x)" "lx_generation y = lx_generation x"
    "lx_receiver_boot_id y = lx_receiver_boot_id x"
proof -
  have c: "core_inv x" and n: "now_ok (Some v) x now"
    using assms by (auto simp: calm_def settled_def now_ok_def)
  obtain y where y: "lease_now fr (Some v) x = (y, Inr now)"
    using lease_now_after(2) [OF c n] by (metis prod.collapse)
  have a: "after_now now x y" using lease_now_after(1) [OF c y] by simp
  have "\<forall>kr \<in> set (lx_records x). apsnd (record_at False now) kr = kr"
    using assms(1) by (auto simp: calm_def settled_def record_at_def expired_at_def)
  then have "records_at now x = lx_records x"
    using assms(1) by (auto simp: records_at_def calm_def split_beta intro!: map_idI)
  then have r: "lx_records y = lx_records x" using a by (simp add: after_now_def)
  have "map_of (lx_bindings y) = map_of (lx_bindings x)"
    using linked_unique core_invD(2) [OF c] core_invD(2) [of y] a r by (metis after_now_def)
  moreover have "calm now y"
    using assms(1) a after_now_settled [OF a] r by (auto simp: calm_def after_now_def heartbeat_late_def)
  ultimately show ?thesis using that y r a by (simp add: after_now_def)
qed

text \<open>What makes a repetition of a registration return the known grant.\<close>

definition replayable :: "pyval \<Rightarrow> pyval \<Rightarrow> pyval \<Rightarrow> pyval \<Rightarrow> pyval \<Rightarrow> pyval \<Rightarrow> pyval \<Rightarrow> pyval \<Rightarrow>
    lease_grant \<Rightarrow> lease_registry \<Rightarrow> bool" where
  "replayable v run att b svc d e g grant x \<longleftrightarrow>
     (\<exists>now boot run' att' svc' digest expiry k r. require_time v ''clock_invalid'' = Inr now \<and> calm now x \<and>
       require_id g ''invalid_generation'' = Inr (lx_generation x) \<and>
       require_id b ''invalid_receiver_boot_id'' = Inr boot \<and> lx_receiver_boot_id x = Some boot \<and>
       require_id run ''invalid_run_id'' = Inr run' \<and> require_id att ''invalid_attempt_id'' = Inr att' \<and>
       require_service svc = Inr svc' \<and> require_digest d = Inr digest \<and>
       require_time e ''invalid_expiry'' = Inr expiry \<and> now < expiry \<and> expiry \<le> fadd now LEASE_SECONDS \<and>
       map_of (lx_bindings x) (run', att', svc') = Some k \<and> map_of (lx_records x) k = Some r \<and> live r \<and>
       lr_receiver_boot_id r = boot \<and> lg_generation grant = lx_generation x \<and>
       lg_scope_digest grant = digest \<and> lg_expires_at grant = expiry \<and> lr_grant r = grant)"

lemma register_known:
  assumes "replayable v run att b svc d e g grant x"
  shows "\<exists>y. register fr (Some v) i tok run att b svc d e g x = (y, Inr grant) \<and> lx_records y = lx_records x"
proof -
  obtain now boot run' att' svc' digest expiry k r where p:
      "require_time v ''clock_invalid'' = Inr now" "calm now x"
      "require_id g ''invalid_generation'' = Inr (lx_generation x)"
      "require_id b ''invalid_receiver_boot_id'' = Inr boot" "lx_receiver_boot_id x = Some boot"
      "require_id run ''invalid_run_id'' = Inr run'" "require_id att ''invalid_attempt_id'' = Inr att'"
      "require_service svc = Inr svc'" "require_digest d = Inr digest"
      "require_time e ''invalid_expiry'' = Inr expiry" "now < expiry" "expiry \<le> fadd now LEASE_SECONDS"
      "map_of (lx_bindings x) (run', att', svc') = Some k" "map_of (lx_records x) k = Some r" "live r"
      "lr_receiver_boot_id r = boot" "lg_generation grant = lx_generation x"
      "lg_scope_digest grant = digest" "lg_expires_at grant = expiry" "lr_grant r = grant"
    using assms unfolding replayable_def by blast
  obtain y where y: "lease_now fr (Some v) x = (y, Inr now)" "calm now y" "lx_records y = lx_records x"
      "map_of (lx_bindings y) = map_of (lx_bindings x)" "lx_generation y = lx_generation x"
      "lx_receiver_boot_id y = lx_receiver_boot_id x"
    using lease_now_calm [OF p(2,1)] .
  have s: "settled now y" "\<not> lx_control_stale y" using y(2) by (simp_all add: calm_def)
  have "register_replay fr now k boot (lx_generation x) digest expiry y = (y, Inr grant)"
    using p y s(1) by (simp add: register_replay_def Let_def expire_record_idle)
  then have "register fr (Some v) i tok run att b svc d e g x = (y, Inr grant)"
    using p y s(2) by (simp add: register_def require_generation_def require_receiver_def)
  with y(3) show ?thesis by blast
qed

lemma fsub_self: "fsub now now = 0"
  by (simp add: fsub_def round53_def)

lemma register_granted:
  assumes "core_inv x" "map_of (lx_records x) i = None"
    "register fr tick i tok run att b svc d e g x = (x1, Inr grant)"
  shows "\<exists>v. tick = Some v \<and> replayable v run att b svc d e g grant x1"
proof -
  obtain now xa gen boot run' att' svc' digest expiry where n: "lease_now fr tick x = (xa, Inr now)"
    and g: "require_id g ''invalid_generation'' = Inr gen" "gen = lx_generation xa"
    "require_id b ''invalid_receiver_boot_id'' = Inr boot" "lx_receiver_boot_id xa = Some boot" "\<not> lx_control_stale xa"
    "require_id run ''invalid_run_id'' = Inr run'" "require_id att ''invalid_attempt_id'' = Inr att'"
    "require_service svc = Inr svc'" "require_digest d = Inr digest" "require_time e ''invalid_expiry'' = Inr expiry"
    "now < expiry \<and> expiry \<le> fadd now LEASE_SECONDS"
    and body: "(case map_of (lx_bindings xa) (run', att', svc') of
         Some known_id \<Rightarrow> register_replay fr now known_id boot gen digest expiry xa
       | None \<Rightarrow> register_fresh fr now i tok run' att' boot svc' digest expiry xa) = (x1, Inr grant)"
    using assms(3) by (auto simp: register_def guards require_generation_def)
  have a: "now_ok tick x now" "after_now now x xa" using lease_now_after(1) [OF assms(1) n] by simp_all
  then obtain v where v: "tick = Some v" "require_time v ''clock_invalid'' = Inr now" by (auto simp: now_ok_def)
  have s: "settled now xa" using a(2) by (rule after_now_settled)
  have c: "calm now xa"
    using a(2) g(5) s by (auto simp: calm_def after_now_def heartbeat_late_def records_at_def stale_record_def
        record_at_def expired_at_def revoked_at_def)
  show ?thesis
  proof (cases "map_of (lx_bindings xa) (run', att', svc')")
    case (Some k)
    then obtain r where "x1 = xa" "map_of (lx_records xa) k = Some r" "live r" "lr_receiver_boot_id r = boot"
        "lg_generation (lr_grant r) = gen" "lg_scope_digest (lr_grant r) = digest" "lg_expires_at (lr_grant r) = expiry"
        "lr_grant r = grant"
      using body by (auto simp: register_replay_def Let_def expire_record_idle [OF s] split: option.splits if_splits)
    then show ?thesis using v g c Some by (simp add: replayable_def)
  next
    case None
    have new: "map_of (lx_records xa) i = None" using assms(2) a(2) by (simp add: after_now_def records_at_keys)
    let ?r = "fresh_record xa now i tok run' att' boot svc' digest expiry"
    have f: "register_fresh fr now i tok run' att' boot svc' digest expiry xa = (x1, Inr grant)"
      using body None by simp
    then have x1: "lx_records x1 = AList.update i ?r (lx_records xa)" "lx_generation x1 = lx_generation xa"
        "lx_bindings x1 = AList.update (run', att', svc') i (lx_bindings xa)" "lx_held_code x1 = lx_held_code xa"
        "lx_receiver_boot_id x1 = lx_receiver_boot_id xa" "lx_control_stale x1 = lx_control_stale xa"
        "lx_last_heartbeat x1 = lx_last_heartbeat xa" "lx_last_now x1 = lx_last_now xa" "grant = lr_grant ?r"
      by (auto simp: register_fresh_def checked_def Let_def split: sum.splits if_splits)
    have "core_inv x1" using register_fresh_inv [OF s g(4,5) new None, of fr tok digest expiry] by (simp add: f)
    moreover have "now < lease_limit ?r" "\<not> stale_record now ?r"
      using g(11) by (auto simp: fresh_record_def lease_limit_def stale_record_def fsub_self RETENTION_SECONDS_def)
    ultimately have "calm now x1"
      using c new by (auto simp: calm_def settled_def heartbeat_late_def x1 update_new map_of_None_keys)
    then show ?thesis
      using v g x1 by (simp add: replayable_def fresh_record_def live_def)
  qed
qed

text \<open>
  C24: Registration is idempotent: repeating a granted registration at the same instant (with
  whatever fresh identifier and sentinel the process would draw) returns the same grant, and
  the records are unchanged.
\<close>

theorem register_idempotent:
  assumes "lease_inv x" "map_of (lx_records x) i = None"
    "register fr tick i tok run att b svc d e g x = (x1, Inr grant)"
  shows "\<exists>x2. register fr tick i' tok' run att b svc d e g x1 = (x2, Inr grant) \<and> lx_records x2 = lx_records x1"
proof -
  have "core_inv x" using assms(1) by (simp add: lease_inv_def)
  from register_granted [OF this assms(2,3)] show ?thesis
    using register_known by blast
qed

section \<open>The reported size\<close>

text \<open>
  C29: The diagnostic snapshot reports its own size: the fixed-point loop ends for every
  registry, and the \<open>metadata_bytes\<close> it reports is the exact length of the encoded
  snapshot that carries it.
\<close>

theorem snapshot_reports_own_size:
  "\<exists>n. map_of (snd (snapshot fr tick x)) ''metadata_bytes'' = Some (JInt (int n)) \<and>
     n = length (dumps fr (JObj (snd (snapshot fr tick x))))"
proof -
  obtain y where y: "snd (snapshot fr tick x) =
      snapshot_payload y @ [(''metadata_bytes'', JInt (int (fixed_point_bytes fr (snapshot_payload y))))]"
    by (simp add: snapshot_def Let_def split_beta) 
  have k: "map_of (snapshot_payload y) ''metadata_bytes'' = None" by (simp add: snapshot_payload_def Let_def)
  then have u: "AList.update ''metadata_bytes'' v (snapshot_payload y) = snapshot_payload y @ [(''metadata_bytes'', v)]" for v
    by (intro update_new) (simp add: map_of_None_keys)
  have "probe_bytes fr (snapshot_payload y) (fixed_point_bytes fr (snapshot_payload y)) =
      fixed_point_bytes fr (snapshot_payload y)"
    by (simp add: fixed_point_bytes_def fixed_point_loop_fixed)
  with k show ?thesis
    by (intro exI [of _ "fixed_point_bytes fr (snapshot_payload y)"])
      (simp add: y map_add_def probe_bytes_def canonical_bytes_def u del: dumps.simps)
qed

section \<open>A worked registry\<close>

definition sample_record :: lease_record where
  "sample_record = \<lparr>lr_grant = \<lparr>lg_generation = ''generation_a'', lg_lease_id = ''lease_1'', lg_run_id = ''run_1'',
      lg_attempt_id = ''attempt_1'', lg_receiver_boot_id = ''boot_1'', lg_service = ''jira'',
      lg_scope_digest = zero_digest, lg_expires_at = 200, lg_sentinel = ''tok''\<rparr>,
    lr_receiver_boot_id = ''boot_1'', lr_created_at = 10, lr_state = ''active'', lr_launch_at = Some 12, lr_retired_at = None\<rparr>"

definition sample_registry :: lease_registry where
  "sample_registry = \<lparr>lx_generation = ''generation_a'', lx_receiver_boot_id = Some ''boot_1'',
     lx_last_heartbeat = Some 15, lx_records = [(''lease_1'', sample_record)],
     lx_bindings = [((''run_1'', ''attempt_1'', ''jira''), ''lease_1'')], lx_history = [], lx_history_dropped = 0,
     lx_last_now = Some 15, lx_held_code = None, lx_control_stale = False\<rparr>"

lemma sample_registry_inv: "lease_inv sample_registry"
  by (auto simp: lease_inv_def core_inv_def history_inv_def sample_registry_def sample_record_def linked_def
      binding_key_def record_ok_def live_count_def live_def MAX_HISTORY_def MAX_RECORDS_def MAX_LIVE_LEASES_def
      MAX_HISTORY_DROPPED_def split: if_splits)

lemma sample_times:
  "fsub 20 15 = 5" "fsub 20 10 = 10" "fadd 10 270 = 280" "fadd 12 270 = 282" "fadd 20 270 = 290"
  by code_simp+

lemma sample_now: "now_ok (Some (PFloat (Finite 20))) sample_registry 20"
  by (simp add: now_ok_def require_time_def sample_registry_def)

lemma sample_settled:
  "records_at 20 sample_registry = [(''lease_1'', sample_record)]" "\<not> heartbeat_late 20 sample_registry"
  "\<not> stale_record 20 sample_record" "20 < lease_limit sample_record"
  by (simp_all add: records_at_def heartbeat_late_def sample_registry_def sample_record_def stale_record_def
      record_at_def expired_at_def lease_limit_def sample_times HEARTBEAT_SECONDS_def RETENTION_SECONDS_def
      LEASE_SECONDS_def)

lemma safe_id_samples:
  "safe_id_string ''generation_a''" "safe_id_string ''boot_1''" "safe_id_string ''run_1''" "safe_id_string ''attempt_1''"
  by (simp_all add: safe_id_string_def safe_id_chars_def)

definition sample_check :: "lease_registry \<times> lease_receipt res" where
  "sample_check = check (\<lambda>_. ''0.0'') (Some (PFloat (Finite 20))) (PStr ''jira'') (PStr ''tok'')
     (PStr ''generation_a'') (PStr zero_digest) sample_registry"

lemma sample_token: "require_token (PStr ''tok'') = Inr ''tok''"
  by (simp add: require_token_def safe_token_chars_def)

lemma sample_authorized: "authorizes ''lease_1'' sample_check"
proof -
  have c: "core_inv sample_registry" using sample_registry_inv by (simp add: lease_inv_def)
  obtain y where y: "lease_now (\<lambda>_. ''0.0'') (Some (PFloat (Finite 20))) sample_registry = (y, Inr 20)"
    using lease_now_after(2) [OF c sample_now] by (metis prod.collapse)
  have a: "after_now 20 sample_registry y" using lease_now_after(1) [OF c y] by simp
  have "authorizes ''lease_1'' (check_now (\<lambda>_. ''0.0'') 20 ''jira'' ''tok'' zero_digest ''generation_a'' y)"
    unfolding check_now_authorized [OF after_now_settled [OF a]]
    using a by (simp add: after_now_def sample_settled) (simp add: sample_registry_def sample_record_def
        sentinel_matches_def heartbeat_expired_def sample_times HEARTBEAT_SECONDS_def)
  then show ?thesis
    by (simp add: sample_check_def check_def y require_service_def require_digest_def require_id_def
        safe_id_samples sample_token)
qed

theorem lease_registry_invariant_witness:
  "admissible lease_ok (lease_step (\<lambda>_. ''0.0'')) (lease_registry_new ''generation_a'')
     [LHandshake (Some (PFloat (Finite 1))) (PStr ''boot_1'') (PStr ''generation_a''), LSnapshot None] \<and>
   lease_inv (final (lease_step (\<lambda>_. ''0.0'')) (lease_registry_new ''generation_a'')
     [LHandshake (Some (PFloat (Finite 1))) (PStr ''boot_1'') (PStr ''generation_a''), LSnapshot None])"
proof -
  have a: "admissible lease_ok (lease_step (\<lambda>_. ''0.0'')) (lease_registry_new ''generation_a'')
     [LHandshake (Some (PFloat (Finite 1))) (PStr ''boot_1'') (PStr ''generation_a''), LSnapshot None]"
    by (simp add: lease_ok_def)
  then show ?thesis using lease_registry_invariant by blast
qed

theorem check_authorizes_iff_witness:
  "lease_inv sample_registry \<and>
   authorizes ''lease_1'' (check (\<lambda>_. ''0.0'') (Some (PFloat (Finite 20))) (PStr ''jira'') (PStr ''tok'')
     (PStr ''generation_a'') (PStr zero_digest) sample_registry) \<and>
   \<not> authorizes ''lease_1'' (check (\<lambda>_. ''0.0'') (Some (PFloat (Finite 20))) (PStr ''grafana'') (PStr ''tok'')
     (PStr ''generation_a'') (PStr zero_digest) sample_registry)"
  using sample_now sample_settled
  by (simp add: check_authorizes_iff [OF sample_registry_inv] sample_registry_inv sample_token
      require_service_def require_digest_def require_id_def safe_id_samples)
    (simp add: sample_registry_def sample_record_def sentinel_matches_def sample_times HEARTBEAT_SECONDS_def now_ok_def
      require_time_def)

theorem lease_retired_forever_witness:
  "\<exists>rc. snd sample_check = Inr rc \<and> rc_authorized rc = Some True \<and> ''lease_9'' \<notin> live_ids sample_registry \<and>
     rc_lease_id rc \<noteq> Some ''lease_9''"
proof -
  let ?c = "LCheck (Some (PFloat (Finite 20))) (PStr ''jira'') (PStr ''tok'') (PStr ''generation_a'') (PStr zero_digest)"
  obtain rc where rc: "snd sample_check = Inr rc" "rc_authorized rc = Some True"
    using sample_authorized by (auto simp: authorizes_def split: sum.splits)
  have d: "''lease_9'' \<notin> live_ids sample_registry" by (simp add: live_ids_def sample_registry_def)
  have "rc_lease_id rc \<noteq> Some ''lease_9''"
    using lease_retired_forever [OF sample_registry_inv d, where cs = "[?c]" and fr = "\<lambda>_. ''0.0''" and c = ?c and rc = rc]
      rc by (simp add: lease_ok_def sample_check_def)
  with rc d show ?thesis by blast
qed

theorem lease_hold_permanent_witness:
  "lx_held_code (lease_hold sample_registry) \<noteq> None \<and>
   refused (LCheck (Some (PFloat (Finite 20))) (PStr ''jira'') (PStr ''tok'') (PStr ''generation_a'') (PStr zero_digest))
     (snd (lease_step (\<lambda>_. ''0.0'') (lease_hold sample_registry)
       (LCheck (Some (PFloat (Finite 20))) (PStr ''jira'') (PStr ''tok'') (PStr ''generation_a'') (PStr zero_digest))))"
  using lease_hold_permanent [of "lease_hold sample_registry" _ _ "\<lambda>_. ''0.0''"
      "[LCheck (Some (PFloat (Finite 20))) (PStr ''jira'') (PStr ''tok'') (PStr ''generation_a'') (PStr zero_digest)]"]
  by (simp add: lease_hold_def)

theorem lease_receiver_loss_witness:
  "\<exists>x1 rc1. disconnect (\<lambda>_. ''0.0'') (Some (PFloat (Finite 20))) (PStr ''boot_1'') (PStr ''generation_a'') sample_registry =
     (x1, Inr rc1) \<and> live_ids sample_registry = {''lease_1''} \<and> live_ids x1 = {}"
proof -
  have c: "core_inv sample_registry" using sample_registry_inv by (simp add: lease_inv_def)
  obtain y where y: "lease_now (\<lambda>_. ''0.0'') (Some (PFloat (Finite 20))) sample_registry = (y, Inr 20)"
    using lease_now_after(2) [OF c sample_now] by (metis prod.collapse)
  have "after_now 20 sample_registry y" using lease_now_after(1) [OF c y] by simp
  then have "lx_generation y = ''generation_a''" "lx_receiver_boot_id y = Some ''boot_1''"
    by (simp_all add: after_now_def sample_registry_def)
  then obtain x1 rc1 where d: "disconnect (\<lambda>_. ''0.0'') (Some (PFloat (Finite 20))) (PStr ''boot_1'') (PStr ''generation_a'')
      sample_registry = (x1, Inr rc1)"
    by (simp add: disconnect_def y require_generation_def require_receiver_def require_id_def safe_id_samples guards)
  moreover have "live_ids sample_registry = {''lease_1''}"
    by (auto simp: live_ids_def sample_registry_def sample_record_def live_def split: if_splits)
  ultimately show ?thesis using lease_receiver_loss [OF sample_registry_inv] by metis
qed

lemma sample_replayable:
  "replayable (PFloat (Finite 15)) (PStr ''run_1'') (PStr ''attempt_1'') (PStr ''boot_1'') (PStr ''jira'')
     (PStr zero_digest) (PFloat (Finite 200)) (PStr ''generation_a'') (lr_grant sample_record) sample_registry"
proof -
  have t: "fsub 15 10 = 5" "fadd 15 270 = 285" by code_simp+
  have "calm 15 sample_registry"
    using sample_registry_inv
    by (simp add: calm_def settled_def lease_inv_def) (simp add: sample_registry_def sample_record_def heartbeat_late_def
        fsub_self stale_record_def lease_limit_def t sample_times HEARTBEAT_SECONDS_def RETENTION_SECONDS_def LEASE_SECONDS_def)
  then show ?thesis
    by (simp add: replayable_def require_time_def require_id_def require_service_def require_digest_def safe_id_samples
        t LEASE_SECONDS_def) (simp add: sample_registry_def sample_record_def live_def safe_id_samples)
qed

theorem register_idempotent_witness:
  "\<exists>x1 x2 grant. register (\<lambda>_. ''0.0'') (Some (PFloat (Finite 15))) ''lease_2'' ''tok2'' (PStr ''run_1'') (PStr ''attempt_1'')
     (PStr ''boot_1'') (PStr ''jira'') (PStr zero_digest) (PFloat (Finite 200)) (PStr ''generation_a'') sample_registry =
     (x1, Inr grant) \<and>
   register (\<lambda>_. ''0.0'') (Some (PFloat (Finite 15))) ''lease_3'' ''tok3'' (PStr ''run_1'') (PStr ''attempt_1'')
     (PStr ''boot_1'') (PStr ''jira'') (PStr zero_digest) (PFloat (Finite 200)) (PStr ''generation_a'') x1 = (x2, Inr grant)"
proof -
  have f: "map_of (lx_records sample_registry) ''lease_2'' = None" by (simp add: sample_registry_def)
  from register_known [OF sample_replayable, of "\<lambda>_. ''0.0''" "''lease_2''" "''tok2''"]
  obtain y where y: "register (\<lambda>_. ''0.0'') (Some (PFloat (Finite 15))) ''lease_2'' ''tok2'' (PStr ''run_1'') (PStr ''attempt_1'')
     (PStr ''boot_1'') (PStr ''jira'') (PStr zero_digest) (PFloat (Finite 200)) (PStr ''generation_a'') sample_registry =
     (y, Inr (lr_grant sample_record))" by blast
  from register_idempotent [OF sample_registry_inv f y, of "''lease_3''" "''tok3''"] y show ?thesis by blast
qed

end
