(* ===== verification/JsonParse.thy ===== *)
theory JsonParse
  imports Json
begin

text \<open>
  The strict parser of \<open>forwarder_json.py\<close>: the depth prescan, the standard library's
  \<open>json.loads\<close> under the module's hooks, and the post-walk that rebuilds the document.

  The scanner of \<open>json.loads\<close> is recursive on the nesting of the text.  Its model carries
  fuel, one unit for each nested call; a call always follows at least one consumed byte, so
  a fuel above the length of the text is never used up (\<open>parse_value_fuel\<close>).
\<close>

definition MAX_JSON_NUMBER_CHARS :: nat where "MAX_JSON_NUMBER_CHARS = 32"
definition MAX_JSON_DOCUMENT_BYTES :: int where "MAX_JSON_DOCUMENT_BYTES = 1048576"

declare rall_Cons [simp] rall_Nil [simp]

section \<open>The depth prescan\<close>

text \<open>The scan over structural characters; the flag is \<open>in_string\<close>.\<close>

fun prescan :: "int \<Rightarrow> bool \<Rightarrow> string \<Rightarrow> unit res" where
  "prescan depth in_string [] = Inr ()"
| "prescan depth True (c # s) =
     (if c = CHR 0x5C then (case s of [] \<Rightarrow> Inr () | _ # s' \<Rightarrow> prescan depth True s')
      else if c = CHR 0x22 then prescan depth False s
      else prescan depth True s)"
| "prescan depth False (c # s) =
     (if c = CHR 0x22 then prescan depth True s
      else if c = CHR ''['' \<or> c = CHR ''{'' then
        (if depth + 1 > int MAX_JSON_DEPTH then Inl ''json_depth'' else prescan (depth + 1) False s)
      else if c = CHR '']'' \<or> c = CHR ''}'' then prescan (depth - 1) False s
      else prescan depth False s)"

definition prescan_depth :: "string \<Rightarrow> unit res" where
  "prescan_depth s = prescan 0 False s"

section \<open>Strict UTF-8\<close>

definition is_continuation :: "char \<Rightarrow> bool" where
  "is_continuation c \<longleftrightarrow> (of_char c :: nat) div 64 = 2"

fun valid_utf8 :: "bytes \<Rightarrow> bool" where
  "valid_utf8 [] = True"
| "valid_utf8 (a # s) = (let n = of_char a :: nat in
     if n < 0x80 then valid_utf8 s
     else case s of [] \<Rightarrow> False | b # s \<Rightarrow>
       is_continuation b \<and>
       (if 0xC2 \<le> n \<and> n < 0xE0 then valid_utf8 s
        else case s of [] \<Rightarrow> False | c # s \<Rightarrow>
          is_continuation c \<and>
          (if 0xE0 \<le> n \<and> n < 0xF0 then
             (n = 0xE0 \<longrightarrow> 0xA0 \<le> (of_char b :: nat)) \<and> (n = 0xED \<longrightarrow> (of_char b :: nat) < 0xA0) \<and> valid_utf8 s
           else case s of [] \<Rightarrow> False | d # s \<Rightarrow>
             is_continuation d \<and> 0xF0 \<le> n \<and> n < 0xF5 \<and>
             (n = 0xF0 \<longrightarrow> 0x90 \<le> (of_char b :: nat)) \<and> (n = 0xF4 \<longrightarrow> (of_char b :: nat) < 0x90) \<and> valid_utf8 s)))"

definition utf8_of :: "nat \<Rightarrow> string" where
  "utf8_of u =
     (if u < 0x80 then [char_of u]
      else if u < 0x800 then [char_of (0xC0 + u div 64), char_of (0x80 + u mod 64)]
      else if u < 0x10000 then
        [char_of (0xE0 + u div 4096), char_of (0x80 + u div 64 mod 64), char_of (0x80 + u mod 64)]
      else
        [char_of (0xF0 + u div 262144), char_of (0x80 + u div 4096 mod 64),
         char_of (0x80 + u div 64 mod 64), char_of (0x80 + u mod 64)])"

section \<open>Strings\<close>

definition uncons :: "string \<Rightarrow> (char \<times> string) res" where
  "uncons s = (case s of [] \<Rightarrow> Inl ''json_syntax'' | c # r \<Rightarrow> Inr (c, r))"

definition hex_value :: "char \<Rightarrow> nat option" where
  "hex_value c = map_of (zip ''0123456789abcdefABCDEF'' ([0..<16] @ [10..<16])) c"

text \<open>Four hexadecimal digits and the text after them.\<close>

fun hex4 :: "string \<Rightarrow> (nat \<times> string) res" where
  "hex4 (a # b # c # d # r) = (case (hex_value a, hex_value b, hex_value c, hex_value d) of
     (Some w, Some x, Some y, Some z) \<Rightarrow> Inr (((w * 16 + x) * 16 + y) * 16 + z, r)
   | _ \<Rightarrow> Inl ''json_syntax'')"
| "hex4 _ = Inl ''json_syntax''"

definition simple_escapes :: "(char \<times> char) list" where
  "simple_escapes = [(CHR 0x22, CHR 0x22), (CHR 0x5C, CHR 0x5C), (CHR ''/'', CHR ''/''), (CHR ''b'', CHR 0x08),
     (CHR ''f'', CHR 0x0C), (CHR ''n'', CHR 0x0A), (CHR ''r'', CHR 0x0D), (CHR ''t'', CHR 0x09)]"

definition high_surrogate :: "nat \<Rightarrow> bool" where
  "high_surrogate u \<longleftrightarrow> 0xD800 \<le> u \<and> u \<le> 0xDBFF"

definition low_surrogate :: "nat \<Rightarrow> bool" where
  "low_surrogate u \<longleftrightarrow> 0xDC00 \<le> u \<and> u \<le> 0xDFFF"

text \<open>
  The character of a \<open>\uXXXX\<close> escape, read after the \<open>u\<close>.  A high surrogate looks
  ahead for a second escape and joins it when that is a low surrogate.
\<close>

definition unicode_escape :: "string \<Rightarrow> (string \<times> string) res" where
  "unicode_escape s = rbind (hex4 s) (\<lambda>(u, r).
     if high_surrogate u \<and> length r > 6 \<and> take 2 r = [CHR 0x5C, CHR ''u''] then
       rbind (hex4 (drop 2 r)) (\<lambda>(u2, r2).
         if low_surrogate u2 then Inr (utf8_of (0x10000 + (u - 0xD800) * 1024 + (u2 - 0xDC00)), r2)
         else Inr (utf8_of u, r))
     else Inr (utf8_of u, r))"

definition escape_sequence :: "string \<Rightarrow> (string \<times> string) res" where
  "escape_sequence s = rbind (uncons s) (\<lambda>(e, r).
     if e = CHR ''u'' then unicode_escape r
     else case map_of simple_escapes e of None \<Rightarrow> Inl ''json_syntax'' | Some c \<Rightarrow> Inr ([c], r))"

lemma hex4_shorter: "hex4 s = Inr (u, r) \<Longrightarrow> length r < length s"
  by (induction s rule: hex4.induct) (auto split: option.splits)

lemma unicode_escape_shorter: "unicode_escape s = Inr (t, r) \<Longrightarrow> length r < length s"
  by (auto simp: unicode_escape_def guards split: if_splits dest!: hex4_shorter)

lemma escape_sequence_shorter:
  assumes "escape_sequence s = Inr (t, r)"
  shows "length r < length s"
proof (cases s)
  case Nil
  then show ?thesis using assms by (simp add: escape_sequence_def uncons_def)
next
  case (Cons e s')
  then show ?thesis using assms
    by (auto simp: escape_sequence_def uncons_def split: if_splits option.splits dest: unicode_escape_shorter)
qed

text \<open>\<open>scanstring\<close> in strict mode, read after the opening quote.\<close>

function scan_string :: "string \<Rightarrow> (string \<times> string) res" where
  "scan_string [] = Inl ''json_syntax''"
| "scan_string (c # s) =
     (if c = CHR 0x22 then Inr ([], s)
      else if c = CHR 0x5C then
        (case escape_sequence s of Inl e \<Rightarrow> Inl e
         | Inr (t, r) \<Rightarrow> rbind (scan_string r) (\<lambda>(u, r). Inr (t @ u, r)))
      else if (of_char c :: nat) < 0x20 then Inl ''json_syntax''
      else rbind (scan_string s) (\<lambda>(u, r). Inr (c # u, r)))"
  by pat_completeness auto
termination
  by (relation "measure length") (auto dest: escape_sequence_shorter)

section \<open>Numbers\<close>

definition digits_value :: "string \<Rightarrow> nat" where
  "digits_value ds = foldl (\<lambda>n c. n * 10 + (of_char c - 48)) 0 ds"

definition fraction_part :: "string \<Rightarrow> string" where
  "fraction_part r = (case r of [] \<Rightarrow> [] | c # r \<Rightarrow>
     if c = CHR ''.'' \<and> takeWhile is_digit r \<noteq> [] then c # takeWhile is_digit r else [])"

definition exponent_part :: "string \<Rightarrow> string" where
  "exponent_part r = (case r of [] \<Rightarrow> [] | c # r \<Rightarrow>
     if c = CHR ''e'' \<or> c = CHR ''E'' then
       let sign = (case r of [] \<Rightarrow> [] | d # _ \<Rightarrow> if d = CHR ''+'' \<or> d = CHR ''-'' then [d] else []);
           ds = takeWhile is_digit (drop (length sign) r)
       in if ds = [] then [] else c # sign @ ds
     else [])"

definition integer_part :: "string \<Rightarrow> string" where
  "integer_part r = (case r of [] \<Rightarrow> [] | c # _ \<Rightarrow> if c = CHR ''0'' then [c] else takeWhile is_digit r)"

definition sign_part :: "string \<Rightarrow> string" where
  "sign_part s = (case s of [] \<Rightarrow> [] | c # _ \<Rightarrow> if c = CHR ''-'' then [c] else [])"

text \<open>The longest number at the front: its lexeme, whether it is a float, and the rest.\<close>

definition lex_number :: "string \<Rightarrow> (string \<times> bool \<times> string) option" where
  "lex_number s =
     (let sg = sign_part s; r = drop (length sg) s;
          ip = integer_part r; r = drop (length ip) r;
          fp = fraction_part r; r = drop (length fp) r;
          ep = exponent_part r; r = drop (length ep) r
      in if ip = [] then None else Some (sg @ ip @ fp @ ep, fp \<noteq> [] \<or> ep \<noteq> [], r))"

definition lexeme_int :: "string \<Rightarrow> int" where
  "lexeme_int s = (case s of [] \<Rightarrow> 0 | c # r \<Rightarrow> if c = CHR ''-'' then - int (digits_value r) else int (digits_value s))"

text \<open>
  \<open>math.isfinite(float(lexeme))\<close>: the correctly rounded value overflows from
  \<open>2 ^ 1024 - 2 ^ 970\<close> on.
\<close>

definition lexeme_isfinite :: "string \<Rightarrow> bool" where
  "lexeme_isfinite s =
     (let s = drop (length (sign_part s)) s;
          ip = takeWhile is_digit s; s = drop (length ip) s;
          fp = drop 1 (fraction_part s); s = drop (length (fraction_part s)) s;
          e = (case drop 1 s of [] \<Rightarrow> 0 | c # r \<Rightarrow> if c = CHR ''+'' then lexeme_int r else lexeme_int (c # r));
          n = int (digits_value (ip @ fp)); k = e - int (length fp); limit = 2 ^ 1024 - 2 ^ 970
      in n = 0 \<or> (if 0 \<le> k then k < 309 \<and> n * 10 ^ nat k < limit
                   else n < limit \<or> n < limit * 10 ^ nat (- k)))"

definition parse_int :: "string \<Rightarrow> json res" where
  "parse_int lexeme =
     (if length lexeme > MAX_JSON_NUMBER_CHARS then Inl ''json_number''
      else if \<bar>lexeme_int lexeme\<bar> > MAX_SAFE_INTEGER then Inl ''json_number''
      else Inr (JInt (lexeme_int lexeme)))"

definition parse_float :: "bool \<Rightarrow> string \<Rightarrow> json res" where
  "parse_float finite_mode lexeme =
     (if \<not> finite_mode \<or> length lexeme > MAX_JSON_NUMBER_CHARS then Inl ''json_number''
      else if \<not> lexeme_isfinite lexeme then Inl ''json_number''
      else Inr (JDecimal lexeme))"

definition parse_number :: "bool \<Rightarrow> string \<Rightarrow> (json \<times> string) res" where
  "parse_number finite_mode s = (case lex_number s of
     None \<Rightarrow> Inl ''json_syntax''
   | Some (lexeme, is_float, r) \<Rightarrow>
       rbind (if is_float then parse_float finite_mode lexeme else parse_int lexeme) (\<lambda>v. Inr (v, r)))"

section \<open>Values\<close>

definition is_space :: "char \<Rightarrow> bool" where
  "is_space c \<longleftrightarrow> c \<in> {CHR '' '', CHR 0x09, CHR 0x0A, CHR 0x0D}"

definition skip_space :: "string \<Rightarrow> string" where
  "skip_space s = dropWhile is_space s"

definition starts :: "string \<Rightarrow> string \<Rightarrow> bool" where
  "starts w s \<longleftrightarrow> take (length w) s = w"

definition object_pairs_hook :: "(string \<times> json) list \<Rightarrow> json res" where
  "object_pairs_hook pairs = (if distinct (map fst pairs) then Inr (JObj pairs) else Inl ''json_duplicate_key'')"

text \<open>The literals, the constants that \<open>parse_constant\<close> refuses, and the numbers.\<close>

definition parse_scalar :: "bool \<Rightarrow> string \<Rightarrow> (json \<times> string) res" where
  "parse_scalar finite_mode s =
     (if starts ''null'' s then Inr (JNull, drop 4 s)
      else if starts ''true'' s then Inr (JBool True, drop 4 s)
      else if starts ''false'' s then Inr (JBool False, drop 5 s)
      else if starts ''NaN'' s \<or> starts ''Infinity'' s \<or> starts ''-Infinity'' s then Inl ''json_number''
      else parse_number finite_mode s)"

fun parse_value :: "nat \<Rightarrow> bool \<Rightarrow> string \<Rightarrow> (json \<times> string) res"
and parse_members :: "nat \<Rightarrow> bool \<Rightarrow> string \<Rightarrow> ((string \<times> json) list \<times> string) res"
and parse_elements :: "nat \<Rightarrow> bool \<Rightarrow> string \<Rightarrow> (json list \<times> string) res" where
  "parse_value 0 fin s = Inl ''fuel''"
| "parse_value (Suc n) fin s = rbind (uncons s) (\<lambda>(c, r).
     if c = CHR 0x22 then rbind (scan_string r) (\<lambda>(t, r). Inr (JStr t, r))
     else if c = CHR ''{'' then
       rbind (uncons (skip_space r)) (\<lambda>(c, r').
         if c = CHR ''}'' then rbind (object_pairs_hook []) (\<lambda>v. Inr (v, r'))
         else rbind (parse_members n fin (skip_space r)) (\<lambda>(kvs, r).
           rbind (object_pairs_hook kvs) (\<lambda>v. Inr (v, r))))
     else if c = CHR ''['' then
       rbind (uncons (skip_space r)) (\<lambda>(c, r').
         if c = CHR '']'' then Inr (JArr [], r')
         else rbind (parse_elements n fin (skip_space r)) (\<lambda>(vs, r). Inr (JArr vs, r)))
     else parse_scalar fin s)"
| "parse_members 0 fin s = Inl ''fuel''"
| "parse_members (Suc n) fin s = rbind (uncons s) (\<lambda>(q, r).
     if q \<noteq> CHR 0x22 then Inl ''json_syntax''
     else rbind (scan_string r) (\<lambda>(k, r).
       rbind (uncons (skip_space r)) (\<lambda>(c, r).
       if c \<noteq> CHR '':'' then Inl ''json_syntax''
       else rbind (parse_value n fin (skip_space r)) (\<lambda>(v, r).
         rbind (uncons (skip_space r)) (\<lambda>(c, r).
         if c = CHR ''}'' then Inr ([(k, v)], r)
         else if c \<noteq> CHR '','' then Inl ''json_syntax''
         else rbind (parse_members n fin (skip_space r)) (\<lambda>(kvs, r). Inr ((k, v) # kvs, r)))))))"
| "parse_elements 0 fin s = Inl ''fuel''"
| "parse_elements (Suc n) fin s = rbind (parse_value n fin s) (\<lambda>(v, r).
     rbind (uncons (skip_space r)) (\<lambda>(c, r).
     if c = CHR '']'' then Inr ([v], r)
     else if c \<noteq> CHR '','' then Inl ''json_syntax''
     else rbind (parse_elements n fin (skip_space r)) (\<lambda>(vs, r). Inr (v # vs, r))))"

definition loads :: "bool \<Rightarrow> string \<Rightarrow> json res" where
  "loads finite_mode s =
     rbind (parse_value (Suc (2 * length (skip_space s))) finite_mode (skip_space s)) (\<lambda>(v, r).
     if skip_space r = [] then Inr v else Inl ''json_syntax'')"

section \<open>The post-walk\<close>

text \<open>
  The iterative walk: a stack of work (its top first) and a list of results (its top last).
\<close>

datatype work_item = WorkValue json nat | WorkDict "string list" | WorkList nat

fun json_weight :: "json \<Rightarrow> nat" where
  "json_weight (JObj kvs) = 2 + sum_list (map (\<lambda>(k, v). json_weight v) kvs)"
| "json_weight (JArr xs) = 2 + sum_list (map json_weight xs)"
| "json_weight _ = 1"

fun item_weight :: "work_item \<Rightarrow> nat" where
  "item_weight (WorkValue v d) = json_weight v"
| "item_weight _ = 1"

lemma item_weight_values [simp]:
  "item_weight \<circ> (\<lambda>(k, v). WorkValue v d) = (\<lambda>(k, v). json_weight v)"
  "item_weight \<circ> (\<lambda>v. WorkValue v d) = json_weight"
  by auto

function (sequential) postwalk_loop :: "bool \<Rightarrow> nat \<Rightarrow> work_item list \<Rightarrow> json list \<Rightarrow> json list res" where
  "postwalk_loop ascii mx [] results = Inr results"
| "postwalk_loop ascii mx (WorkValue (JObj kvs) depth # work) results =
     (if depth > MAX_JSON_DEPTH then Inl ''json_depth''
      else case rall (\<lambda>(k, _). check_string ascii mx k) kvs of Inl e \<Rightarrow> Inl e
        | Inr _ \<Rightarrow> postwalk_loop ascii mx
            (map (\<lambda>(k, v). WorkValue v (depth + 1)) kvs @ WorkDict (map fst kvs) # work) results)"
| "postwalk_loop ascii mx (WorkValue (JArr xs) depth # work) results =
     (if depth > MAX_JSON_DEPTH then Inl ''json_depth''
      else if length xs > MAX_JSON_ARRAY_ITEMS then Inl ''json_array_too_long''
      else postwalk_loop ascii mx (map (\<lambda>v. WorkValue v (depth + 1)) xs @ WorkList (length xs) # work) results)"
| "postwalk_loop ascii mx (WorkValue (JStr s) depth # work) results =
     (case check_string ascii mx s of Inl e \<Rightarrow> Inl e
        | Inr _ \<Rightarrow> postwalk_loop ascii mx work (results @ [JStr s]))"
| "postwalk_loop ascii mx (WorkValue (JFloat x) depth # work) results = Inl ''json_type''"
| "postwalk_loop ascii mx (WorkValue v depth # work) results = postwalk_loop ascii mx work (results @ [v])"
| "postwalk_loop ascii mx (WorkDict keys # work) results =
     (let start = length results - length keys
      in postwalk_loop ascii mx work (take start results @ [JObj (zip keys (drop start results))]))"
| "postwalk_loop ascii mx (WorkList n # work) results =
     (let start = length results - n
      in postwalk_loop ascii mx work (take start results @ [JArr (drop start results)]))"
  by pat_completeness auto
termination
  by (relation "measure (\<lambda>(_, _, work, _). sum_list (map item_weight work))") auto

definition postwalk :: "bool \<Rightarrow> nat \<Rightarrow> json \<Rightarrow> json res" where
  "postwalk ascii_only max_string_bytes v =
     rbind (postwalk_loop ascii_only max_string_bytes [WorkValue v 1] []) (\<lambda>results. Inr (hd results))"

section \<open>Parsing a document\<close>

definition parse_json :: "bytes \<Rightarrow> int \<Rightarrow> bool \<Rightarrow> bool \<Rightarrow> int \<Rightarrow> json res" where
  "parse_json data max_bytes finite_mode ascii_only max_string_bytes =
     rbind (require (1 \<le> max_bytes \<and> max_bytes \<le> MAX_JSON_DOCUMENT_BYTES \<and>
       1 \<le> max_string_bytes \<and> max_string_bytes \<le> MAX_JSON_DOCUMENT_BYTES) ''json_argument'') (\<lambda>_.
     rbind (require (int (length data) \<le> max_bytes) ''json_too_large'') (\<lambda>_.
     rbind (require (take 3 data \<noteq> [CHR 0xEF, CHR 0xBB, CHR 0xBF]) ''json_encoding'') (\<lambda>_.
     rbind (require (valid_utf8 data) ''json_encoding'') (\<lambda>_.
     rbind (require (\<not> (ascii_only \<and> \<not> list_all printable data)) ''json_unicode'') (\<lambda>_.
     rbind (prescan_depth data) (\<lambda>_.
     rbind (loads finite_mode data) (\<lambda>parsed.
     postwalk ascii_only (nat max_string_bytes) parsed)))))))"

text \<open>The default arguments: integers only and the standard string bound.\<close>

abbreviation parse_integers :: "bytes \<Rightarrow> int \<Rightarrow> bool \<Rightarrow> json res" where
  "parse_integers data max_bytes ascii_only \<equiv>
     parse_json data max_bytes False ascii_only (int MAX_JSON_STRING_BYTES)"

section \<open>The walk is a structural check\<close>

text \<open>
  The reference the iterative walk is compared with: one structural recursion that checks
  the document in the order of its text and changes nothing.
\<close>

fun checked_tree :: "bool \<Rightarrow> nat \<Rightarrow> nat \<Rightarrow> json \<Rightarrow> unit res" where
  "checked_tree ascii mx depth (JObj kvs) =
     (if depth > MAX_JSON_DEPTH then Inl ''json_depth''
      else rbind (rall (\<lambda>(k, _). check_string ascii mx k) kvs) (\<lambda>_.
        rall (\<lambda>r. r) (map (\<lambda>(k, v). checked_tree ascii mx (depth + 1) v) kvs)))"
| "checked_tree ascii mx depth (JArr xs) =
     (if depth > MAX_JSON_DEPTH then Inl ''json_depth''
      else if length xs > MAX_JSON_ARRAY_ITEMS then Inl ''json_array_too_long''
      else rall (\<lambda>r. r) (map (checked_tree ascii mx (depth + 1)) xs))"
| "checked_tree ascii mx depth (JStr s) = check_string ascii mx s"
| "checked_tree ascii mx depth (JFloat x) = Inl ''json_type''"
| "checked_tree ascii mx depth v = Inr ()"

lemma postwalk_values:
  assumes "\<And>v work results. v \<in> set vs \<Longrightarrow>
      postwalk_loop ascii mx (WorkValue v d # work) results =
        rbind (checked_tree ascii mx d v) (\<lambda>_. postwalk_loop ascii mx work (results @ [v]))"
  shows "postwalk_loop ascii mx (map (\<lambda>v. WorkValue v d) vs @ work) results =
    rbind (rall (\<lambda>r. r) (map (checked_tree ascii mx d) vs)) (\<lambda>_. postwalk_loop ascii mx work (results @ vs))"
  using assms
proof (induction vs arbitrary: results)
  case Nil
  then show ?case by simp
next
  case (Cons v vs)
  have "postwalk_loop ascii mx (map (\<lambda>v. WorkValue v d) vs @ work) (results @ [v]) =
    rbind (rall (\<lambda>r. r) (map (checked_tree ascii mx d) vs)) (\<lambda>_. postwalk_loop ascii mx work ((results @ [v]) @ vs))"
    by (rule Cons.IH) (use Cons.prems in auto)
  then show ?case by (simp add: Cons.prems rbind_assoc)
qed

lemma postwalk_loop_tree:
  "postwalk_loop ascii mx (WorkValue v d # work) results =
     rbind (checked_tree ascii mx d v) (\<lambda>_. postwalk_loop ascii mx work (results @ [v]))"
proof (induction v arbitrary: d work results)
  case (JArr xs)
  then have "postwalk_loop ascii mx (map (\<lambda>v. WorkValue v (d + 1)) xs @ WorkList (length xs) # work) results =
    rbind (rall (\<lambda>r. r) (map (checked_tree ascii mx (d + 1)) xs))
      (\<lambda>_. postwalk_loop ascii mx (WorkList (length xs) # work) (results @ xs))"
    by (intro postwalk_values)
  then show ?case by simp
next
  case (JObj kvs)
  have "postwalk_loop ascii mx (map (\<lambda>v. WorkValue v (d + 1)) (map snd kvs) @ WorkDict (map fst kvs) # work) results =
    rbind (rall (\<lambda>r. r) (map (checked_tree ascii mx (d + 1)) (map snd kvs)))
      (\<lambda>_. postwalk_loop ascii mx (WorkDict (map fst kvs) # work) (results @ map snd kvs))"
    by (rule postwalk_values) (use JObj in \<open>auto intro: snds.intros\<close>)
  then show ?case
    by (simp add: zip_map_fst_snd case_prod_unfold comp_def rbind_assoc rbind_def split: sum.splits)
next
  case (JStr s)
  then show ?case by (simp add: rbind_def split: sum.splits)
qed simp_all

section \<open>Consumption and fuel\<close>

lemma uncons_Inr_iff [guards]: "uncons s = Inr p \<longleftrightarrow> s = fst p # snd p"
  by (cases p) (auto simp: uncons_def split: list.splits)

lemma skip_space_shorter: "length (skip_space s) \<le> length s"
  by (simp add: skip_space_def length_dropWhile_le)

lemma scan_string_shorter: "scan_string s = Inr (t, r) \<Longrightarrow> length r < length s"
proof (induction s arbitrary: t r rule: scan_string.induct)
  case (2 c s)
  then show ?case
    by (force simp: guards split: if_splits sum.splits prod.splits dest!: escape_sequence_shorter)
qed simp

lemma integer_part_length: "length (integer_part r) \<le> length r"
  by (auto simp: integer_part_def length_takeWhile_le split: list.splits)

lemma lex_number_shorter:
  assumes "lex_number s = Some (l, b, r)"
  shows "length r < length s"
proof -
  let ?r = "drop (length (sign_part s)) s"
  have "integer_part ?r \<noteq> []" and "length r \<le> length ?r - length (integer_part ?r)"
    using assms by (auto simp: lex_number_def Let_def split: if_splits)
  then show ?thesis using integer_part_length [of ?r] by (cases "integer_part ?r") auto
qed

lemma parse_scalar_shorter: "parse_scalar fin s = Inr (v, r) \<Longrightarrow> length r < length s"
  by (auto simp: parse_scalar_def parse_number_def starts_def guards split: if_splits option.splits
      dest: lex_number_shorter dest!: arg_cong [of "take _ _" _ length])

lemma parse_shorter_all:
  "(\<forall>s v r. parse_value n fin s = Inr (v, r) \<longrightarrow> length r < length s) \<and>
   (\<forall>s kvs r. parse_members n fin s = Inr (kvs, r) \<longrightarrow> length r < length s) \<and>
   (\<forall>s vs r. parse_elements n fin s = Inr (vs, r) \<longrightarrow> length r < length s)"
proof (induction n)
  case 0
  then show ?case by simp
next
  case (Suc n)
  have v: "length r < length s" if "parse_value n fin s = Inr (v, r)" for s v r
    using Suc that by blast
  have m: "length r < length s" if "parse_members n fin s = Inr (kvs, r)" for s kvs r
    using Suc that by blast
  have e: "length r < length s" if "parse_elements n fin s = Inr (vs, r)" for s vs r
    using Suc that by blast
  have tail: "length r < length s" if "skip_space s = c # r" for s c r
    using skip_space_shorter [of s] that by simp
  have skipped: "length r < length s" if "length r < length (skip_space s)" for s r :: string
    using skip_space_shorter [of s] that by simp
  note shorter = scan_string_shorter parse_scalar_shorter v m e tail
  show ?case
  proof (intro conjI allI impI)
    fix s v r assume "parse_value (Suc n) fin s = Inr (v, r)"
    then show "length r < length s"
      by (auto simp: guards split: if_splits prod.splits dest!: shorter skipped)
  next
    fix s kvs r assume "parse_members (Suc n) fin s = Inr (kvs, r)"
    then show "length r < length s"
      by (auto simp: guards split: if_splits prod.splits dest!: shorter skipped)
  next
    fix s vs r assume "parse_elements (Suc n) fin s = Inr (vs, r)"
    then show "length r < length s"
      by (auto simp: guards split: if_splits prod.splits dest!: shorter skipped)
  qed
qed

lemmas parse_shorter = parse_shorter_all [THEN conjunct1, rule_format]
  parse_shorter_all [THEN conjunct2, THEN conjunct1, rule_format]
  parse_shorter_all [THEN conjunct2, THEN conjunct2, rule_format]

definition JSON_ERROR_CODES :: "string set" where
  "JSON_ERROR_CODES = {''json_argument'', ''json_too_large'', ''json_encoding'', ''json_syntax'',
     ''json_unicode'', ''json_duplicate_key'', ''json_depth'', ''json_array_too_long'',
     ''json_string_too_long'', ''json_number'', ''json_type''}"

lemma json_codes [simp]:
  "''json_argument'' \<in> JSON_ERROR_CODES" "''json_too_large'' \<in> JSON_ERROR_CODES"
  "''json_encoding'' \<in> JSON_ERROR_CODES" "''json_syntax'' \<in> JSON_ERROR_CODES"
  "''json_unicode'' \<in> JSON_ERROR_CODES" "''json_duplicate_key'' \<in> JSON_ERROR_CODES"
  "''json_depth'' \<in> JSON_ERROR_CODES" "''json_array_too_long'' \<in> JSON_ERROR_CODES"
  "''json_string_too_long'' \<in> JSON_ERROR_CODES" "''json_number'' \<in> JSON_ERROR_CODES"
  "''json_type'' \<in> JSON_ERROR_CODES"
  by (simp_all add: JSON_ERROR_CODES_def)

lemma raises_uncons: "raises_only JSON_ERROR_CODES (uncons s)"
  by (simp add: uncons_def split: list.splits)

lemma raises_hex4: "raises_only JSON_ERROR_CODES (hex4 s)"
  by (induction s rule: hex4.induct) (auto split: option.splits)

lemma raises_escape: "raises_only JSON_ERROR_CODES (escape_sequence s)"
  by (auto simp: escape_sequence_def unicode_escape_def split: option.splits
      intro!: raises_only_intros raises_uncons raises_hex4)

lemma raises_scan_string: "raises_only JSON_ERROR_CODES (scan_string s)"
proof (induction s rule: scan_string.induct)
  case (2 c s)
  then show ?case
    using raises_escape [of s] by (auto split: sum.splits intro!: raises_only_intros)
qed simp

lemma raises_parse_scalar: "raises_only JSON_ERROR_CODES (parse_scalar fin s)"
  by (auto simp: parse_scalar_def parse_number_def parse_int_def parse_float_def split: option.splits
      intro!: raises_only_intros)

lemma raises_hook: "raises_only JSON_ERROR_CODES (object_pairs_hook kvs)"
  by (simp add: object_pairs_hook_def)

text \<open>Fuel above twice the length of the text is never used up.\<close>

lemma parse_value_fuel_all:
  "(\<forall>s. 2 * length s < n \<longrightarrow> raises_only JSON_ERROR_CODES (parse_value n fin s)) \<and>
   (\<forall>s. 2 * length s < n \<longrightarrow> raises_only JSON_ERROR_CODES (parse_members n fin s)) \<and>
   (\<forall>s. 2 * length s + 1 < n \<longrightarrow> raises_only JSON_ERROR_CODES (parse_elements n fin s))"
proof (induction n)
  case 0
  then show ?case by simp
next
  case (Suc n)
  have v: "raises_only JSON_ERROR_CODES (parse_value n fin s)" if "2 * length s < n" for s
    using Suc that by blast
  have sv: "raises_only JSON_ERROR_CODES (parse_value n fin (skip_space s))" if "2 * length s < n" for s
    using v [of "skip_space s"] skip_space_shorter [of s] that by simp
  have m: "raises_only JSON_ERROR_CODES (parse_members n fin (skip_space s))" if "2 * length s < n" for s
    using Suc skip_space_shorter [of s] that by simp
  have e: "raises_only JSON_ERROR_CODES (parse_elements n fin (skip_space s))" if "2 * length s + 1 < n" for s
    using Suc skip_space_shorter [of s] that by simp
  have tail: "length r < length s" if "skip_space s = c # r" for s c r
    using skip_space_shorter [of s] that by simp
  have skipped: "length r < length s" if "length r < length (skip_space s)" for s r :: string
    using skip_space_shorter [of s] that by simp
  note raises = raises_only_rbind raises_only_if raises_uncons raises_scan_string raises_parse_scalar raises_hook m e
  note shorter = tail scan_string_shorter parse_shorter skipped
  show ?case
  proof (intro conjI allI impI)
    fix s :: string assume "2 * length s < Suc n"
    then show "raises_only JSON_ERROR_CODES (parse_value (Suc n) fin s)"
      by (auto simp: guards intro!: raises dest!: shorter)
  next
    fix s :: string assume "2 * length s < Suc n"
    then show "raises_only JSON_ERROR_CODES (parse_members (Suc n) fin s)"
      by (auto simp: guards intro!: raises sv dest!: shorter)
  next
    fix s :: string assume "2 * length s + 1 < Suc n"
    then show "raises_only JSON_ERROR_CODES (parse_elements (Suc n) fin s)"
      by (auto simp: guards intro!: raises v dest!: shorter)
  qed
qed

lemma raises_check_string: "raises_only JSON_ERROR_CODES (check_string ascii mx s)"
  by (simp add: check_string_def)

lemma raises_prescan: "raises_only JSON_ERROR_CODES (prescan d b s)"
  by (induction d b s rule: prescan.induct) (auto split: list.splits)

lemma raises_checked_tree: "raises_only JSON_ERROR_CODES (checked_tree ascii mx d v)"
  by (induction ascii mx d v rule: checked_tree.induct)
    (auto intro!: raises_only_intros raises_check_string)

lemma raises_loads: "raises_only JSON_ERROR_CODES (loads fin s)"
  unfolding loads_def
  by (rule raises_only_rbind, rule parse_value_fuel_all [THEN conjunct1, rule_format]) auto

lemma postwalk_eq: "postwalk ascii mx v = rbind (checked_tree ascii mx 1 v) (\<lambda>_. Inr v)"
  by (simp add: postwalk_def postwalk_loop_tree rbind_def split: sum.splits)

text \<open>
  C36: the iterative walk over an explicit stack rebuilds exactly the document it was given,
  and refuses it for the same reason as a structural check in document order, for every
  document and every bound.
\<close>
theorem postwalk_equivalence:
  "postwalk ascii mx v = rbind (checked_tree ascii mx 1 v) (\<lambda>_. Inr v)"
  by (rule postwalk_eq)

text \<open>
  C35: parsing always ends, with a value or with one of the eleven codes of
  \<open>JSON_ERROR_CODES\<close>; the fuel of the scanner's model is never used up.
\<close>
theorem parse_json_codes:
  "raises_only JSON_ERROR_CODES (parse_json data max_bytes fin ascii mx)"
  unfolding parse_json_def prescan_depth_def
  by (intro raises_only_rbind raises_prescan raises_loads)
    (auto simp: postwalk_eq intro!: raises_only_rbind raises_checked_tree)

section \<open>Strings and numbers read back\<close>

lemma hex_value_digit: "n < 16 \<Longrightarrow> hex_value (hex_digit n) = Some n"
proof -
  have "list_all (\<lambda>n. hex_value (hex_digit n) = Some n) [0..<16]" by code_simp
  then show "n < 16 \<Longrightarrow> hex_value (hex_digit n) = Some n" by (simp add: list_all_iff)
qed

lemma scan_escape:
  "scan_string (escape_char False c @ r) = rbind (scan_string r) (\<lambda>(u, r). Inr (c # u, r))"
proof -
  consider (named) "c \<in> {CHR 0x22, CHR 0x5C, CHR 0x0A, CHR 0x0D, CHR 0x09, CHR 0x0C, CHR 0x08}"
    | (control) "c \<notin> {CHR 0x22, CHR 0x5C, CHR 0x0A, CHR 0x0D, CHR 0x09, CHR 0x0C, CHR 0x08}" "(of_char c :: nat) < 32"
    | (plain) "c \<notin> {CHR 0x22, CHR 0x5C, CHR 0x0A, CHR 0x0D, CHR 0x09, CHR 0x0C, CHR 0x08}" "\<not> (of_char c :: nat) < 32"
    by blast
  then show ?thesis
  proof cases
    case named
    then show ?thesis
      by (auto simp: escape_char_def escape_sequence_def uncons_def simple_escapes_def)
  next
    case control
    have "(of_char c :: nat) mod 16 < 16" "of_char c div 16 < (16 :: nat)" using control(2) by auto
    moreover have "hex_value CHR ''0'' = Some 0" by (simp add: hex_value_def upt_rec)
    moreover have "(of_char c :: nat) div 16 * 16 + of_char c mod 16 = of_char c" by simp
    ultimately have "unicode_escape (CHR ''0'' # CHR ''0'' # hex_digit (of_char c div 16) # hex_digit (of_char c mod 16) # r) = Inr ([c], r)"
      using control(2) by (simp add: unicode_escape_def hex_value_digit high_surrogate_def utf8_of_def)
    then show ?thesis
      using control by (simp add: escape_char_def escape_u_def escape_sequence_def uncons_def)
  next
    case plain
    then show ?thesis by (simp add: escape_char_def)
  qed
qed

lemma scan_string_encoded:
  "scan_string (concat (map (escape_char False) s) @ CHR 0x22 # r) = Inr (s, r)"
  by (induction s) (simp_all add: scan_escape)

lemma digit_chars: "n < 10 \<Longrightarrow> is_digit (digit_char n) \<and> of_char (digit_char n) = 48 + n"
proof -
  have "list_all (\<lambda>n. is_digit (digit_char n) \<and> of_char (digit_char n) = 48 + n) [0..<10]" by code_simp
  then show "n < 10 \<Longrightarrow> is_digit (digit_char n) \<and> of_char (digit_char n) = 48 + n" by (simp add: list_all_iff)
qed

lemma digit_printable: "is_digit c \<Longrightarrow> printable c"
  by (auto simp: is_digit_def printable_def)

lemma nat_text_digits: "list_all is_digit (nat_text n)"
proof (induction n rule: nat_text.induct)
  case (1 n)
  then show ?case by (subst nat_text.simps) (simp add: digit_chars)
qed

lemma nat_text_Cons:
  obtains c cs where "nat_text n = c # cs" "is_digit c" "c \<noteq> CHR ''-''"
  using nat_text_nonempty [of n] nat_text_digits [of n]
  by (cases "nat_text n") (auto simp: is_digit_def)

lemma nat_text_value: "digits_value (nat_text n) = n"
proof (induction n rule: nat_text.induct)
  case (1 n)
  then show ?case by (subst nat_text.simps) (simp add: digits_value_def digit_chars)
qed

lemma nat_text_zero: "hd (nat_text n) = CHR ''0'' \<Longrightarrow> nat_text n = ''0''"
proof (induction n rule: nat_text.induct)
  case (1 n)
  show ?case
  proof (cases "n < 10")
    case True
    then show ?thesis using "1.prems" by (simp add: nat_text.simps [of n])
  next
    case False
    then have "hd (nat_text n) = hd (nat_text (n div 10))"
      by (simp add: nat_text.simps [of n] hd_append) (metis nat_text_nonempty length_greater_0_conv)
    then have "nat_text (n div 10) = ''0''" using 1 False by simp
    then have "n div 10 = 0" using nat_text_value [of "n div 10"] by (simp add: digits_value_def)
    then show ?thesis using False by simp
  qed
qed

text \<open>What may follow a number in canonical text.\<close>

definition boundary :: "string \<Rightarrow> bool" where
  "boundary r = (case r of [] \<Rightarrow> True | c # _ \<Rightarrow> c \<in> {CHR '','', CHR '']'', CHR ''}''})"

lemma boundary_parts:
  assumes "boundary r"
  shows "fraction_part r = []" "exponent_part r = []" "takeWhile is_digit r = []"
  using assms by (cases r; auto simp: boundary_def fraction_part_def exponent_part_def is_digit_def)+

lemma integer_part_text: "boundary r \<Longrightarrow> integer_part (nat_text n @ r) = nat_text n"
proof (cases "nat_text n")
  case Nil
  then show ?thesis using nat_text_nonempty [of n] by simp
next
  case (Cons c cs)
  assume "boundary r"
  then have "takeWhile is_digit (nat_text n @ r) = nat_text n"
    using nat_text_digits [of n] boundary_parts(3) by (simp add: list_all_iff)
  then show ?thesis
    using Cons nat_text_zero [of n] by (auto simp: integer_part_def)
qed

lemma lex_number_text:
  assumes "boundary r"
  shows "lex_number (int_text i @ r) = Some (int_text i, False, r)"
proof -
  have "nat_text n \<noteq> []" "sign_part (nat_text n @ r) = []" for n
    by (rule nat_text_Cons [of n]; simp add: sign_part_def)+
  then show ?thesis
    using assms by (auto simp: lex_number_def int_text_def integer_part_text boundary_parts sign_part_def Let_def)
qed

lemma nat_text_safe: "int n \<le> MAX_SAFE_INTEGER \<Longrightarrow> length (nat_text n) \<le> 16"
proof -
  assume "int n \<le> MAX_SAFE_INTEGER"
  then have "length (nat_text n) \<le> length (nat_text 9007199254740991)"
    by (intro length_nat_text_mono) (simp add: MAX_SAFE_INTEGER_def)
  also have "length (nat_text 9007199254740991) = 16" by (simp add: nat_text.simps)
  finally show ?thesis .
qed

lemma lexeme_int_text: "lexeme_int (int_text i) = i"
proof (cases "i < 0")
  case True
  then show ?thesis by (simp add: lexeme_int_def int_text_def nat_text_value)
next
  case False
  obtain c cs where "nat_text (nat i) = c # cs" "c \<noteq> CHR ''-''" by (rule nat_text_Cons)
  with False nat_text_value [of "nat i"] show ?thesis by (simp add: lexeme_int_def int_text_def)
qed

lemma parse_int_text: "\<bar>i\<bar> \<le> MAX_SAFE_INTEGER \<Longrightarrow> parse_int (int_text i) = Inr (JInt i)"
  using nat_text_safe [of "nat i"] nat_text_safe [of "nat (- i)"]
  by (auto simp: parse_int_def lexeme_int_text MAX_JSON_NUMBER_CHARS_def) (auto simp: int_text_def split: if_splits)

lemma parse_scalar_int:
  assumes "\<bar>i\<bar> \<le> MAX_SAFE_INTEGER" "boundary r"
  shows "parse_scalar fin (int_text i @ r) = Inr (JInt i, r)"
proof -
  have "\<exists>c cs. int_text i = c # cs \<and> (is_digit c \<or> c = CHR ''-'' \<and> (\<exists>d ds. cs = d # ds \<and> is_digit d))"
    by (rule nat_text_Cons [of "nat i"]; rule nat_text_Cons [of "nat (- i)"]) (auto simp: int_text_def)
  then have "\<not> starts w (int_text i @ r)" if "w \<in> {''null'', ''true'', ''false'', ''NaN'', ''Infinity'', ''-Infinity''}" for w
    using that by (auto simp: starts_def is_digit_def)
  then show ?thesis
    using assms by (simp add: parse_scalar_def parse_number_def lex_number_text parse_int_text)
qed

section \<open>Canonical text reads back\<close>

text \<open>A document whose objects hold each key once, and the order of the canonical keys.\<close>

fun wf_json :: "json \<Rightarrow> bool" where
  "wf_json (JObj kvs) \<longleftrightarrow> distinct (map fst kvs) \<and> (\<forall>p \<in> set kvs. wf_json (snd p))"
| "wf_json (JArr xs) \<longleftrightarrow> (\<forall>x \<in> set xs. wf_json x)"
| "wf_json _ \<longleftrightarrow> True"

fun sort_json :: "json \<Rightarrow> json" where
  "sort_json (JObj kvs) = JObj (sort_key (utf16_units \<circ> fst) (map (\<lambda>(k, v). (k, sort_json v)) kvs))"
| "sort_json (JArr xs) = JArr (map sort_json xs)"
| "sort_json v = v"

lemma insort_key_fst:
  "insort_key (\<lambda>p. f (fst p)) (fst p, g (snd p)) (map (\<lambda>p. (fst p, g (snd p))) kvs) =
     map (\<lambda>p. (fst p, g (snd p))) (insort_key (\<lambda>p. f (fst p)) p kvs)"
  by (induction kvs) auto

lemma sort_key_fst:
  "sort_key (\<lambda>p. f (fst p)) (map (\<lambda>p. (fst p, g (snd p))) kvs) =
     map (\<lambda>p. (fst p, g (snd p))) (sort_key (\<lambda>p. f (fst p)) kvs)"
  by (induction kvs) (simp_all add: sort_key_def insort_key_fst)

abbreviation sort_members :: "(string \<times> 'a) list \<Rightarrow> (string \<times> 'a) list" where
  "sort_members kvs \<equiv> sort_key (\<lambda>p. utf16_units (fst p)) kvs"

lemma canonicalize_JObj:
  "canonicalize ascii d (JObj kvs) = Inr raw \<longleftrightarrow>
     d \<le> MAX_JSON_DEPTH \<and> (\<forall>(k, v) \<in> set kvs. check_string ascii MAX_JSON_STRING_BYTES k = Inr ()) \<and>
     (\<exists>parts. rseq (map (\<lambda>(k, v). rbind (canonicalize ascii (Suc d) v)
         (\<lambda>t. Inr (encode_string k @ CHR '':'' # t))) (sort_members kvs)) = Inr parts \<and>
       raw = CHR ''{'' # join_with CHR '','' parts @ ''}'')"
  by (auto simp: guards comp_def case_prod_unfold sort_key_fst)

lemma canonicalize_JArr:
  "canonicalize ascii d (JArr xs) = Inr raw \<longleftrightarrow>
     d \<le> MAX_JSON_DEPTH \<and> length xs \<le> MAX_JSON_ARRAY_ITEMS \<and>
     (\<exists>parts. rseq (map (canonicalize ascii (Suc d)) xs) = Inr parts \<and>
       raw = CHR ''['' # join_with CHR '','' parts @ '']'')"
  by (auto simp: guards)

text \<open>The first character of canonical text is not white space and not a closing bracket.\<close>

definition opens_value :: "string \<Rightarrow> bool" where
  "opens_value s \<longleftrightarrow> s \<noteq> [] \<and> \<not> is_space (hd s) \<and> hd s \<notin> {CHR '']'', CHR ''}''}"

lemma opens_int_text: "opens_value (int_text i)"
proof -
  have "opens_value (nat_text n)" for n
    using nat_text_nonempty [of n] nat_text_digits [of n]
    by (cases "nat_text n") (auto simp: opens_value_def is_digit_def is_space_def)
  moreover have "opens_value (CHR ''-'' # t)" for t
    by (simp add: opens_value_def is_space_def)
  ultimately show ?thesis by (simp add: int_text_def)
qed

lemma opens_value_canonical: "canonicalize ascii d v = Inr raw \<Longrightarrow> opens_value raw"
  by (cases v) (auto simp: opens_int_text opens_value_def [of "_ # _"] is_space_def guards
      encode_string_def quote_text_def split: if_splits)

lemma skip_space_opens: "opens_value s \<Longrightarrow> skip_space (s @ r) = s @ r"
  by (cases s) (auto simp: opens_value_def skip_space_def)

lemma skip_space_char: "\<not> is_space c \<Longrightarrow> skip_space (c # r) = c # r"
  by (simp add: skip_space_def)

text \<open>
  Canonical text of a value, followed by anything a value may be followed by, is read back
  as the value with its keys in canonical order.
\<close>

definition reads_back :: "bool \<Rightarrow> json \<Rightarrow> bool" where
  "reads_back fin v \<longleftrightarrow> (\<forall>ascii d raw n r. canonicalize ascii d v = Inr raw \<longrightarrow> boundary r \<longrightarrow>
     2 * length (raw @ r) < n \<longrightarrow> parse_value n fin (raw @ r) = Inr (sort_json v, r))"

lemma reads_backD:
  "reads_back fin v \<Longrightarrow> canonicalize ascii d v = Inr raw \<Longrightarrow> boundary r \<Longrightarrow>
     2 * length (raw @ r) < n \<Longrightarrow> parse_value n fin (raw @ r) = Inr (sort_json v, r)"
  by (simp add: reads_back_def)

lemma boundary_simps [simp]:
  "boundary (CHR '','' # r)" "boundary (CHR '']'' # r)" "boundary (CHR ''}'' # r)" "boundary []"
  by (simp_all add: boundary_def)

lemma separators_not_space [simp]:
  "\<not> is_space CHR '',''" "\<not> is_space CHR '']''" "\<not> is_space CHR ''}''" "\<not> is_space CHR '':''" "\<not> is_space CHR 0x22"
  by (simp_all add: is_space_def)

lemma rseq_Inr_length: "rseq rs = Inr xs \<Longrightarrow> length xs = length rs"
  by (induction rs arbitrary: xs) (auto simp: guards)

lemma parse_elements_canonical:
  assumes "rseq (map (canonicalize ascii d) xs) = Inr parts" and "xs \<noteq> []"
    and "\<And>x. x \<in> set xs \<Longrightarrow> reads_back fin x"
    and "2 * length (join_with CHR '','' parts @ CHR '']'' # r) + 1 < n"
  shows "parse_elements n fin (join_with CHR '','' parts @ CHR '']'' # r) = Inr (map sort_json xs, r)"
  using assms
proof (induction xs arbitrary: parts n)
  case Nil
  then show ?case by simp
next
  case (Cons x xs)
  obtain m where n: "n = Suc m" using Cons.prems(4) by (cases n) auto
  obtain t ts where t: "canonicalize ascii d x = Inr t" "rseq (map (canonicalize ascii d) xs) = Inr ts" "parts = t # ts"
    using Cons.prems(1) by (auto simp: guards)
  have rx: "reads_back fin x" using Cons.prems(3) by simp
  show ?case
  proof (cases xs)
    case Nil
    then have "ts = []" using t(2) by simp
    then show ?thesis
      using reads_backD [OF rx t(1), of "CHR '']'' # r" m] Cons.prems(4) t(3) n Nil
      by (simp add: skip_space_char uncons_def)
  next
    case (Cons y ys)
    then obtain u us where u: "ts = u # us" "canonicalize ascii d y = Inr u" using t(2) by (auto simp: guards)
    let ?rest = "join_with CHR '','' ts @ CHR '']'' # r"
    have e: "join_with CHR '','' parts @ CHR '']'' # r = t @ CHR '','' # ?rest"
      using t(3) u(1) by simp
    have "skip_space ?rest = ?rest"
      using skip_space_opens [OF opens_value_canonical [OF u(2)]] u(1) by (cases us) simp_all
    moreover have "parse_elements m fin ?rest = Inr (map sort_json xs, r)"
      using Cons Cons.prems(3,4) t(2) e n by (intro Cons.IH) auto
    ultimately show ?thesis
      using reads_backD [OF rx t(1), of "CHR '','' # ?rest" m] Cons.prems(4) e n
      by (simp add: skip_space_char uncons_def)
  qed
qed

lemma parse_members_canonical:
  assumes "rseq (map (\<lambda>(k, v). rbind (canonicalize ascii d v) (\<lambda>t. Inr (encode_string k @ CHR '':'' # t))) kvs) = Inr parts"
    and "kvs \<noteq> []" and "\<And>p. p \<in> set kvs \<Longrightarrow> reads_back fin (snd p)"
    and "2 * length (join_with CHR '','' parts @ CHR ''}'' # r) < n"
  shows "parse_members n fin (join_with CHR '','' parts @ CHR ''}'' # r) =
    Inr (map (\<lambda>p. (fst p, sort_json (snd p))) kvs, r)"
  using assms
proof (induction kvs arbitrary: parts n)
  case Nil
  then show ?case by simp
next
  case (Cons p kvs)
  obtain m where n: "n = Suc m" using Cons.prems(4) by (cases n) auto
  obtain k v where p: "p = (k, v)" by (cases p)
  obtain t ts where t: "canonicalize ascii d v = Inr t"
    "rseq (map (\<lambda>(k, v). rbind (canonicalize ascii d v) (\<lambda>t. Inr (encode_string k @ CHR '':'' # t))) kvs) = Inr ts"
    "parts = (encode_string k @ CHR '':'' # t) # ts"
    using Cons.prems(1) p by (auto simp: guards)
  have rv: "reads_back fin v" using Cons.prems(3) p by force
  have st: "skip_space (t @ x) = t @ x" for x
    using skip_space_opens [OF opens_value_canonical [OF t(1)]] .
  have key: "scan_string (concat (map (escape_char False) k) @ CHR 0x22 # x) = Inr (k, x)" for x
    by (rule scan_string_encoded)
  show ?case
  proof (cases kvs)
    case Nil
    then have "ts = []" using t(2) by simp
    then show ?thesis
      using reads_backD [OF rv t(1), of "CHR ''}'' # r" m] Cons.prems(4) t(3) n Nil p
      by (simp add: skip_space_char uncons_def encode_string_def quote_text_def key st)
  next
    case (Cons q qs)
    then obtain u us where u: "ts = (CHR 0x22 # u) # us"
      using t(2) by (cases q) (auto simp: guards encode_string_def quote_text_def)
    let ?rest = "join_with CHR '','' ts @ CHR ''}'' # r"
    have e: "join_with CHR '','' parts @ CHR ''}'' # r = encode_string k @ CHR '':'' # t @ CHR '','' # ?rest"
      using t(3) u by simp
    have "skip_space ?rest = ?rest" using u by (cases us) (simp_all add: skip_space_char)
    moreover have "parse_members m fin ?rest = Inr (map (\<lambda>p. (fst p, sort_json (snd p))) kvs, r)"
      using Cons Cons.prems(3,4) t(2) e n by (intro Cons.IH) auto
    ultimately show ?thesis
      using reads_backD [OF rv t(1), of "CHR '','' # ?rest" m] Cons.prems(4) e n p
      by (simp add: skip_space_char uncons_def encode_string_def quote_text_def key st)
  qed
qed

lemma reads_back_scalar:
  "reads_back fin JNull" "reads_back fin (JBool b)" "reads_back fin (JInt i)" "reads_back fin (JStr s)"
  "reads_back fin (JFloat x)" "reads_back fin (JDecimal l)"
proof -
  have scalar: "parse_value n fin s = Inr (v, r)"
    if "parse_scalar fin s = Inr (v, r)" "s = c # s'" "c \<notin> {CHR 0x22, CHR ''{'', CHR ''[''}" "0 < n" for n s v r c s'
    using that by (cases n) (auto simp: uncons_def)
  show "reads_back fin JNull" "reads_back fin (JBool b)"
    by (auto simp: reads_back_def parse_scalar_def starts_def intro!: scalar)
  show "reads_back fin (JInt i)"
    unfolding reads_back_def
  proof (intro allI impI)
    fix ascii d raw n r assume a: "canonicalize ascii d (JInt i) = Inr raw" "boundary r" "2 * length (raw @ r) < n"
    have "\<exists>c cs. int_text i = c # cs \<and> c \<notin> {CHR 0x22, CHR ''{'', CHR ''[''}"
      by (rule nat_text_Cons [of "nat i"]; rule nat_text_Cons [of "nat (- i)"]) (auto simp: int_text_def is_digit_def)
    then obtain c cs where "int_text i = c # cs" "c \<notin> {CHR 0x22, CHR ''{'', CHR ''[''}" by blast
    moreover have i: "raw = int_text i" "\<bar>i\<bar> \<le> MAX_SAFE_INTEGER" using a(1) by (auto split: if_splits)
    ultimately show "parse_value n fin (raw @ r) = Inr (sort_json (JInt i), r)"
      using a(3) scalar [OF parse_scalar_int [OF i(2) a(2)], of c "cs @ r" n] by simp
  qed
  show "reads_back fin (JStr s)"
    unfolding reads_back_def
  proof (intro allI impI)
    fix ascii d raw n r assume a: "canonicalize ascii d (JStr s) = Inr raw" "2 * length (raw @ r) < n"
    obtain m where "n = Suc m" using a(2) by (cases n) auto
    moreover have "raw = encode_string s" using a(1) by (simp add: guards)
    ultimately show "parse_value n fin (raw @ r) = Inr (sort_json (JStr s), r)"
      by (simp add: encode_string_def quote_text_def uncons_def scan_string_encoded)
  qed
qed (simp_all add: reads_back_def)

lemma reads_back_all: "wf_json v \<Longrightarrow> reads_back fin v"
proof (induction v)
  case (JArr xs)
  show ?case
    unfolding reads_back_def
  proof (intro allI impI)
    fix ascii d raw n r assume a: "canonicalize ascii d (JArr xs) = Inr raw" "2 * length (raw @ r) < n"
    obtain m where n: "n = Suc m" using a(2) by (cases n) auto
    obtain parts where p: "rseq (map (canonicalize ascii (Suc d)) xs) = Inr parts" "raw = CHR ''['' # join_with CHR '','' parts @ '']''"
      using a(1) by (auto simp: canonicalize_JArr simp del: canonicalize.simps)
    show "parse_value n fin (raw @ r) = Inr (sort_json (JArr xs), r)"
    proof (cases xs)
      case Nil
      then show ?thesis using p n by (simp add: uncons_def skip_space_char)
    next
      case (Cons x ys)
      then obtain u us where u: "parts = u # us" "canonicalize ascii (Suc d) x = Inr u" using p(1) by (auto simp: guards)
      let ?rest = "join_with CHR '','' parts @ CHR '']'' # r"
      have o: "opens_value u" by (rule opens_value_canonical [OF u(2)])
      have s: "skip_space ?rest = ?rest"
        using skip_space_opens [OF o] u(1) by (cases us) simp_all
      obtain c r' where c: "?rest = c # r'" "c \<noteq> CHR '']''"
        using o u(1) by (cases u; cases us) (auto simp: opens_value_def)
      have "parse_elements m fin ?rest = Inr (map sort_json xs, r)"
        using p a(2) n JArr Cons by (intro parse_elements_canonical [where ascii = ascii and d = "Suc d"]) auto
      with s c p(2) n show ?thesis by (simp add: uncons_def)
    qed
  qed
next
  case (JObj kvs)
  have members: "reads_back fin (snd q)" if "q \<in> set kvs" for q
    using JObj that by (cases q) (auto intro: snds.intros)
  show ?case
    unfolding reads_back_def
  proof (intro allI impI)
    fix ascii d raw n r assume a: "canonicalize ascii d (JObj kvs) = Inr raw" "2 * length (raw @ r) < n"
    obtain m where n: "n = Suc m" using a(2) by (cases n) auto
    let ?kvs = "sort_members kvs"
    obtain parts where p: "rseq (map (\<lambda>(k, v). rbind (canonicalize ascii (Suc d) v)
        (\<lambda>t. Inr (encode_string k @ CHR '':'' # t))) ?kvs) = Inr parts"
        "raw = CHR ''{'' # join_with CHR '','' parts @ ''}''"
      using a(1) by (auto simp: canonicalize_JObj simp del: canonicalize.simps)
    have sorted: "sort_json (JObj kvs) = JObj (map (\<lambda>p. (fst p, sort_json (snd p))) ?kvs)"
      by (simp add: comp_def case_prod_unfold sort_key_fst)
    show "parse_value n fin (raw @ r) = Inr (sort_json (JObj kvs), r)"
    proof (cases "?kvs")
      case Nil
      then show ?thesis using p n sorted by (simp add: uncons_def skip_space_char object_pairs_hook_def)
    next
      case (Cons q qs)
      then obtain u us where u: "parts = (CHR 0x22 # u) # us"
        using p(1) by (cases q) (auto simp: guards encode_string_def quote_text_def)
      let ?rest = "join_with CHR '','' parts @ CHR ''}'' # r"
      obtain r' where c: "?rest = CHR 0x22 # r'" using u by (cases us) auto
      have "distinct (map fst ?kvs)"
        using JObj.prems by (metis distinct_map distinct_sort set_sort wf_json.simps(1))
      moreover have "parse_members m fin ?rest = Inr (map (\<lambda>p. (fst p, sort_json (snd p))) ?kvs, r)"
        by (rule parse_members_canonical [OF p(1)], use Cons in simp, simp add: members, use p(2) a(2) n in simp)
      ultimately show ?thesis
        using c p(2) n sorted by (simp add: uncons_def skip_space_char object_pairs_hook_def comp_def)
    qed
  qed
qed (simp_all add: reads_back_scalar)

section \<open>The checks a canonical text passes\<close>

definition inert :: "char \<Rightarrow> bool" where
  "inert c \<longleftrightarrow> c \<notin> {CHR 0x22, CHR ''['', CHR ''{'', CHR '']'', CHR ''}''}"

lemma prescan_inert: "list_all inert s \<Longrightarrow> prescan d False (s @ r) = prescan d False r"
  by (induction s) (simp_all add: inert_def)

lemma hex_digit_plain: "n < 16 \<Longrightarrow> hex_digit n \<noteq> CHR 0x22 \<and> hex_digit n \<noteq> CHR 0x5C \<and> printable (hex_digit n)"
proof -
  have "list_all (\<lambda>n. hex_digit n \<noteq> CHR 0x22 \<and> hex_digit n \<noteq> CHR 0x5C \<and> printable (hex_digit n)) [0..<16]"
    by code_simp
  then show "n < 16 \<Longrightarrow> hex_digit n \<noteq> CHR 0x22 \<and> hex_digit n \<noteq> CHR 0x5C \<and> printable (hex_digit n)"
    by (simp add: list_all_iff)
qed

lemma prescan_escape: "prescan d True (escape_char False c @ r) = prescan d True r"
proof -
  have "(of_char c :: nat) < 32 \<Longrightarrow> prescan d True (escape_u c @ r) = prescan d True r"
    using hex_digit_plain [of "of_char c div 16"] hex_digit_plain [of "of_char c mod 16"]
    by (simp add: escape_u_def)
  then show ?thesis by (simp add: escape_char_def)
qed

lemma prescan_encoded: "prescan d False (encode_string s @ r) = prescan d False r"
proof -
  have "prescan d True (concat (map (escape_char False) s) @ CHR 0x22 # r) = prescan d False r"
    by (induction s) (simp_all add: prescan_escape)
  then show ?thesis by (simp add: encode_string_def quote_text_def)
qed

lemma prescan_join:
  assumes "\<And>p r. p \<in> set ps \<Longrightarrow> prescan d False (p @ r) = prescan d False r"
  shows "prescan d False (join_with CHR '','' ps @ r) = prescan d False r"
  using assms
proof (induction "CHR '',''" ps rule: join_with.induct)
  case (3 p q ps)
  have "prescan d False (join_with CHR '','' (q # ps) @ r) = prescan d False r"
    by (rule 3) (use 3 in auto)
  then show ?case using "3.prems" by simp
qed simp_all

lemma rseq_map_set: "rseq (map f ys) = Inr xs \<Longrightarrow> x \<in> set xs \<Longrightarrow> \<exists>y \<in> set ys. f y = Inr x"
  by (induction ys arbitrary: xs) (auto simp: guards)

lemma rseq_map_all: "rseq (map f ys) = Inr xs \<Longrightarrow> y \<in> set ys \<Longrightarrow> \<exists>x. f y = Inr x"
  by (induction ys arbitrary: xs) (auto simp: guards)

lemma rseq_map_cong:
  "rseq (map f ys) = Inr xs \<Longrightarrow> (\<And>y x. y \<in> set ys \<Longrightarrow> f y = Inr x \<Longrightarrow> g y = Inr x) \<Longrightarrow> rseq (map g ys) = Inr xs"
  by (induction ys arbitrary: xs) (auto simp: guards)

lemma prescan_int_text: "prescan d False (int_text i @ r) = prescan d False r"
proof (rule prescan_inert)
  have "is_digit c \<Longrightarrow> inert c" for c by (auto simp: is_digit_def inert_def)
  then have "list_all inert (nat_text n)" for n
    using nat_text_digits [of n] by (simp add: list_all_iff)
  then show "list_all inert (int_text i)" by (simp add: int_text_def inert_def)
qed

lemma prescan_canonical:
  "canonicalize ascii (Suc d) v = Inr raw \<Longrightarrow> prescan (int d) False (raw @ r) = prescan (int d) False r"
proof (induction v arbitrary: d raw r)
  case (JArr xs)
  then obtain parts where p: "rseq (map (canonicalize ascii (Suc (Suc d))) xs) = Inr parts"
      "raw = CHR ''['' # join_with CHR '','' parts @ '']''" "Suc d \<le> MAX_JSON_DEPTH"
    by (auto simp: canonicalize_JArr simp del: canonicalize.simps)
  have "prescan (int d + 1) False (t @ x) = prescan (int d + 1) False x" if t: "t \<in> set parts" for t x
  proof -
    obtain y where "y \<in> set xs" "canonicalize ascii (Suc (Suc d)) y = Inr t"
      using rseq_map_set [OF p(1) t] by blast
    then show ?thesis using JArr.IH [of y "Suc d" t x] by (simp add: add.commute)
  qed
  then show ?case using p(2,3) by (simp add: prescan_join)
next
  case (JObj kvs)
  then obtain parts where p: "rseq (map (\<lambda>(k, v). rbind (canonicalize ascii (Suc (Suc d)) v)
        (\<lambda>t. Inr (encode_string k @ CHR '':'' # t))) (sort_members kvs)) = Inr parts"
      "raw = CHR ''{'' # join_with CHR '','' parts @ ''}''" "Suc d \<le> MAX_JSON_DEPTH"
    by (auto simp: canonicalize_JObj simp del: canonicalize.simps)
  have "prescan (int d + 1) False (t @ x) = prescan (int d + 1) False x" if t: "t \<in> set parts" for t x
  proof -
    obtain k v u where "(k, v) \<in> set kvs" "canonicalize ascii (Suc (Suc d)) v = Inr u" "t = encode_string k @ CHR '':'' # u"
      using rseq_map_set [OF p(1) t] by (auto simp: guards)
    then show ?thesis using JObj.IH [of "(k, v)" v "Suc d" u x] by (simp add: prescan_encoded add.commute)
  qed
  then show ?case using p(2,3) by (simp add: prescan_join)
next
  case (JInt i)
  then show ?case by (auto simp: prescan_int_text split: if_splits)
next
  case (JStr s)
  then show ?case by (auto simp: guards prescan_encoded)
qed (auto split: if_splits)

lemma printable_simps [simp]:
  "printable CHR ''{''" "printable CHR ''}''" "printable CHR ''[''" "printable CHR '']''" "printable CHR '',''"
  "printable CHR '':''" "printable CHR 0x22" "printable CHR 0x5C" "printable CHR ''-''"
  by (simp_all add: printable_def)

lemma printable_encoded: "list_all printable s \<Longrightarrow> list_all printable (encode_string s)"
proof -
  have "printable c \<Longrightarrow> list_all printable (escape_char False c)" for c
    by (auto simp: escape_char_def printable_def)
  then show "list_all printable s \<Longrightarrow> list_all printable (encode_string s)"
    by (auto simp: encode_string_def quote_text_def list_all_iff)
qed

lemma printable_int_text: "list_all printable (int_text i)"
proof -
  have "is_digit c \<Longrightarrow> printable c" for c by (auto simp: is_digit_def printable_def)
  then have "list_all printable (nat_text n)" for n
    using nat_text_digits [of n] by (simp add: list_all_iff)
  then show ?thesis by (simp add: int_text_def)
qed

lemma printable_join: "\<forall>p \<in> set ps. list_all printable p \<Longrightarrow> list_all printable (join_with CHR '','' ps)"
  by (induction "CHR '',''" ps rule: join_with.induct) simp_all

lemma check_string_ascii: "check_string True mx s = Inr () \<Longrightarrow> list_all printable s"
  by (simp add: check_string_def split: if_splits)

lemma printable_canonical: "canonicalize True d v = Inr raw \<Longrightarrow> list_all printable raw"
proof (induction v arbitrary: d raw)
  case (JArr xs)
  then obtain parts where p: "rseq (map (canonicalize True (Suc d)) xs) = Inr parts"
      "raw = CHR ''['' # join_with CHR '','' parts @ '']''"
    by (auto simp: canonicalize_JArr simp del: canonicalize.simps)
  have "\<forall>t \<in> set parts. list_all printable t"
    using rseq_map_set [OF p(1)] JArr.IH by blast
  then show ?case using p(2) by (simp add: printable_join)
next
  case (JObj kvs)
  then obtain parts where p: "rseq (map (\<lambda>(k, v). rbind (canonicalize True (Suc d) v)
        (\<lambda>t. Inr (encode_string k @ CHR '':'' # t))) (sort_members kvs)) = Inr parts"
      "raw = CHR ''{'' # join_with CHR '','' parts @ ''}''"
      "\<forall>(k, v) \<in> set kvs. check_string True MAX_JSON_STRING_BYTES k = Inr ()"
    by (auto simp: canonicalize_JObj simp del: canonicalize.simps)
  have "list_all printable t" if t: "t \<in> set parts" for t
  proof -
    obtain k v u where "(k, v) \<in> set kvs" "canonicalize True (Suc d) v = Inr u" "t = encode_string k @ CHR '':'' # u"
      using rseq_map_set [OF p(1) t] by (auto simp: guards)
    then show ?thesis
      using JObj.IH [of "(k, v)" v "Suc d" u] p(3) by (auto intro!: printable_encoded dest: check_string_ascii)
  qed
  then show ?case using p(2) by (simp add: printable_join)
next
  case (JInt i)
  then show ?case by (auto simp: printable_int_text split: if_splits)
next
  case (JStr s)
  then show ?case by (auto simp: guards printable_encoded dest: check_string_ascii)
qed (auto simp: printable_def split: if_splits)

lemma valid_utf8_printable: "list_all printable s \<Longrightarrow> valid_utf8 s"
  by (induction s) (auto simp: printable_def)

lemma checked_tree_canonical:
  "canonicalize ascii d v = Inr raw \<Longrightarrow> checked_tree ascii MAX_JSON_STRING_BYTES d (sort_json v) = Inr ()"
proof (induction v arbitrary: d raw)
  case (JArr xs)
  then obtain parts where p: "rseq (map (canonicalize ascii (Suc d)) xs) = Inr parts"
      "d \<le> MAX_JSON_DEPTH" "length xs \<le> MAX_JSON_ARRAY_ITEMS"
    by (auto simp: canonicalize_JArr simp del: canonicalize.simps)
  have "\<exists>t. canonicalize ascii (Suc d) x = Inr t" if "x \<in> set xs" for x
    using rseq_map_all [OF p(1) that] .
  then show ?case using p JArr.IH by (auto simp: guards)
next
  case (JObj kvs)
  then obtain parts where p: "rseq (map (\<lambda>(k, v). rbind (canonicalize ascii (Suc d) v)
        (\<lambda>t. Inr (encode_string k @ CHR '':'' # t))) (sort_members kvs)) = Inr parts"
      "d \<le> MAX_JSON_DEPTH" "\<forall>(k, v) \<in> set kvs. check_string ascii MAX_JSON_STRING_BYTES k = Inr ()"
    by (auto simp: canonicalize_JObj simp del: canonicalize.simps)
  have "\<exists>t. canonicalize ascii (Suc d) v = Inr t" if "(k, v) \<in> set kvs" for k v
    using rseq_map_all [OF p(1), of "(k, v)"] that by (auto simp: guards)
  then have "checked_tree ascii MAX_JSON_STRING_BYTES (Suc d) (sort_json v) = Inr ()" if "(k, v) \<in> set kvs" for k v
    using JObj.IH [of "(k, v)" v "Suc d"] that by fastforce
  then show ?case using p(2,3) by (auto simp: guards)
qed (auto simp: guards split: if_splits)

lemma sort_key_sorted: "sorted (map f xs) \<Longrightarrow> sort_key f xs = xs"
  by (induction xs) (simp_all add: insort_is_Cons)

lemma sort_json_JObj:
  "sort_json (JObj kvs) = JObj (map (\<lambda>p. (fst p, sort_json (snd p))) (sort_members kvs))"
  by (simp add: comp_def case_prod_unfold sort_key_fst)

lemma canonicalize_sorted: "canonicalize ascii d v = Inr raw \<Longrightarrow> canonicalize ascii d (sort_json v) = Inr raw"
proof (induction v arbitrary: d raw)
  case (JArr xs)
  then obtain parts where p: "rseq (map (canonicalize ascii (Suc d)) xs) = Inr parts" "d \<le> MAX_JSON_DEPTH"
      "length xs \<le> MAX_JSON_ARRAY_ITEMS" "raw = CHR ''['' # join_with CHR '','' parts @ '']''"
    by (auto simp: canonicalize_JArr simp del: canonicalize.simps)
  have "rseq (map (\<lambda>x. canonicalize ascii (Suc d) (sort_json x)) xs) = Inr parts"
    by (rule rseq_map_cong [OF p(1) JArr.IH])
  then show ?case using p(2-4) by (simp add: comp_def)
next
  case (JObj kvs)
  let ?part = "\<lambda>p. rbind (canonicalize ascii (Suc d) (snd p)) (\<lambda>t. Inr (encode_string (fst p) @ CHR '':'' # t))"
  let ?sorted = "map (\<lambda>p. (fst p, sort_json (snd p))) (sort_members kvs)"
  obtain parts where p: "rseq (map ?part (sort_members kvs)) = Inr parts"
      "raw = CHR ''{'' # join_with CHR '','' parts @ ''}''" "d \<le> MAX_JSON_DEPTH"
      "\<forall>(k, v) \<in> set kvs. check_string ascii MAX_JSON_STRING_BYTES k = Inr ()"
    using JObj.prems by (auto simp: canonicalize_JObj case_prod_unfold simp del: canonicalize.simps)
  have "sort_members ?sorted = ?sorted"
    by (rule sort_key_sorted) (simp add: comp_def)
  moreover have "rseq (map (\<lambda>p. ?part (fst p, sort_json (snd p))) (sort_members kvs)) = Inr parts"
  proof (rule rseq_map_cong [OF p(1)])
    fix y x assume "y \<in> set (sort_members kvs)" "?part y = Inr x"
    then show "?part (fst y, sort_json (snd y)) = Inr x"
      using JObj.IH [of y "snd y" "Suc d"] by (auto simp: guards snds.intros)
  qed
  ultimately show ?case
    unfolding sort_json_JObj canonicalize_JObj using p(2-4)
    by (auto simp: comp_def case_prod_unfold intro!: exI [of _ parts])
qed auto

lemma parse_canonical:
  assumes "wf_json v" "canonical_json True v = Inr raw" "int (length raw) \<le> max_bytes" "max_bytes \<le> MAX_JSON_DOCUMENT_BYTES"
  shows "parse_integers raw max_bytes True = Inr (sort_json v)"
proof -
  have c: "canonicalize True (Suc 0) v = Inr raw" using assms(2) by (simp add: canonical_json_def)
  have o: "opens_value raw" by (rule opens_value_canonical [OF c])
  then have ne: "raw \<noteq> []" by (simp add: opens_value_def)
  have pr: "list_all printable raw" by (rule printable_canonical [OF c])
  then have "take 3 raw \<noteq> [CHR 0xEF, CHR 0xBB, CHR 0xBF]"
    by (cases raw) (auto simp: printable_def)
  moreover have "prescan_depth raw = Inr ()"
    using prescan_canonical [of True 0 v raw "[]"] c by (simp add: prescan_depth_def)
  moreover have "loads False raw = Inr (sort_json v)"
    using reads_backD [OF reads_back_all [OF assms(1)] c, of "[]" "Suc (2 * length raw)" False] skip_space_opens [OF o, of "[]"]
    by (simp add: loads_def skip_space_def del: parse_value.simps)
  moreover have "postwalk True MAX_JSON_STRING_BYTES (sort_json v) = Inr (sort_json v)"
    using checked_tree_canonical [OF c] by (simp add: postwalk_eq)
  moreover have "1 \<le> max_bytes" using assms(3) ne by (cases raw) auto
  ultimately show ?thesis
    using assms(3,4) pr valid_utf8_printable [OF pr]
    by (simp add: parse_json_def MAX_JSON_STRING_BYTES_def MAX_JSON_DOCUMENT_BYTES_def)
qed

text \<open>
  C9: the canonical encoding round-trips.  Any document (objects with distinct keys) that the
  ASCII canonical encoder accepts is read back by the strict parser, within any byte bound it
  fits, as the same document with its keys in canonical order, and encoding that again gives
  the same bytes.
\<close>
theorem canonical_roundtrip:
  assumes "wf_json v" "canonical_json True v = Inr raw" "int (length raw) \<le> max_bytes"
    "max_bytes \<le> MAX_JSON_DOCUMENT_BYTES"
  shows "parse_integers raw max_bytes True = Inr (sort_json v) \<and> canonical_json True (sort_json v) = Inr raw"
  using parse_canonical [OF assms] canonicalize_sorted assms(2) by (simp add: canonical_json_def)

text \<open>Evaluation of the encoder on concrete documents.\<close>

lemmas canonical_eval = canonical_json_def check_string_def encode_string_def quote_text_def escape_char_def
  printable_def int_text_def nat_text.simps digit_char_def MAX_SAFE_INTEGER_def MAX_JSON_DEPTH_def
  MAX_JSON_ARRAY_ITEMS_def MAX_JSON_STRING_BYTES_def sort_key_def

definition sample_document :: json where
  "sample_document = JObj [(''z'', JArr [JInt (-7), JBool True]), (''a'', JObj []), (''b'', JStr ''x/y'')]"

theorem canonical_roundtrip_witness:
  \<open>parse_integers ''{"a":{},"b":"x/y","z":[-7,true]}'' 4096 True = Inr (sort_json sample_document)\<close>
proof -
  have "wf_json sample_document" by code_simp
  moreover have \<open>canonical_json True sample_document = Inr ''{"a":{},"b":"x/y","z":[-7,true]}''\<close>
    by (simp add: sample_document_def canonical_eval)
  ultimately show ?thesis
    using canonical_roundtrip [of sample_document _ 4096] by (simp add: MAX_JSON_DOCUMENT_BYTES_def)
qed

end
