(* ===== verification/JsonCodec.thy ===== *)
theory JsonCodec
  imports JsonParse
begin

text \<open>
  The pattern of every record codec of the package: a JSON object is checked field by field
  and encoded canonically; decoding parses the bytes, repeats the check and requires that the
  canonical encoding gives the same bytes.  The contract is the locale
  \<open>canonical_codec\<close>; each codec of the development interprets it with its own check.
\<close>

section \<open>Field access and the order of keys\<close>

named_theorems sorted_checks \<open>the checks do not see the order of keys\<close>

lemma map_of_sorted:
  assumes "distinct (map fst kvs)"
  shows "map_of (sort_members kvs) = map_of kvs"
proof -
  have "distinct (map fst (sort_members kvs))"
    using assms by (metis distinct_map distinct_sort set_sort)
  with assms show ?thesis by (simp add: map_of_inject_set)
qed

lemma fld_sorted [sorted_checks]: "wf_json v \<Longrightarrow> fld (sort_json v) k = sort_json (fld v k)"
proof (cases v)
  case (JObj kvs)
  assume "wf_json v"
  then have "map_of (map (\<lambda>p. (fst p, sort_json (snd p))) (sort_members kvs)) k = map_option sort_json (map_of kvs k)"
    using map_of_sorted [of kvs] JObj by (simp add: map_of_map [of sort_json, unfolded case_prod_unfold])
  then show ?thesis by (simp add: JObj sort_json_JObj fld_def split: option.splits del: sort_json.simps(1))
qed (simp_all add: fld_def)

lemma wf_fld: "wf_json v \<Longrightarrow> wf_json (fld v k)"
  by (cases v) (auto simp: fld_def split: option.splits dest: map_of_SomeD)

lemma has_keys_sorted [sorted_checks]: "has_keys ks (sort_json v) = has_keys ks v"
  by (cases v) (simp_all add: has_keys_def image_image case_prod_unfold)

lemma scalar_sorted [sorted_checks]:
  "jstr_in xs (sort_json v) = jstr_in xs v" "jstr (sort_json v) = jstr v" "jint (sort_json v) = jint v"
  "(sort_json v = JStr s) = (v = JStr s)" "(sort_json v = JInt i) = (v = JInt i)" "(sort_json v = JNull) = (v = JNull)"
  by (cases v; simp)+

section \<open>Printable documents\<close>

lemma bad_characters_printable: "list_all printable s \<Longrightarrow> \<not> bad_characters s"
  by (induction s) (auto simp: printable_def)

lemma list_all_replicate: "list_all P (replicate n x) \<longleftrightarrow> n = 0 \<or> P x"
  by (induction n) auto

fun printable_json :: "json \<Rightarrow> bool" where
  "printable_json (JStr s) = list_all printable s"
| "printable_json (JArr xs) = list_all printable_json xs"
| "printable_json (JObj kvs) = list_all (\<lambda>p. list_all printable (fst p) \<and> printable_json (snd p)) kvs"
| "printable_json _ = True"

lemma check_string_printable: "list_all printable s \<Longrightarrow> check_string False mx s = check_string True mx s"
  by (simp add: check_string_def)

lemma canonicalize_printable:
  "printable_json v \<Longrightarrow> canonicalize False d v = canonicalize True d v"
proof (induction v arbitrary: d)
  case (JArr xs)
  then have "map (canonicalize False (Suc d)) xs = map (canonicalize True (Suc d)) xs"
    by (simp add: list_all_iff)
  then show ?case by (simp del: map_eq_conv)
next
  case (JObj kvs)
  have "rall (\<lambda>(k, _). check_string False MAX_JSON_STRING_BYTES k) kvs = rall (\<lambda>(k, _). check_string True MAX_JSON_STRING_BYTES k) kvs"
    using JObj.prems by (induction kvs) (simp_all add: check_string_printable split_beta)
  moreover have "map (\<lambda>(k, v). (k, canonicalize False (Suc d) v)) kvs = map (\<lambda>(k, v). (k, canonicalize True (Suc d) v)) kvs"
    using JObj by (intro map_cong) (fastforce simp: list_all_iff)+
  ultimately show ?case by (simp del: map_eq_conv)
qed (simp_all add: check_string_printable)

lemma printable_canonical_json: "printable_json v \<Longrightarrow> canonical_json False v = canonical_json True v"
  by (simp add: canonical_json_def canonicalize_printable)

lemma checked_tree_ascii: "checked_tree True mx d v = Inr () \<Longrightarrow> checked_tree False mx d v = Inr ()"
proof (induction v arbitrary: d)
  case (JObj kvs)
  then show ?case by (fastforce simp: guards check_string_def split: if_splits)
next
  case (JArr xs)
  then show ?case by (fastforce simp: guards split: if_splits)
qed (auto simp: check_string_def split: if_splits)

text \<open>What the ASCII mode accepts, the general mode reads the same way.\<close>

lemma parse_json_ascii: "parse_json data mb fin True ms = Inr v \<Longrightarrow> parse_json data mb fin False ms = Inr v"
  by (auto simp: parse_json_def postwalk_eq guards dest: checked_tree_ascii)

lemma hex_printable: "c \<in> hex_chars \<Longrightarrow> printable c"
  by (auto simp: hex_chars_def printable_def)

lemma uuid_printable:
  assumes "uuid_string s"
  shows "list_all printable s"
proof (unfold list_all_length, intro allI impI)
  fix n
  assume n: "n < length s"
  then have "(n, s ! n) \<in> set (enumerate 0 s)" by (simp add: in_set_enumerate_eq)
  then have "(if n \<in> {8, 13, 18, 23} then s ! n = CHR ''-'' else s ! n \<in> hex_chars)"
    using assms unfolding uuid_string_def list_all_iff by fastforce
  moreover have "printable CHR ''-''" by code_simp
  ultimately show "printable (s ! n)" by (auto simp: hex_printable split: if_splits)
qed

lemma printable_object:
  assumes "has_keys ks v" "list_all (list_all printable) ks" "wf_json v" "\<And>k. k \<in> set ks \<Longrightarrow> printable_json (fld v k)"
  shows "printable_json v"
proof (cases v)
  case (JObj kvs)
  have "list_all printable k \<and> printable_json x" if m: "(k, x) \<in> set kvs" for k x
  proof -
    have "k \<in> set ks" using assms(1) m JObj by (force simp: has_keys_def)
    moreover have "fld v k = x" using assms(3) m JObj by (simp add: fld_def)
    ultimately show ?thesis using assms(2,4) by (auto simp: list_all_iff)
  qed
  then show ?thesis by (auto simp: JObj list_all_iff)
qed (use assms(1) in \<open>simp_all add: has_keys_def\<close>)

section \<open>Documents the encoder accepts\<close>

fun acceptable :: "bool \<Rightarrow> nat \<Rightarrow> json \<Rightarrow> bool" where
  "acceptable ascii d (JInt i) \<longleftrightarrow> \<bar>i\<bar> \<le> MAX_SAFE_INTEGER"
| "acceptable ascii d (JStr s) \<longleftrightarrow> check_string ascii MAX_JSON_STRING_BYTES s = Inr ()"
| "acceptable ascii d (JArr xs) \<longleftrightarrow> d \<le> MAX_JSON_DEPTH \<and> length xs \<le> MAX_JSON_ARRAY_ITEMS \<and> list_all (acceptable ascii (Suc d)) xs"
| "acceptable ascii d (JObj kvs) \<longleftrightarrow> d \<le> MAX_JSON_DEPTH \<and>
     list_all (\<lambda>p. check_string ascii MAX_JSON_STRING_BYTES (fst p) = Inr () \<and> acceptable ascii (Suc d) (snd p)) kvs"
| "acceptable ascii d (JFloat x) \<longleftrightarrow> False"
| "acceptable ascii d (JDecimal t) \<longleftrightarrow> False"
| "acceptable ascii d _ \<longleftrightarrow> True"

text \<open>A bound on the length of the canonical text.\<close>

fun json_size :: "json \<Rightarrow> nat" where
  "json_size (JInt i) = 17"
| "json_size (JStr s) = 6 * length s + 2"
| "json_size (JArr xs) = sum_list (map (\<lambda>x. json_size x + 1) xs) + 2"
| "json_size (JObj kvs) = sum_list (map (\<lambda>p. 6 * length (fst p) + json_size (snd p) + 4) kvs) + 2"
| "json_size _ = 5"

lemma rseq_ex: "(\<And>x. x \<in> set xs \<Longrightarrow> \<exists>y. f x = Inr y) \<Longrightarrow> \<exists>ys. rseq (map f xs) = Inr ys"
proof (induction xs)
  case (Cons x xs)
  then obtain y ys where "f x = Inr y" "rseq (map f xs) = Inr ys" by (metis list.set_intros)
  then show ?case by simp
qed simp

lemma canonicalize_acceptable: "acceptable ascii d v \<Longrightarrow> \<exists>raw. canonicalize ascii d v = Inr raw"
proof (induction v arbitrary: d)
  case (JArr xs)
  then have "\<exists>ps. rseq (map (canonicalize ascii (Suc d)) xs) = Inr ps"
    by (intro rseq_ex) (auto simp: list_all_iff)
  then show ?case using JArr.prems by auto
next
  case (JObj kvs)
  have "\<exists>y. (\<lambda>(k, v). rbind (canonicalize ascii (Suc d) v) (\<lambda>t. Inr (encode_string k @ CHR '':'' # t))) x = Inr y"
    if "x \<in> set (sort_members kvs)" for x
  proof -
    have x: "x \<in> set kvs" using that by simp
    then have "\<exists>t. canonicalize ascii (Suc d) (snd x) = Inr t"
      using JObj.IH [of x "snd x"] JObj.prems by (auto simp: list_all_iff snds.intros)
    then show ?thesis by (auto simp: split_beta)
  qed
  then obtain ps where "rseq (map (\<lambda>(k, v). rbind (canonicalize ascii (Suc d) v)
      (\<lambda>t. Inr (encode_string k @ CHR '':'' # t))) (sort_members kvs)) = Inr ps"
    using rseq_ex [of "sort_members kvs"] by blast
  then show ?case using JObj.prems unfolding canonicalize_JObj by (fastforce simp: list_all_iff)
qed auto

lemma length_encode_string: "length (encode_string s) \<le> 6 * length s + 2"
proof -
  have "length (escape_char False c) \<le> 6" for c by (simp add: escape_char_def escape_u_def)
  then have "length (concat (map (escape_char False) s)) \<le> 6 * length s"
    by (induction s) (simp_all add: add_mono)
  then show ?thesis by (simp add: encode_string_def quote_text_def)
qed

lemma rseq_length_bound:
  assumes "rseq (map f xs) = Inr ys" "\<And>x y. x \<in> set xs \<Longrightarrow> f x = Inr y \<Longrightarrow> length y \<le> g x"
  shows "sum_list (map length ys) + length ys \<le> sum_list (map (\<lambda>x. g x + 1) xs)"
  using assms
proof (induction xs arbitrary: ys)
  case (Cons x xs)
  then obtain z zs where z: "f x = Inr z" "rseq (map f xs) = Inr zs" "ys = z # zs" by (auto simp: guards)
  have "length z \<le> g x" using Cons.prems(2) z(1) by simp
  moreover have "sum_list (map length zs) + length zs \<le> sum_list (map (\<lambda>x. g x + 1) xs)"
    using Cons.IH [OF z(2)] Cons.prems(2) by simp
  ultimately show ?case by (simp add: z(3))
qed simp

lemma canonicalize_size: "canonicalize ascii d v = Inr raw \<Longrightarrow> length raw \<le> json_size v"
proof (induction v arbitrary: d raw)
  case (JInt i)
  then have "length (nat_text (nat \<bar>i\<bar>)) \<le> 16" by (intro nat_text_safe) (auto split: if_splits)
  with JInt show ?case by (auto simp: int_text_def split: if_splits)
next
  case (JStr s)
  then show ?case using length_encode_string [of s] by (auto simp: guards)
next
  case (JArr xs)
  then obtain ps where p: "rseq (map (canonicalize ascii (Suc d)) xs) = Inr ps" "raw = CHR ''['' # join_with CHR '','' ps @ '']''"
    by (auto simp: canonicalize_JArr simp del: canonicalize.simps)
  have "sum_list (map length ps) + length ps \<le> sum_list (map (\<lambda>x. json_size x + 1) xs)"
    using p(1) JArr.IH by (intro rseq_length_bound)
  then show ?case unfolding p(2) by (simp add: length_join_with)
next
  case (JObj kvs)
  obtain ps where p: "rseq (map (\<lambda>(k, v). rbind (canonicalize ascii (Suc d) v) (\<lambda>t. Inr (encode_string k @ CHR '':'' # t))) (sort_members kvs)) = Inr ps"
      "raw = CHR ''{'' # join_with CHR '','' ps @ ''}''"
    using JObj.prems unfolding canonicalize_JObj by blast
  have "sum_list (map length ps) + length ps \<le> sum_list (map (\<lambda>x. (6 * length (fst x) + json_size (snd x) + 3) + 1) (sort_members kvs))"
    using p(1)
  proof (rule rseq_length_bound)
    fix x y assume x: "x \<in> set (sort_members kvs)"
      "(\<lambda>(k, v). rbind (canonicalize ascii (Suc d) v) (\<lambda>t. Inr (encode_string k @ CHR '':'' # t))) x = Inr y"
    then obtain t where "canonicalize ascii (Suc d) (snd x) = Inr t" "y = encode_string (fst x) @ CHR '':'' # t"
      by (auto simp: guards split_beta)
    then show "length y \<le> 6 * length (fst x) + json_size (snd x) + 3"
      using JObj.IH [of x "snd x" "Suc d" t] x(1) length_encode_string [of "fst x"] by (simp add: snds.intros)
  qed
  also have "\<dots> = sum_list (map (\<lambda>x. (6 * length (fst x) + json_size (snd x) + 3) + 1) kvs)" by (rule sum_list_sort_key)
  finally show ?case unfolding p(2) by (simp add: length_join_with add_ac)
qed (auto split: if_splits)

lemma acceptable_canonical:
  assumes "acceptable ascii 1 v"
  obtains raw where "canonical_json ascii v = Inr raw" "length raw \<le> json_size v"
  using canonicalize_acceptable [OF assms] canonicalize_size by (auto simp: canonical_json_def)

lemma check_string_fits: "list_all printable s \<Longrightarrow> length s \<le> mx \<Longrightarrow> check_string ascii mx s = Inr ()"
  by (simp add: check_string_def bad_characters_printable)

section \<open>The contract\<close>

locale canonical_codec =
  fixes check :: "json \<Rightarrow> unit res" and ascii :: bool and bound :: nat
  assumes check_sorted: "wf_json v \<Longrightarrow> check (sort_json v) = check v"
    and check_printable: "wf_json v \<Longrightarrow> ascii \<or> (check v = Inr () \<longrightarrow> printable_json v)"
    and bound_document: "int bound \<le> MAX_JSON_DOCUMENT_BYTES"
begin

lemma canonical_ascii:
  assumes "wf_json v" "check v = Inr ()" "canonical_json ascii v = Inr raw"
  shows "canonical_json True v = Inr raw"
  using assms check_printable [of v] by (cases ascii) (auto simp: printable_canonical_json)

lemma read_back:
  assumes "wf_json v" "check v = Inr ()" "canonical_json ascii v = Inr raw" "length raw \<le> bound"
  shows "parse_integers raw (int bound) ascii = Inr (sort_json v)" "check (sort_json v) = Inr ()"
    "canonical_json ascii (sort_json v) = Inr raw"
proof -
  have c: "canonical_json True v = Inr raw" by (rule canonical_ascii [OF assms(1-3)])
  have p: "parse_integers raw (int bound) True = Inr (sort_json v)"
    by (rule parse_canonical [OF assms(1) c]) (use assms(4) bound_document in simp_all)
  then show "parse_integers raw (int bound) ascii = Inr (sort_json v)"
    by (cases ascii) (simp_all add: parse_json_ascii)
  show "check (sort_json v) = Inr ()" using assms(1,2) by (simp add: check_sorted)
  show "canonical_json ascii (sort_json v) = Inr raw"
    using assms(3) canonicalize_sorted by (simp add: canonical_json_def)
qed

end

end
