(* ===== verification/Calendar.thy ===== *)
theory Calendar
  imports Prelude
begin

text \<open>
  The part of \<open>datetime\<close> the package uses.  An aware UTC \<open>datetime\<close> is the number of
  microseconds since 0001-01-01T00:00:00Z; a date is its day number (day 0 is 0001-01-01, a
  Monday).  Year, month and day follow the standard library's \<open>_ord2ymd\<close>.
\<close>

definition HOUR_US :: int where "HOUR_US = 3600 * 1000000"
definition DAY_US :: int where "DAY_US = 24 * HOUR_US"

definition day_of :: "int \<Rightarrow> int" where
  "day_of t = t div DAY_US"

definition hour_of :: "int \<Rightarrow> int" where
  "hour_of t = t mod DAY_US div HOUR_US"

text \<open>Minute, second and microsecond are all zero.\<close>

definition on_the_hour :: "int \<Rightarrow> bool" where
  "on_the_hour t \<longleftrightarrow> t mod HOUR_US = 0"

definition weekday :: "int \<Rightarrow> int" where
  "weekday t = day_of t mod 7"

definition is_leap :: "int \<Rightarrow> bool" where
  "is_leap y \<longleftrightarrow> y mod 4 = 0 \<and> (y mod 100 \<noteq> 0 \<or> y mod 400 = 0)"

definition month_lengths :: "bool \<Rightarrow> int list" where
  "month_lengths leap = [31, if leap then 29 else 28, 31, 30, 31, 30, 31, 31, 30, 31, 30, 31]"

fun month_day :: "int \<Rightarrow> int \<Rightarrow> int list \<Rightarrow> int \<times> int" where
  "month_day m d [] = (m, d + 1)"
| "month_day m d (l # ls) = (if d < l then (m, d + 1) else month_day (m + 1) (d - l) ls)"

definition year_and_yday :: "int \<Rightarrow> int \<times> int" where
  "year_and_yday n =
     (let n400 = n div 146097; n = n mod 146097; n100 = n div 36524; n = n mod 36524;
          n4 = n div 1461; n = n mod 1461; n1 = n div 365; n = n mod 365;
          y = n400 * 400 + n100 * 100 + n4 * 4 + n1 + 1
      in if n1 = 4 \<or> n100 = 4 then (y - 1, 365) else (y, n))"

definition year_of :: "int \<Rightarrow> int" where
  "year_of t = fst (year_and_yday (day_of t))"

definition ymd :: "int \<Rightarrow> int \<times> int \<times> int" where
  "ymd n = (let (y, yd) = year_and_yday n in (y, month_day 1 yd (month_lengths (is_leap y))))"

fun padded :: "nat \<Rightarrow> int \<Rightarrow> string" where
  "padded 0 n = []"
| "padded (Suc w) n = padded w (n div 10) @ [''0123456789'' ! nat (n mod 10)]"

text \<open>\<open>date.isoformat()\<close> of the date of an instant.\<close>

definition iso_date :: "int \<Rightarrow> string" where
  "iso_date t = (case ymd (day_of t) of (y, m, d) \<Rightarrow> padded 4 y @ ''-'' @ padded 2 m @ ''-'' @ padded 2 d)"

lemma day_of_shift:
  assumes "DAY_US dvd w" "0 \<le> h" "h < DAY_US"
  shows "day_of (w + h) = day_of w" "(w + h) mod DAY_US = h" "day_of w * DAY_US = w"
proof -
  obtain k where "w = DAY_US * k" using assms(1) by (rule dvdE)
  then show "day_of (w + h) = day_of w" "(w + h) mod DAY_US = h" "day_of w * DAY_US = w"
    using assms(2,3) by (simp_all add: day_of_def DAY_US_def HOUR_US_def)
qed

section \<open>Timestamps\<close>

text \<open>
  The text \<open>%Y-%m-%dT%H:%M:%S.%fZ\<close>.  \<open>strftime\<close> pads the years below 1000 with zeros on
  some platforms and not on others, so that choice is a parameter.
\<close>

definition days_before_year :: "int \<Rightarrow> int" where
  "days_before_year y = (let y = y - 1 in y * 365 + y div 4 - y div 100 + y div 400)"

definition days_before_month :: "int \<Rightarrow> int \<Rightarrow> int" where
  "days_before_month y m = sum_list (take (nat (m - 1)) (month_lengths (is_leap y)))"

definition date_ordinal :: "int \<Rightarrow> int \<Rightarrow> int \<Rightarrow> int" where
  "date_ordinal y m d = days_before_year y + days_before_month y m + d - 1"

definition valid_date :: "int \<Rightarrow> int \<Rightarrow> int \<Rightarrow> bool" where
  "valid_date y m d \<longleftrightarrow> 1 \<le> y \<and> y \<le> 9999 \<and> 1 \<le> m \<and> m \<le> 12 \<and> 1 \<le> d \<and>
     d \<le> month_lengths (is_leap y) ! nat (m - 1)"

definition number_at :: "nat \<Rightarrow> nat \<Rightarrow> string \<Rightarrow> int" where
  "number_at i w s = foldl (\<lambda>n c. n * 10 + (int (of_char c) - 48)) 0 (take w (drop i s))"

text \<open>The pattern \<open>_TIME\<close>: digits with separators at fixed places.\<close>

definition time_template :: string where
  "time_template = ''dddd-dd-ddTdd:dd:dd.ddddddZ''"

definition time_shape :: "string \<Rightarrow> bool" where
  "time_shape s \<longleftrightarrow> length s = length time_template \<and>
     list_all2 (\<lambda>p c. if p = CHR ''d'' then is_digit c else c = p) time_template s"

definition strptime :: "string \<Rightarrow> int option" where
  "strptime s =
     (let y = number_at 0 4 s; m = number_at 5 2 s; d = number_at 8 2 s;
          hh = number_at 11 2 s; mm = number_at 14 2 s; ss = number_at 17 2 s; us = number_at 20 6 s
      in if time_shape s \<and> valid_date y m d \<and> hh < 24 \<and> mm < 60 \<and> ss < 60
         then Some (date_ordinal y m d * DAY_US + ((hh * 60 + mm) * 60 + ss) * 1000000 + us)
         else None)"

definition year_text :: "bool \<Rightarrow> int \<Rightarrow> string" where
  "year_text pads y =
     (if pads \<or> 1000 \<le> y then padded 4 y else if 100 \<le> y then padded 3 y
      else if 10 \<le> y then padded 2 y else padded 1 y)"

definition strftime :: "bool \<Rightarrow> int \<Rightarrow> string" where
  "strftime pads t =
     (let (y, m, d) = ymd (day_of t); s = t mod DAY_US div 1000000
      in year_text pads y @ ''-'' @ padded 2 m @ ''-'' @ padded 2 d @ ''T'' @
         padded 2 (s div 3600) @ '':'' @ padded 2 (s div 60 mod 60) @ '':'' @ padded 2 (s mod 60) @ ''.'' @
         padded 6 (t mod 1000000) @ ''Z'')"

section \<open>Dates and ordinals\<close>

lemma quotient_parts:
  assumes "n = k * q + r" "0 \<le> r" "r < (k :: int)"
  shows "n div k = q" "n mod k = r"
  using assms by simp_all

lemma mod_zero_at_end:
  assumes "1 \<le> r" "r \<le> (k :: int)"
  shows "(k * q + r) mod k = 0 \<longleftrightarrow> r = k"
proof (cases "r = k")
  case True
  then show ?thesis by simp
next
  case False
  then have "r < k" "0 \<le> r" using assms by simp_all
  with False assms show ?thesis using quotient_parts(2) [OF refl, of r k q] by simp
qed

lemma leap_of_parts:
  assumes "0 \<le> b" "b \<le> 3" "0 \<le> c" "c \<le> 24" "0 \<le> e" "e \<le> 3"
  shows "is_leap (400 * a + 100 * b + 4 * c + e + 1) \<longleftrightarrow> e = 3 \<and> (c \<noteq> 24 \<or> b = 3)" (is "is_leap ?y \<longleftrightarrow> _")
proof -
  have y4: "?y = 4 * (100 * a + 25 * b + c) + (e + 1)" and y100: "?y = 100 * (4 * a + b) + (4 * c + e + 1)"
    and y400: "?y = 400 * a + (100 * b + 4 * c + e + 1)"
    by (simp_all add: algebra_simps)
  have m4: "?y mod 4 = 0 \<longleftrightarrow> e + 1 = 4" unfolding y4 using assms by (intro mod_zero_at_end) linarith+
  have m100: "?y mod 100 = 0 \<longleftrightarrow> 4 * c + e + 1 = 100" unfolding y100 using assms by (intro mod_zero_at_end) linarith+
  have m400: "?y mod 400 = 0 \<longleftrightarrow> 100 * b + 4 * c + e + 1 = 400" unfolding y400 using assms by (intro mod_zero_at_end) linarith+
  show ?thesis unfolding is_leap_def m4 m100 m400 using assms by linarith
qed

lemma year_of_parts:
  assumes "0 \<le> b" "b \<le> 3" "0 \<le> c" "c \<le> 24" "0 \<le> e" "e \<le> 3" "0 \<le> yd"
    "yd < (if e = 3 \<and> (c \<noteq> 24 \<or> b = 3) then 366 else 365)"
  shows "year_and_yday (146097 * a + 36524 * b + 1461 * c + 365 * e + yd) = (400 * a + 100 * b + 4 * c + e + 1, yd)"
proof -
  let ?n = "146097 * a + 36524 * b + 1461 * c + 365 * e + yd"
  let ?n1 = "36524 * b + 1461 * c + 365 * e + yd"
  have "?n1 < 146097" using assms by (auto split: if_splits)
  then have q1: "?n div 146097 = a" "?n mod 146097 = ?n1"
    using assms by (intro quotient_parts; simp)+
  have q2: "?n1 div 36524 = b" "?n1 mod 36524 = 1461 * c + 365 * e + yd"
      "(1461 * c + 365 * e + yd) div 1461 = c" "(1461 * c + 365 * e + yd) mod 1461 = 365 * e + yd"
    if "1461 * c + 365 * e + yd < 36524" "365 * e + yd < 1461"
    using assms that by (intro quotient_parts; simp)+
  consider "yd < 365" | "yd = 365" "e = 3" "c \<noteq> 24" | "yd = 365" "e = 3" "c = 24" "b = 3"
    using assms(8) by (cases "yd < 365") (auto split: if_splits)
  then show ?thesis
  proof cases
    case 1
    have b: "1461 * c + 365 * e + yd < 36524" "365 * e + yd < 1461" using 1 assms by auto
    have q3: "(365 * e + yd) div 365 = e" "(365 * e + yd) mod 365 = yd"
      using 1 assms by (intro quotient_parts; simp)+
    show ?thesis
      unfolding year_and_yday_def Let_def q1 q2 [OF b] q3 using assms(2,6) by simp
  next
    case 2
    have b: "1461 * c + 365 * e + yd < 36524" "365 * e + yd < 1461" using 2 assms by auto
    have q3: "(365 * e + yd) div 365 = 4" using 2 by simp
    show ?thesis
      unfolding year_and_yday_def Let_def q1 q2 [OF b] q3 using 2 by simp
  next
    case 3
    show ?thesis unfolding year_and_yday_def Let_def q1 unfolding 3 by simp
  qed
qed

lemma year_round_trip:
  assumes "0 \<le> yd" "yd < (if is_leap y then 366 else 365)"
  shows "year_and_yday (days_before_year y + yd) = (y, yd)"
proof -
  define a b c e where "a = (y - 1) div 400" and "b = (y - 1) mod 400 div 100" and
    "c = (y - 1) mod 100 div 4" and "e = (y - 1) mod 4"
  have "(y - 1) mod 400 < 400" "(y - 1) mod 100 < 100" "(y - 1) mod 4 < 4" "0 \<le> (y - 1) mod 400" "0 \<le> (y - 1) mod 100"
    "0 \<le> (y - 1) mod 4" by simp_all
  then have r: "0 \<le> b" "b \<le> 3" "0 \<le> c" "c \<le> 24" "0 \<le> e" "e \<le> 3"
    unfolding b_def c_def e_def by linarith+
  have "(y - 1) mod 400 mod 100 = (y - 1) mod 100" "(y - 1) mod 100 mod 4 = (y - 1) mod 4"
    by (simp_all add: mod_mod_cancel)
  then have "y - 1 = 400 * a + (y - 1) mod 400" "(y - 1) mod 400 = 100 * b + (y - 1) mod 100" "(y - 1) mod 100 = 4 * c + e"
    unfolding a_def b_def c_def e_def by (metis mult_div_mod_eq)+
  then have y: "y = 400 * a + 100 * b + 4 * c + e + 1" by linarith
  have e4: "y - 1 = 4 * (100 * a + 25 * b + c) + e" and e100: "y - 1 = 100 * (4 * a + b) + (4 * c + e)"
    by (subst y, simp add: algebra_simps)+
  have q4: "(y - 1) div 4 = 100 * a + 25 * b + c"
    by (rule quotient_parts(1) [OF e4]) (use r in auto)
  have q100: "(y - 1) div 100 = 4 * a + b"
    by (rule quotient_parts(1) [OF e100]) (use r in auto)
  have q400: "(y - 1) div 400 = a" by (simp add: a_def)
  have n: "days_before_year y = 146097 * a + 36524 * b + 1461 * c + 365 * e"
    unfolding days_before_year_def Let_def q4 q100 q400 using y by simp
  have "yd < (if e = 3 \<and> (c \<noteq> 24 \<or> b = 3) then 366 else 365)"
    using assms(2) leap_of_parts [OF r, of a, folded y] by simp
  from year_of_parts [OF r assms(1) this, of a, folded y] show ?thesis unfolding n .
qed

lemma month_day_sum:
  assumes "k < length ls" "\<forall>l \<in> set ls. 0 \<le> l" "0 \<le> d" "d < ls ! k"
  shows "month_day m (sum_list (take k ls) + d) ls = (m + int k, d + 1) \<and>
    sum_list (take k ls) + d < sum_list ls \<and> 0 \<le> sum_list (take k ls)"
  using assms
proof (induction ls arbitrary: k m)
  case Nil
  then show ?case by simp
next
  case (Cons l ls)
  have nonneg: "0 \<le> sum_list ls" using Cons.prems(2) by (simp add: sum_list_nonneg)
  show ?case
  proof (cases k)
    case 0
    then show ?thesis using Cons.prems nonneg by simp
  next
    case (Suc j)
    then have "month_day (m + 1) (sum_list (take j ls) + d) ls = (m + 1 + int j, d + 1) \<and>
        sum_list (take j ls) + d < sum_list ls \<and> 0 \<le> sum_list (take j ls)"
      using Cons.prems by (intro Cons.IH) auto
    then show ?thesis using Suc Cons.prems(2,3) by (auto simp: add.assoc)
  qed
qed

lemma month_round_trip:
  assumes "1 \<le> m" "m \<le> 12" "1 \<le> d" "d \<le> month_lengths leap ! nat (m - 1)"
  shows "month_day 1 (sum_list (take (nat (m - 1)) (month_lengths leap)) + (d - 1)) (month_lengths leap) = (m, d)"
    "sum_list (take (nat (m - 1)) (month_lengths leap)) + (d - 1) < (if leap then 366 else 365)"
    "0 \<le> sum_list (take (nat (m - 1)) (month_lengths leap))"
proof -
  have "length (month_lengths leap) = 12" "\<forall>l \<in> set (month_lengths leap). 0 \<le> l"
    "sum_list (month_lengths leap) = (if leap then 366 else 365)"
    by (simp_all add: month_lengths_def)
  moreover have "nat (m - 1) < 12" using assms(1,2) by linarith
  ultimately show "month_day 1 (sum_list (take (nat (m - 1)) (month_lengths leap)) + (d - 1)) (month_lengths leap) = (m, d)"
    "sum_list (take (nat (m - 1)) (month_lengths leap)) + (d - 1) < (if leap then 366 else 365)"
    "0 \<le> sum_list (take (nat (m - 1)) (month_lengths leap))"
    using month_day_sum [of "nat (m - 1)" "month_lengths leap" "d - 1" 1] assms by simp_all
qed

text \<open>The calendar is a bijection: the date of the ordinal of a valid date is that date.\<close>

lemma ymd_date_ordinal:
  assumes "valid_date y m d"
  shows "ymd (date_ordinal y m d) = (y, m, d)"
proof -
  let ?yd = "days_before_month y m + (d - 1)"
  have v: "1 \<le> m" "m \<le> 12" "1 \<le> d" "d \<le> month_lengths (is_leap y) ! nat (m - 1)"
    using assms by (auto simp: valid_date_def)
  note r = month_round_trip [OF v]
  have "year_and_yday (days_before_year y + ?yd) = (y, ?yd)"
    by (rule year_round_trip) (use r v in \<open>simp_all add: days_before_month_def\<close>)
  then show ?thesis using r(1) by (simp add: ymd_def date_ordinal_def days_before_month_def add_diff_eq [symmetric] add.assoc)
qed

text \<open>A text that reads as an instant is printed back unchanged.\<close>

lemma digit_value: "is_digit c \<Longrightarrow> digits ! nat (int (of_char c) - 48) = c \<and> 48 \<le> (of_char c :: nat) \<and> of_char c < (58 :: nat)"
  by (auto simp: is_digit_def)

lemma padded_read:
  assumes "list_all is_digit ds"
  shows "padded (length ds) (foldl (\<lambda>n c. n * 10 + (int (of_char c) - 48)) 0 ds) = ds \<and>
    0 \<le> foldl (\<lambda>n c. n * 10 + (int (of_char c) - 48)) 0 ds \<and>
    foldl (\<lambda>n c. n * 10 + (int (of_char c) - 48)) 0 ds < 10 ^ length ds"
  using assms
proof (induction ds rule: rev_induct)
  case Nil
  then show ?case by simp
next
  case (snoc c ds)
  then have c: "digits ! nat (int (of_char c) - 48) = c" "48 \<le> (of_char c :: nat)" "of_char c < (58 :: nat)"
    using digit_value by auto
  let ?n = "foldl (\<lambda>n c. n * 10 + (int (of_char c) - 48)) 0 ds"
  have d: "0 \<le> int (of_char c) - 48" "int (of_char c) - 48 < 10" using c(2,3) by linarith+
  then have "(?n * 10 + (int (of_char c) - 48)) div 10 = ?n" "(?n * 10 + (int (of_char c) - 48)) mod 10 = int (of_char c) - 48"
    using quotient_parts [of "?n * 10 + (int (of_char c) - 48)" 10 ?n "int (of_char c) - 48"] by simp_all
  then show ?case using snoc c(1) d by simp
qed

definition digits_at :: "nat \<Rightarrow> nat \<Rightarrow> string \<Rightarrow> bool" where
  "digits_at i w s \<longleftrightarrow> i + w \<le> length s \<and> list_all is_digit (take w (drop i s))"

lemma number_at_digits:
  assumes "digits_at i w s"
  shows "padded w (number_at i w s) = take w (drop i s)" "0 \<le> number_at i w s" "number_at i w s < 10 ^ w"
proof -
  have "length (take w (drop i s)) = w" "list_all is_digit (take w (drop i s))"
    using assms by (auto simp: digits_at_def)
  then show "padded w (number_at i w s) = take w (drop i s)" "0 \<le> number_at i w s" "number_at i w s < 10 ^ w"
    using padded_read [of "take w (drop i s)"] unfolding number_at_def by metis+
qed

lemma time_shapeD:
  assumes "time_shape s"
  shows "digits_at 0 4 s" "digits_at 5 2 s" "digits_at 8 2 s" "digits_at 11 2 s" "digits_at 14 2 s" "digits_at 17 2 s"
    "digits_at 20 6 s"
    "take 4 s @ ''-'' @ take 2 (drop 5 s) @ ''-'' @ take 2 (drop 8 s) @ ''T'' @ take 2 (drop 11 s) @ '':'' @
      take 2 (drop 14 s) @ '':'' @ take 2 (drop 17 s) @ ''.'' @ take 6 (drop 20 s) @ ''Z'' = s"
  using assms by (auto simp: time_shape_def time_template_def list_all2_Cons1 digits_at_def)

lemma clock_parts:
  fixes D :: int
  assumes "0 \<le> hh" "hh < 24" "0 \<le> mm" "mm < 60" "0 \<le> ss" "ss < 60" "0 \<le> us" "us < (1000000 :: int)"
  shows "day_of (D * DAY_US + ((hh * 60 + mm) * 60 + ss) * 1000000 + us) = D"
    "(D * DAY_US + ((hh * 60 + mm) * 60 + ss) * 1000000 + us) mod DAY_US div 1000000 = (hh * 60 + mm) * 60 + ss"
    "(D * DAY_US + ((hh * 60 + mm) * 60 + ss) * 1000000 + us) mod 1000000 = us"
    "((hh * 60 + mm) * 60 + ss) div 3600 = hh" "((hh * 60 + mm) * 60 + ss) div 60 mod 60 = mm"
    "((hh * 60 + mm) * 60 + ss) mod 60 = ss"
proof -
  let ?r = "((hh * 60 + mm) * 60 + ss) * 1000000 + us"
  have r: "0 \<le> ?r" "?r < DAY_US" using assms by (simp_all add: DAY_US_def HOUR_US_def)
  have q: "(D * DAY_US + ((hh * 60 + mm) * 60 + ss) * 1000000 + us) div DAY_US = D"
    "(D * DAY_US + ((hh * 60 + mm) * 60 + ss) * 1000000 + us) mod DAY_US = ?r"
    using quotient_parts [OF _ r, of "D * DAY_US + ((hh * 60 + mm) * 60 + ss) * 1000000 + us" D] by (simp_all add: mult.commute)
  then show "day_of (D * DAY_US + ((hh * 60 + mm) * 60 + ss) * 1000000 + us) = D" by (simp add: day_of_def)
  show "(D * DAY_US + ((hh * 60 + mm) * 60 + ss) * 1000000 + us) mod DAY_US div 1000000 = (hh * 60 + mm) * 60 + ss"
    unfolding q by (rule quotient_parts(1) [OF _ assms(7,8)]) simp
  show "(D * DAY_US + ((hh * 60 + mm) * 60 + ss) * 1000000 + us) mod 1000000 = us"
    by (rule quotient_parts(2) [OF _ assms(7,8), where q = "D * 86400 + ((hh * 60 + mm) * 60 + ss)"]) (simp add: DAY_US_def HOUR_US_def)
  show "((hh * 60 + mm) * 60 + ss) div 3600 = hh"
    by (rule quotient_parts(1) [where r = "mm * 60 + ss"]) (use assms in auto)
  have m: "(hh * 60 + mm) * 60 + ss = 60 * (hh * 60 + mm) + ss" by simp
  show "((hh * 60 + mm) * 60 + ss) div 60 mod 60 = mm"
    unfolding quotient_parts(1) [OF m assms(5,6)] by (rule quotient_parts(2) [OF _ assms(3,4), where q = hh]) simp
  show "((hh * 60 + mm) * 60 + ss) mod 60 = ss"
    by (rule quotient_parts(2) [OF m assms(5,6)])
qed

lemma strptime_date:
  assumes "strptime s = Some t"
  shows "ymd (day_of t) = (number_at 0 4 s, number_at 5 2 s, number_at 8 2 s)"
    and "pads \<or> 1000 \<le> number_at 0 4 s \<Longrightarrow> strftime pads t = s"
proof -
  let ?D = "date_ordinal (number_at 0 4 s) (number_at 5 2 s) (number_at 8 2 s)"
  let ?h = "number_at 11 2 s" and ?m = "number_at 14 2 s" and ?s = "number_at 17 2 s" and ?u = "number_at 20 6 s"
  have s: "time_shape s" "valid_date (number_at 0 4 s) (number_at 5 2 s) (number_at 8 2 s)" "?h < 24" "?m < 60" "?s < 60"
    and t: "t = ?D * DAY_US + ((?h * 60 + ?m) * 60 + ?s) * 1000000 + ?u"
    using assms by (auto simp: strptime_def Let_def split: if_splits)
  note d = time_shapeD [OF s(1)]
  have u: "0 \<le> ?h" "0 \<le> ?m" "0 \<le> ?s" "0 \<le> ?u" "?u < 1000000"
    using number_at_digits(2,3) [OF d(7)] number_at_digits(2) [OF d(4)] number_at_digits(2) [OF d(5)]
      number_at_digits(2) [OF d(6)] by simp_all
  note c = clock_parts(1-3) [OF u(1) s(3) u(2) s(4) u(3) s(5) u(4,5), where D = ?D, folded t]
    clock_parts(4-6) [OF u(1) s(3) u(2) s(4) u(3) s(5) u(4,5)]
  show y: "ymd (day_of t) = (number_at 0 4 s, number_at 5 2 s, number_at 8 2 s)"
    unfolding c(1) by (rule ymd_date_ordinal [OF s(2)])
  assume "pads \<or> 1000 \<le> number_at 0 4 s"
  then show "strftime pads t = s"
    unfolding strftime_def year_text_def Let_def c
    using d(8) number_at_digits(1) [OF d(1)]
    by (simp add: ymd_date_ordinal [OF s(2)] d number_at_digits(1) del: append_Cons)
qed

end
