(* ===== verification/AccountingPolicy.thy ===== *)
theory AccountingPolicy
  imports Calendar
begin

text \<open>
  The reservation policy (\<open>accounting_policy.py\<close>).  The dataclass annotations are the
  types of the model: a field of another Python type is refused by the \<open>type(...) is\<close>
  guards of the code and has no counterpart here, a field that may be \<open>None\<close> is an
  option, and amounts are the unbounded integers of Python.

  The timezone database is a parameter \<open>tz\<close>: \<open>tz_offset\<close> is the offset of
  \<open>America/New_York\<close> at a UTC instant and \<open>tz_wall_offset\<close> its offset at a wall time
  (with \<open>fold=0\<close>, which is what \<open>datetime\<close> arithmetic produces), in microseconds.
\<close>

section \<open>Data\<close>

record timezone =
  tz_offset :: "int \<Rightarrow> int"
  tz_wall_offset :: "int \<Rightarrow> int"

record week =
  wk_key :: string
  wk_start_utc :: int
  wk_end_utc :: int
  wk_timezone :: string

record totals =
  tt_week_model :: int
  tt_experiment :: int
  tt_lifecycle :: int
  tt_diagnostic :: int
  tt_lifecycle_attempts :: int
  tt_diagnostic_attempts :: int

record profile =
  pf_model_id :: string
  pf_auth_id :: string
  pf_venue_id :: string

record lifecycle =
  lc_lifecycle_id :: string
  lc_slot :: string
  lc_week :: week
  lc_profile :: profile

record exposure =
  ex_state :: string
  ex_upper_bound :: "int option"
  ex_valid_until :: "int option"
  ex_actual :: "int option"

text \<open>What an attempt of the history and a candidate have in common.\<close>

record claim =
  cl_attempt_id :: string
  cl_reservation_id :: string
  cl_run_id :: string
  cl_lease_id :: string
  cl_profile :: profile
  cl_kind :: string
  cl_lifecycle_id :: "string option"
  cl_predecessor_id :: "string option"
  cl_effects_reconciled :: bool
  cl_exposure :: exposure

record attempt = claim +
  at_reserved_at :: int
  at_week :: week

record candidate = claim +
  cd_experiment_id :: string
  cd_journal_generation :: int

record non_model_cost =
  nc_cost_id :: string
  nc_kind :: string
  nc_exposure :: exposure

record acct_snapshot =
  sn_experiment_id :: string
  sn_journal_generation :: int
  sn_as_of :: int
  sn_population :: string
  sn_profiles :: "profile list"
  sn_lifecycles :: "lifecycle list"
  sn_attempts :: "attempt list"
  sn_non_model_costs :: "non_model_cost list"
  sn_holds :: "string list"

record proposal =
  pr_candidate :: candidate
  pr_week :: week
  pr_reservation_usd_micros :: int
  pr_liability_usd_micros :: int
  pr_totals :: totals

definition HOLDS :: "string list" where
  "HOLDS = [''billing_unknown'', ''billing_lag'', ''launch_or_dispatch_unknown'',
     ''provider_receipt_conflict'', ''unmatched_provider_charge'', ''above_cap_actual'',
     ''ledger_missing_or_corrupt'', ''recovery_incomplete'', ''capacity_exhausted'',
     ''forwarder_control_unreconciled'', ''venue_or_mediated_readiness_failed'',
     ''history_unavailable'', ''execution_recovery'', ''effect_recovery'']"

section \<open>Checks\<close>

abbreviation require_input :: "bool \<Rightarrow> unit res" where
  "require_input c \<equiv> require c ''invalid_input''"

definition validate_usd_micros :: "int \<Rightarrow> string \<Rightarrow> int res" where
  "validate_usd_micros amount currency =
     rbind (require (currency = ''USD'') ''currency_unsupported'') (\<lambda>_.
     rbind (require (- (2 ^ 63) \<le> amount \<and> amount < 2 ^ 63) ''invalid_money'') (\<lambda>_. Inr amount))"

definition week_for :: "timezone \<Rightarrow> int \<Rightarrow> week res" where
  "week_for tz instant =
     rbind (require (2000 \<le> year_of instant \<and> year_of instant \<le> 9998) ''invalid_time'') (\<lambda>_.
       let local = instant + tz_offset tz instant;
           start = day_of local * DAY_US - weekday local * DAY_US;
           end = start + 7 * DAY_US
       in Inr \<lparr>wk_key = iso_date start, wk_start_utc = start - tz_wall_offset tz start,
            wk_end_utc = end - tz_wall_offset tz end, wk_timezone = ''America/New_York''\<rparr>)"

definition nonnegative :: "int \<Rightarrow> int res" where
  "nonnegative v =
     rbind (require (v \<ge> 0) ''invalid_money'') (\<lambda>_.
     rbind (require (v < 2 ^ 63) ''arithmetic_overflow'') (\<lambda>_. Inr v))"

definition below_ceiling :: "int \<times> int \<times> string \<Rightarrow> unit res" where
  "below_ceiling q = (case q of (v, cap, code) \<Rightarrow> rbind (nonnegative v) (\<lambda>n. require (n \<le> cap) code))"

definition limits :: "totals \<Rightarrow> unit res" where
  "limits t = rall below_ceiling
     [(tt_week_model t, 150000000, ''weekly_limit''),
      (tt_experiment t, 49999999, ''experiment_limit''),
      (tt_lifecycle t, 30000000, ''lifecycle_limit''),
      (tt_diagnostic t, 30000000, ''diagnostic_limit''),
      (tt_lifecycle_attempts t, 10, ''lifecycle_attempt_limit''),
      (tt_diagnostic_attempts t, 10, ''diagnostic_attempt_limit'')]"

definition check_limits :: "totals \<Rightarrow> string option" where
  "check_limits t = (case limits t of Inl code \<Rightarrow> Some code | Inr _ \<Rightarrow> None)"

definition choice :: "string \<Rightarrow> string list \<Rightarrow> unit res" where
  "choice v choices = require_input (v \<in> set choices)"

definition acct_id :: "string \<Rightarrow> unit res" where
  "acct_id v = require_input (uuid_string v)"

definition acct_identity :: "string \<Rightarrow> int \<Rightarrow> unit res" where
  "acct_identity experiment_id generation =
     rbind (acct_id experiment_id) (\<lambda>_. require_input (1 \<le> generation \<and> generation \<le> 2 ^ 31 - 1))"

definition check_profile :: "profile \<Rightarrow> unit res" where
  "check_profile p = rall acct_id [pf_model_id p, pf_auth_id p, pf_venue_id p]"

definition check_week :: "week \<Rightarrow> unit res" where
  "check_week w =
     (let start = wk_start_utc w; end = wk_end_utc w in
      rbind (require (wk_timezone w = ''America/New_York'') ''invalid_week'') (\<lambda>_.
      rbind (require (iso_date start = wk_key w \<and> weekday start = 0) ''invalid_week'') (\<lambda>_.
      rbind (require (day_of end - day_of start = 7) ''invalid_week'') (\<lambda>_.
      rbind (require (end - start \<in> set [167 * HOUR_US, 168 * HOUR_US, 169 * HOUR_US]) ''invalid_week'') (\<lambda>_.
      rall (\<lambda>e. require (hour_of e \<in> {4, 5} \<and> on_the_hour e) ''invalid_week'') [start, end])))))"

definition acct_exposure :: "exposure \<Rightarrow> int \<Rightarrow> bool \<Rightarrow> int res" where
  "acct_exposure v instant model =
     rbind (choice (ex_state v) [''bounded'', ''settled'', ''unknown'', ''conflicted'']) (\<lambda>_.
     rbind (require (ex_state v \<notin> {''unknown'', ''conflicted''}) ''exposure_unknown'') (\<lambda>_.
     case ex_upper_bound v of
       None \<Rightarrow> Inl ''exposure_unknown''
     | Some bound \<Rightarrow>
         rbind (nonnegative bound) (\<lambda>upper.
         rbind (require (\<not> model \<or> upper \<ge> 3000000) ''invalid_money'') (\<lambda>_.
         if ex_state v = ''bounded''
         then rbind (require_input (ex_actual v = None)) (\<lambda>_.
           case ex_valid_until v of
             None \<Rightarrow> Inl ''exposure_unknown''
           | Some until \<Rightarrow> rbind (require (until > instant) ''exposure_stale'') (\<lambda>_. Inr upper))
         else rbind (require_input (ex_valid_until v = None)) (\<lambda>_.
           case ex_actual v of
             None \<Rightarrow> Inl ''exposure_unknown''
           | Some spent \<Rightarrow> rbind (nonnegative spent) (\<lambda>actual.
               rbind (require (actual \<le> upper) ''above_liability'') (\<lambda>_. Inr actual)))))))"

definition claim_id :: "string \<Rightarrow> string set \<Rightarrow> string set res" where
  "claim_id v identities =
     rbind (acct_id v) (\<lambda>_.
     rbind (require (v \<notin> identities) ''identity_conflict'') (\<lambda>_. Inr (insert v identities)))"

definition own_ids :: "'a claim_scheme \<Rightarrow> string list" where
  "own_ids r = [cl_attempt_id r, cl_reservation_id r, cl_run_id r, cl_lease_id r]"

definition claim_ids :: "'a claim_scheme \<Rightarrow> string set \<Rightarrow> string set res" where
  "claim_ids r identities = rfold claim_id (own_ids r) identities"

definition lifecycle_attribution ::
    "'a claim_scheme \<Rightarrow> week \<Rightarrow> (string \<times> lifecycle) list \<Rightarrow> string \<Rightarrow> unit res" where
  "lifecycle_attribution row week lifecycles lifecycle_id =
     rbind (acct_id lifecycle_id) (\<lambda>_.
     case map_of lifecycles lifecycle_id of
       None \<Rightarrow> Inl ''configuration_conflict''
     | Some life \<Rightarrow>
         rbind (require (lc_profile life = cl_profile row \<and> lc_week life = week) ''configuration_conflict'') (\<lambda>_.
         if cl_kind row = ''initial''
         then require (cl_predecessor_id row = None \<and> \<not> cl_effects_reconciled row) ''lineage_conflict''
         else rbind (require (cl_effects_reconciled row \<and> cl_predecessor_id row \<noteq> None) ''lineage_conflict'') (\<lambda>_.
           acct_id (the (cl_predecessor_id row)))))"

definition attribution ::
    "'a claim_scheme \<Rightarrow> week \<Rightarrow> profile list \<Rightarrow> (string \<times> lifecycle) list \<Rightarrow> unit res" where
  "attribution row week profiles lifecycles =
     rbind (check_profile (cl_profile row)) (\<lambda>_.
     rbind (require (cl_profile row \<in> set profiles) ''configuration_conflict'') (\<lambda>_.
     rbind (choice (cl_kind row) [''initial'', ''retry'', ''diagnostic'']) (\<lambda>_.
     if cl_kind row = ''diagnostic''
     then require (cl_lifecycle_id row = None \<and> cl_predecessor_id row = None \<and> \<not> cl_effects_reconciled row)
            ''lineage_conflict''
     else case cl_lifecycle_id row of
            None \<Rightarrow> Inl ''invalid_input''
          | Some i \<Rightarrow> lifecycle_attribution row week lifecycles i)))"

section \<open>Scratch totals\<close>

record accounting =
  ac_experiment :: int
  ac_weeks :: "(string \<times> int) list"
  ac_lifecycles :: "(string option \<times> (int \<times> int)) list"
  ac_diagnostics :: "(string \<times> (int \<times> int)) list"
  ac_identities :: "string set"

definition accounting_new :: accounting where
  "accounting_new = \<lparr>ac_experiment = 0, ac_weeks = [], ac_lifecycles = [], ac_diagnostics = [],
     ac_identities = {}\<rparr>"

definition get_or :: "'v \<Rightarrow> ('k \<times> 'v) list \<Rightarrow> 'k \<Rightarrow> 'v" where
  "get_or v d k = (case map_of d k of None \<Rightarrow> v | Some u \<Rightarrow> u)"

text \<open>Adding an amount to a \<open>(spend, count)\<close> entry.\<close>

definition bump :: "'k \<Rightarrow> int \<Rightarrow> ('k \<times> (int \<times> int)) list \<Rightarrow> ('k \<times> (int \<times> int)) list res" where
  "bump k amount d = (case get_or (0, 0) d k of (spend, n) \<Rightarrow>
     rbind (nonnegative (spend + amount)) (\<lambda>total. Inr (AList.update k (total, n + 1) d)))"

definition acct_add :: "'a claim_scheme \<Rightarrow> week \<Rightarrow> int \<Rightarrow> accounting \<Rightarrow> accounting res" where
  "acct_add row week amount a =
     rbind (nonnegative (ac_experiment a + amount)) (\<lambda>e.
     rbind (nonnegative (get_or 0 (ac_weeks a) (wk_key week) + amount)) (\<lambda>w.
     rbind (if cl_kind row \<noteq> ''diagnostic'' then bump (cl_lifecycle_id row) amount (ac_lifecycles a)
            else Inr (ac_lifecycles a)) (\<lambda>l.
     rbind (if cl_kind row \<in> {''retry'', ''diagnostic''} then bump (wk_key week) amount (ac_diagnostics a)
            else Inr (ac_diagnostics a)) (\<lambda>d.
     Inr (a\<lparr>ac_experiment := e, ac_weeks := AList.update (wk_key week) w (ac_weeks a),
            ac_lifecycles := l, ac_diagnostics := d\<rparr>)))))"

definition acct_totals :: "accounting \<Rightarrow> string \<Rightarrow> string option \<Rightarrow> totals" where
  "acct_totals a key lifecycle_id =
     (case (get_or (0, 0) (ac_lifecycles a) lifecycle_id, get_or (0, 0) (ac_diagnostics a) key) of
        ((life, n), (diag, m)) \<Rightarrow>
          \<lparr>tt_week_model = get_or 0 (ac_weeks a) key, tt_experiment = ac_experiment a, tt_lifecycle = life,
           tt_diagnostic = diag, tt_lifecycle_attempts = n, tt_diagnostic_attempts = m\<rparr>)"

definition check_history :: "accounting \<Rightarrow> (string \<times> lifecycle) list \<Rightarrow> unit res" where
  "check_history a lifecycles =
     rbind (limits \<lparr>tt_week_model = 0, tt_experiment = ac_experiment a, tt_lifecycle = 0, tt_diagnostic = 0,
       tt_lifecycle_attempts = 0, tt_diagnostic_attempts = 0\<rparr>) (\<lambda>_.
     rbind (rall (\<lambda>key. limits (acct_totals a key None)) (map fst (ac_weeks a))) (\<lambda>_.
     rall (\<lambda>(i, life). limits (acct_totals a (wk_key (lc_week life)) (Some i))) lifecycles))"

section \<open>Evaluation\<close>

definition week_compatible :: "week \<Rightarrow> week \<Rightarrow> unit res" where
  "week_compatible w p =
     require (if wk_key w = wk_key p then w = p
              else wk_end_utc w \<le> wk_start_utc p \<or> wk_end_utc p \<le> wk_start_utc w) ''invalid_week''"

definition remember_week :: "week \<Rightarrow> (string \<times> week) list \<Rightarrow> (string \<times> week) list res" where
  "remember_week w known =
     rbind (check_week w) (\<lambda>_.
     rbind (rall (week_compatible w) (map snd known)) (\<lambda>_.
     Inr (AList.update (wk_key w) w known)))"

text \<open>\<open>latest\<close> keeps, per lifecycle, the last row: its attempt, profile and kind are read.\<close>

type_synonym latest = "(string option \<times> (string \<times> profile \<times> string)) list"

definition lineage :: "'a claim_scheme \<Rightarrow> latest \<Rightarrow> latest res" where
  "lineage row latest =
     (if cl_kind row = ''diagnostic'' then Inr latest
      else rbind (require (case map_of latest (cl_lifecycle_id row) of
             None \<Rightarrow> cl_kind row \<noteq> ''retry''
           | Some (attempt_id, prof, kind) \<Rightarrow>
               if cl_kind row = ''retry''
               then cl_predecessor_id row = Some attempt_id \<and> cl_profile row = prof
               else kind \<noteq> ''retry'') ''lineage_conflict'') (\<lambda>_.
        Inr (AList.update (cl_lifecycle_id row) (cl_attempt_id row, cl_profile row, cl_kind row) latest)))"

definition check_header :: "acct_snapshot \<Rightarrow> candidate \<Rightarrow> int \<Rightarrow> unit res" where
  "check_header s c instant =
     rbind (acct_identity (sn_experiment_id s) (sn_journal_generation s)) (\<lambda>_.
     rbind (acct_identity (cd_experiment_id c) (cd_journal_generation c)) (\<lambda>_.
     rbind (require (sn_as_of s = instant) ''stale_snapshot'') (\<lambda>_.
     rbind (require (sn_experiment_id s = cd_experiment_id c \<and>
              sn_journal_generation s = cd_journal_generation c) ''identity_conflict'') (\<lambda>_.
     rbind (rall (\<lambda>(n, limit). require (n \<le> limit) ''history_limit'')
              [(length (sn_profiles s), 16), (length (sn_lifecycles s), 512), (length (sn_attempts s), 512),
               (length (sn_non_model_costs s), 512), (length (sn_holds s), 32)]) (\<lambda>_.
     rbind (choice (sn_population s) [''hypothetical_complete'', ''unknown'', ''conflicted'']) (\<lambda>_.
     rbind (require (sn_population s = ''hypothetical_complete'') ''population_unknown'') (\<lambda>_.
     rbind (rall (\<lambda>h. choice h HOLDS) (sn_holds s)) (\<lambda>_.
     rbind (require (sn_holds s = []) ''held'') (\<lambda>_.
     rbind (rall check_profile (sn_profiles s)) (\<lambda>_.
     require (sn_profiles s \<noteq> [] \<and> distinct (sn_profiles s)) ''configuration_conflict''))))))))))"

record lifecycle_scan =
  ls_lifecycles :: "(string \<times> lifecycle) list"
  ls_slots :: "(string \<times> string) list"
  ls_known :: "(string \<times> week) list"

definition scan_lifecycle :: "profile list \<Rightarrow> lifecycle \<Rightarrow> lifecycle_scan \<Rightarrow> lifecycle_scan res" where
  "scan_lifecycle profiles life st =
     rbind (acct_id (lc_lifecycle_id life)) (\<lambda>_.
     rbind (remember_week (lc_week life) (ls_known st)) (\<lambda>known.
     rbind (check_profile (lc_profile life)) (\<lambda>_.
     rbind (require (lc_profile life \<in> set profiles) ''configuration_conflict'') (\<lambda>_.
     rbind (choice (lc_slot life) [''rehearsal_1'', ''rehearsal_2'', ''rehearsal_3'', ''presentation'']) (\<lambda>_.
     let slot = (wk_key (lc_week life), lc_slot life) in
     rbind (require (map_of (ls_lifecycles st) (lc_lifecycle_id life) = None \<and> slot \<notin> set (ls_slots st))
              ''configuration_conflict'') (\<lambda>_.
     Inr \<lparr>ls_lifecycles = AList.update (lc_lifecycle_id life) life (ls_lifecycles st),
          ls_slots = slot # ls_slots st, ls_known = known\<rparr>))))))"

record attempt_scan =
  as_previous_at :: "int option"
  as_known :: "(string \<times> week) list"
  as_latest :: latest
  as_accounting :: accounting

definition scan_attempt ::
    "profile list \<Rightarrow> (string \<times> lifecycle) list \<Rightarrow> int \<Rightarrow> attempt \<Rightarrow> attempt_scan \<Rightarrow> attempt_scan res" where
  "scan_attempt profiles lifecycles instant row st =
     rbind (require (at_reserved_at row < instant \<and>
              (case as_previous_at st of None \<Rightarrow> True | Some p \<Rightarrow> p < at_reserved_at row)) ''lineage_conflict'') (\<lambda>_.
     rbind (remember_week (at_week row) (as_known st)) (\<lambda>known.
     rbind (require (wk_start_utc (at_week row) \<le> at_reserved_at row \<and> at_reserved_at row < wk_end_utc (at_week row))
              ''invalid_week'') (\<lambda>_.
     rbind (claim_ids row (ac_identities (as_accounting st))) (\<lambda>ids.
     rbind (attribution row (at_week row) profiles lifecycles) (\<lambda>_.
     rbind (lineage row (as_latest st)) (\<lambda>latest.
     rbind (acct_exposure (cl_exposure row) instant True) (\<lambda>amount.
     rbind (acct_add row (at_week row) amount ((as_accounting st)\<lparr>ac_identities := ids\<rparr>)) (\<lambda>a.
     Inr \<lparr>as_previous_at = Some (at_reserved_at row), as_known = known, as_latest = latest, as_accounting = a\<rparr>))))))))"

definition scan_cost :: "int \<Rightarrow> non_model_cost \<Rightarrow> accounting \<Rightarrow> accounting res" where
  "scan_cost instant cost a =
     rbind (claim_id (nc_cost_id cost) (ac_identities a)) (\<lambda>ids.
     rbind (choice (nc_kind cost) [''support'', ''review'', ''venue'']) (\<lambda>_.
     rbind (acct_exposure (nc_exposure cost) instant False) (\<lambda>amount.
     rbind (nonnegative (ac_experiment a + amount)) (\<lambda>e.
     Inr (a\<lparr>ac_experiment := e, ac_identities := ids\<rparr>)))))"

definition base_identities :: "acct_snapshot \<Rightarrow> (string \<times> lifecycle) list \<Rightarrow> string set" where
  "base_identities s lifecycles =
     {sn_experiment_id s} \<union> set (map fst lifecycles) \<union>
     set (concat (map (\<lambda>p. [pf_model_id p, pf_auth_id p, pf_venue_id p]) (sn_profiles s)))"

definition propose ::
    "acct_snapshot \<Rightarrow> candidate \<Rightarrow> int \<Rightarrow> week \<Rightarrow> (string \<times> lifecycle) list \<Rightarrow> latest \<Rightarrow> accounting \<Rightarrow> proposal res" where
  "propose s c instant current lifecycles latest a =
     rbind (claim_ids c (ac_identities a)) (\<lambda>ids.
     rbind (attribution c current (sn_profiles s) lifecycles) (\<lambda>_.
     rbind (lineage c latest) (\<lambda>_.
     rbind (acct_exposure (cl_exposure c) instant True) (\<lambda>upper.
     rbind (require_input (ex_state (cl_exposure c) = ''bounded'')) (\<lambda>_.
     rbind (acct_add c current upper (a\<lparr>ac_identities := ids\<rparr>)) (\<lambda>a.
     let totals = acct_totals a (wk_key current) (cl_lifecycle_id c) in
     rbind (limits totals) (\<lambda>_.
     Inr \<lparr>pr_candidate = c, pr_week = current, pr_reservation_usd_micros = 3000000,
          pr_liability_usd_micros = upper, pr_totals = totals\<rparr>)))))))"

definition evaluate :: "timezone \<Rightarrow> acct_snapshot \<Rightarrow> candidate \<Rightarrow> int \<Rightarrow> proposal res" where
  "evaluate tz s c instant =
     rbind (week_for tz instant) (\<lambda>current.
     rbind (check_header s c instant) (\<lambda>_.
     rbind (rfold (scan_lifecycle (sn_profiles s)) (sn_lifecycles s)
              \<lparr>ls_lifecycles = [], ls_slots = [], ls_known = [(wk_key current, current)]\<rparr>) (\<lambda>lives.
     rbind (rfold (scan_attempt (sn_profiles s) (ls_lifecycles lives) instant) (sn_attempts s)
              \<lparr>as_previous_at = None, as_known = ls_known lives, as_latest = [],
               as_accounting = accounting_new\<lparr>ac_identities := base_identities s (ls_lifecycles lives)\<rparr>\<rparr>) (\<lambda>rows.
     rbind (rfold (scan_cost instant) (sn_non_model_costs s) (as_accounting rows)) (\<lambda>a.
     rbind (check_history a (ls_lifecycles lives)) (\<lambda>_.
     propose s c instant current (ls_lifecycles lives) (as_latest rows) a))))))"

text \<open>\<open>evaluate_reservation\<close> turns the raised code into a \<open>Refusal\<close> value.\<close>

datatype evaluation = Refusal string | Proposed proposal

definition evaluate_reservation :: "timezone \<Rightarrow> acct_snapshot \<Rightarrow> candidate \<Rightarrow> int \<Rightarrow> evaluation" where
  "evaluate_reservation tz s c instant = (case evaluate tz s c instant of Inl code \<Rightarrow> Refusal code | Inr p \<Rightarrow> Proposed p)"

section \<open>Reference totals\<close>

text \<open>A row as the totals see it: week key, kind, lifecycle, amount.\<close>

type_synonym tally_row = "string \<times> string \<times> string option \<times> int"

definition spent :: "(tally_row \<Rightarrow> bool) \<Rightarrow> tally_row list \<Rightarrow> int" where
  "spent P rows = sum_list (map (\<lambda>(_, _, _, amount). amount) (filter P rows))"

definition rows_with :: "(tally_row \<Rightarrow> bool) \<Rightarrow> tally_row list \<Rightarrow> int" where
  "rows_with P rows = int (length (filter P rows))"

definition in_week :: "string \<Rightarrow> tally_row \<Rightarrow> bool" where
  "in_week key r = (case r of (k, _) \<Rightarrow> k = key)"

definition in_lifecycle :: "string option \<Rightarrow> tally_row \<Rightarrow> bool" where
  "in_lifecycle l r = (case r of (_, kind, life, _) \<Rightarrow> kind \<noteq> ''diagnostic'' \<and> life = l)"

definition is_diagnostic :: "string \<Rightarrow> tally_row \<Rightarrow> bool" where
  "is_diagnostic key r = (case r of (k, kind, _) \<Rightarrow> kind \<in> {''retry'', ''diagnostic''} \<and> k = key)"

definition reference_totals :: "tally_row list \<Rightarrow> int \<Rightarrow> string \<Rightarrow> string option \<Rightarrow> totals" where
  "reference_totals rows other key l =
     \<lparr>tt_week_model = spent (in_week key) rows, tt_experiment = spent (\<lambda>_. True) rows + other,
      tt_lifecycle = spent (in_lifecycle l) rows, tt_diagnostic = spent (is_diagnostic key) rows,
      tt_lifecycle_attempts = rows_with (in_lifecycle l) rows,
      tt_diagnostic_attempts = rows_with (is_diagnostic key) rows\<rparr>"

definition liability :: "exposure \<Rightarrow> int" where
  "liability e = (if ex_state e = ''bounded'' then the (ex_upper_bound e) else the (ex_actual e))"

definition claim_row :: "string \<Rightarrow> 'a claim_scheme \<Rightarrow> tally_row" where
  "claim_row key r = (key, cl_kind r, cl_lifecycle_id r, liability (cl_exposure r))"

definition attempt_row :: "attempt \<Rightarrow> tally_row" where
  "attempt_row r = claim_row (wk_key (at_week r)) r"

lemma spent_simps [simp]:
  "spent P [] = 0"
  "spent P (rows @ [r]) = spent P rows + (if P r then (case r of (_, _, _, amount) \<Rightarrow> amount) else 0)"
  by (simp_all add: spent_def split_beta)

lemma rows_with_simps [simp]:
  "rows_with P [] = 0" "rows_with P (rows @ [r]) = rows_with P rows + (if P r then 1 else 0)"
  by (simp_all add: rows_with_def)

text \<open>The dictionaries of \<open>_Accounting\<close> hold the reference totals of the rows added so far.\<close>

definition tallies :: "tally_row list \<Rightarrow> int \<Rightarrow> accounting \<Rightarrow> bool" where
  "tallies rows other a \<longleftrightarrow> (\<forall>key l. acct_totals a key l = reference_totals rows other key l)"

lemma tallies_iff:
  "tallies rows other a \<longleftrightarrow> ac_experiment a = spent (\<lambda>_. True) rows + other \<and>
     (\<forall>key. get_or 0 (ac_weeks a) key = spent (in_week key) rows) \<and>
     (\<forall>l. get_or (0, 0) (ac_lifecycles a) l = (spent (in_lifecycle l) rows, rows_with (in_lifecycle l) rows)) \<and>
     (\<forall>key. get_or (0, 0) (ac_diagnostics a) key = (spent (is_diagnostic key) rows, rows_with (is_diagnostic key) rows))"
  by (auto simp: tallies_def acct_totals_def reference_totals_def split_beta prod_eq_iff)

lemma tallies_new [simp]: "tallies [] 0 (accounting_new\<lparr>ac_identities := ids\<rparr>)"
  by (simp add: tallies_iff accounting_new_def get_or_def)

lemma nonnegative_Inr [guards]: "nonnegative v = Inr n \<longleftrightarrow> n = v \<and> 0 \<le> v \<and> v < 2 ^ 63"
  by (auto simp: nonnegative_def guards)

lemma get_or_update [simp]: "get_or v (AList.update k u d) k' = (if k' = k then u else get_or v d k')"
  by (simp add: get_or_def)

lemma bump_Inr [guards]:
  "bump k amount d = Inr d' \<longleftrightarrow> (let (spend, n) = get_or (0, 0) d k in
     0 \<le> spend + amount \<and> spend + amount < 2 ^ 63 \<and> d' = AList.update k (spend + amount, n + 1) d)"
  by (auto simp: bump_def guards split_beta Let_def)

lemma acct_add_tallies:
  assumes "tallies rows other a" "acct_add row week (liability (cl_exposure row)) a = Inr a'"
  shows "tallies (rows @ [claim_row (wk_key week) row]) other a'"
    and "ac_identities a' = ac_identities a"
  using assms
  by (auto simp: acct_add_def guards tallies_iff claim_row_def in_week_def in_lifecycle_def is_diagnostic_def Let_def
      split: if_splits)

lemma acct_exposure_Inr:
  assumes "acct_exposure e t model = Inr a"
  shows "a = liability e" "0 \<le> a" "a < 2 ^ 63" "model \<Longrightarrow> ex_state e = ''bounded'' \<Longrightarrow> 3000000 \<le> a"
    "ex_state e \<in> {''bounded'', ''settled''}"
  using assms
  by (auto simp: acct_exposure_def guards liability_def choice_def split: option.splits if_splits)

lemma scan_attempt_tallies:
  assumes "scan_attempt ps ls t row st = Inr st'" "tallies rows other (as_accounting st)"
  shows "tallies (rows @ [attempt_row row]) other (as_accounting st')"
proof -
  have "tallies rows other ((as_accounting st)\<lparr>ac_identities := ids\<rparr>)" for ids
    using assms(2) by (simp add: tallies_iff)
  note add = acct_add_tallies(1) [OF this]
  show ?thesis
    using assms(1) by (auto simp: scan_attempt_def guards attempt_row_def
        dest!: acct_exposure_Inr(1) add)
qed

lemma scan_attempts_tallies:
  "rfold (scan_attempt ps ls t) rows st = Inr st' \<Longrightarrow> tallies done other (as_accounting st) \<Longrightarrow>
     tallies (done @ map attempt_row rows) other (as_accounting st')"
proof (induction rows arbitrary: st "done")
  case (Cons row rows)
  then obtain st1 where "scan_attempt ps ls t row st = Inr st1" "rfold (scan_attempt ps ls t) rows st1 = Inr st'"
    by (auto simp: guards)
  with Cons.IH [of st1 "done @ [attempt_row row]"] scan_attempt_tallies Cons.prems(2) show ?case by force
qed simp

lemma scan_costs_tallies:
  "rfold (scan_cost t) costs a = Inr a' \<Longrightarrow> tallies rows other a \<Longrightarrow>
     tallies rows (other + sum_list (map (liability \<circ> nc_exposure) costs)) a'"
proof (induction costs arbitrary: a other)
  case (Cons cost costs)
  then obtain a1 where s: "scan_cost t cost a = Inr a1" "rfold (scan_cost t) costs a1 = Inr a'"
    by (auto simp: guards)
  then have "tallies rows (other + liability (nc_exposure cost)) a1"
    using Cons.prems(2) by (auto simp: scan_cost_def guards tallies_iff dest!: acct_exposure_Inr(1))
  from Cons.IH [OF s(2) this] show ?case by (simp add: add.assoc)
qed simp

definition within_limits :: "totals \<Rightarrow> bool" where
  "within_limits t \<longleftrightarrow> 0 \<le> tt_week_model t \<and> tt_week_model t \<le> 150000000 \<and>
     0 \<le> tt_experiment t \<and> tt_experiment t \<le> 49999999 \<and> 0 \<le> tt_lifecycle t \<and> tt_lifecycle t \<le> 30000000 \<and>
     0 \<le> tt_diagnostic t \<and> tt_diagnostic t \<le> 30000000 \<and> tt_lifecycle_attempts t \<le> 10 \<and>
     tt_diagnostic_attempts t \<le> 10"

lemma limits_Inr: "limits t = Inr u \<Longrightarrow> within_limits t"
  by (auto simp: limits_def guards below_ceiling_def within_limits_def)

section \<open>What an accepted evaluation means\<close>

text \<open>The intermediate values of an accepted evaluation.\<close>

definition accepted_by :: "timezone \<Rightarrow> acct_snapshot \<Rightarrow> candidate \<Rightarrow> int \<Rightarrow> proposal \<Rightarrow> week \<Rightarrow> lifecycle_scan \<Rightarrow>
    attempt_scan \<Rightarrow> accounting \<Rightarrow> bool" where
  "accepted_by tz s c t p current lives rows a \<longleftrightarrow>
     week_for tz t = Inr current \<and> check_header s c t = Inr () \<and>
     rfold (scan_lifecycle (sn_profiles s)) (sn_lifecycles s)
       \<lparr>ls_lifecycles = [], ls_slots = [], ls_known = [(wk_key current, current)]\<rparr> = Inr lives \<and>
     rfold (scan_attempt (sn_profiles s) (ls_lifecycles lives) t) (sn_attempts s)
       \<lparr>as_previous_at = None, as_known = ls_known lives, as_latest = [],
        as_accounting = accounting_new\<lparr>ac_identities := base_identities s (ls_lifecycles lives)\<rparr>\<rparr> = Inr rows \<and>
     rfold (scan_cost t) (sn_non_model_costs s) (as_accounting rows) = Inr a \<and>
     check_history a (ls_lifecycles lives) = Inr () \<and>
     propose s c t current (ls_lifecycles lives) (as_latest rows) a = Inr p"

lemma accepted_byD:
  assumes "accepted_by tz s c t p current lives rows a"
  shows "week_for tz t = Inr current" "check_header s c t = Inr ()"
    "rfold (scan_lifecycle (sn_profiles s)) (sn_lifecycles s)
       \<lparr>ls_lifecycles = [], ls_slots = [], ls_known = [(wk_key current, current)]\<rparr> = Inr lives"
    "rfold (scan_attempt (sn_profiles s) (ls_lifecycles lives) t) (sn_attempts s)
       \<lparr>as_previous_at = None, as_known = ls_known lives, as_latest = [],
        as_accounting = accounting_new\<lparr>ac_identities := base_identities s (ls_lifecycles lives)\<rparr>\<rparr> = Inr rows"
    "rfold (scan_cost t) (sn_non_model_costs s) (as_accounting rows) = Inr a"
    "check_history a (ls_lifecycles lives) = Inr ()"
    "propose s c t current (ls_lifecycles lives) (as_latest rows) a = Inr p"
  using assms by (simp_all add: accepted_by_def)

lemma evaluate_accepted:
  "evaluate_reservation tz s c t = Proposed p \<longleftrightarrow> (\<exists>current lives rows a. accepted_by tz s c t p current lives rows a)"
  by (auto simp: evaluate_reservation_def evaluate_def guards accepted_by_def split: sum.splits)

lemma propose_Inr:
  assumes "propose s c t current ls latest a = Inr p"
  obtains ids latest' a' where
    "claim_ids c (ac_identities a) = Inr ids" "attribution c current (sn_profiles s) ls = Inr ()"
    "lineage c latest = Inr latest'" "ex_state (cl_exposure c) = ''bounded''"
    "acct_exposure (cl_exposure c) t True = Inr (pr_liability_usd_micros p)"
    "acct_add c current (liability (cl_exposure c)) (a\<lparr>ac_identities := ids\<rparr>) = Inr a'"
    "pr_totals p = acct_totals a' (wk_key current) (cl_lifecycle_id c)" "limits (pr_totals p) = Inr ()"
    "pr_candidate p = c" "pr_week p = current" "pr_reservation_usd_micros p = 3000000"
    "pr_liability_usd_micros p = liability (cl_exposure c)"
proof -
  from assms obtain ids latest' a' upper where
    "claim_ids c (ac_identities a) = Inr ids" "attribution c current (sn_profiles s) ls = Inr ()"
    "lineage c latest = Inr latest'" "ex_state (cl_exposure c) = ''bounded''"
    "acct_exposure (cl_exposure c) t True = Inr upper"
    "acct_add c current upper (a\<lparr>ac_identities := ids\<rparr>) = Inr a'"
    "limits (acct_totals a' (wk_key current) (cl_lifecycle_id c)) = Inr ()"
    "p = \<lparr>pr_candidate = c, pr_week = current, pr_reservation_usd_micros = 3000000,
          pr_liability_usd_micros = upper, pr_totals = acct_totals a' (wk_key current) (cl_lifecycle_id c)\<rparr>"
    by (auto simp: propose_def guards Let_def)
  then show thesis using that [of ids latest' a'] acct_exposure_Inr(1) by force
qed

text \<open>
  C3: An accepted reservation is within every ceiling.  The totals it reports are the sums,
  recomputed from the whole history plus the candidate, of the week's model spend, the
  experiment's spend (non-model costs included), the lifecycle's spend and attempts and the
  week's retries and diagnostics; they do not exceed 150, 49.999999, 30 and 30 million
  micro-dollars and ten attempts each, and the candidate's liability is at least the fixed
  3-million reservation.
\<close>

theorem accepted_within_ceilings:
  assumes "evaluate_reservation tz s c t = Proposed p"
  shows "pr_totals p = reference_totals
      (map attempt_row (sn_attempts s) @ [claim_row (wk_key (pr_week p)) (pr_candidate p)])
      (sum_list (map (liability \<circ> nc_exposure) (sn_non_model_costs s))) (wk_key (pr_week p)) (cl_lifecycle_id (pr_candidate p)) \<and>
    within_limits (pr_totals p) \<and> pr_candidate p = c \<and>
    pr_reservation_usd_micros p = 3000000 \<and> pr_reservation_usd_micros p \<le> pr_liability_usd_micros p"
proof -
  obtain current lives rows a where e: "accepted_by tz s c t p current lives rows a"
    using assms evaluate_accepted by blast
  let ?rows = "map attempt_row (sn_attempts s)" and ?other = "sum_list (map (liability \<circ> nc_exposure) (sn_non_model_costs s))"
  have "tallies ?rows 0 (as_accounting rows)" using e scan_attempts_tallies [of _ _ _ "sn_attempts s" _ rows "[]" 0] by (auto simp: accepted_by_def)
  then have a: "tallies ?rows ?other (a\<lparr>ac_identities := ids\<rparr>)" for ids
    using e scan_costs_tallies [of t "sn_non_model_costs s" "as_accounting rows" a ?rows 0] by (simp add: accepted_by_def tallies_iff)
  obtain ids a' where q: "acct_add c current (liability (cl_exposure c)) (a\<lparr>ac_identities := ids\<rparr>) = Inr a'"
      "pr_totals p = acct_totals a' (wk_key current) (cl_lifecycle_id c)" "limits (pr_totals p) = Inr ()"
      "acct_exposure (cl_exposure c) t True = Inr (pr_liability_usd_micros p)" "ex_state (cl_exposure c) = ''bounded''"
      "pr_candidate p = c" "pr_week p = current" "pr_reservation_usd_micros p = 3000000"
    using e by (auto simp: accepted_by_def elim!: propose_Inr)
  show ?thesis
    using acct_add_tallies(1) [OF a q(1)] limits_Inr [OF q(3)] acct_exposure_Inr(4) [OF q(4)] q
    by (simp add: tallies_def)
qed

section \<open>Identities, order and lineage of an accepted history\<close>

lemma claim_id_Inr [guards]: "claim_id v S = Inr T \<longleftrightarrow> uuid_string v \<and> v \<notin> S \<and> T = insert v S"
  by (auto simp: claim_id_def acct_id_def guards)

lemma claim_fold_Inr:
  "rfold claim_id ids S = Inr T \<longleftrightarrow>
     (\<forall>v \<in> set ids. uuid_string v) \<and> distinct ids \<and> set ids \<inter> S = {} \<and> T = S \<union> set ids"
  by (induction ids arbitrary: S) (auto simp: guards)

lemma claim_ids_Inr [guards]:
  "claim_ids r S = Inr T \<longleftrightarrow> (\<forall>v \<in> set (own_ids r). uuid_string v) \<and> distinct (own_ids r) \<and>
     set (own_ids r) \<inter> S = {} \<and> T = S \<union> set (own_ids r)"
  by (simp add: claim_ids_def claim_fold_Inr)

text \<open>A state is reached by claiming \<open>ids\<close>, all new, one after the other.\<close>

definition claimed :: "string set \<Rightarrow> string list \<Rightarrow> string set \<Rightarrow> bool" where
  "claimed S ids T \<longleftrightarrow> distinct ids \<and> set ids \<inter> S = {} \<and> T = S \<union> set ids"

lemma claimed_Nil [simp]: "claimed S [] T \<longleftrightarrow> T = S"
  by (auto simp: claimed_def)

lemma claimed_append: "claimed S xs T \<Longrightarrow> claimed T ys U \<Longrightarrow> claimed S (xs @ ys) U"
  by (auto simp: claimed_def)

lemma scan_attempt_claims:
  assumes "scan_attempt ps ls t row st = Inr st'"
  shows "claimed (ac_identities (as_accounting st)) (own_ids row) (ac_identities (as_accounting st'))"
proof -
  have "acct_add row w a b = Inr b' \<Longrightarrow> ac_identities b' = ac_identities b" for w a b b'
    by (auto simp: acct_add_def guards)
  with assms show ?thesis by (auto simp: scan_attempt_def guards claimed_def)
qed

lemma scan_attempts_claim:
  "rfold (scan_attempt ps ls t) rows st = Inr st' \<Longrightarrow>
     claimed (ac_identities (as_accounting st)) (concat (map own_ids rows)) (ac_identities (as_accounting st'))"
proof (induction rows arbitrary: st)
  case (Cons row rows)
  then obtain st1 where "scan_attempt ps ls t row st = Inr st1" "rfold (scan_attempt ps ls t) rows st1 = Inr st'"
    by (auto simp: guards)
  with Cons.IH show ?case by (auto intro: claimed_append scan_attempt_claims)
qed simp

lemma scan_costs_claim:
  "rfold (scan_cost t) costs a = Inr a' \<Longrightarrow> claimed (ac_identities a) (map nc_cost_id costs) (ac_identities a')"
proof (induction costs arbitrary: a)
  case (Cons cost costs)
  then obtain a1 where s: "scan_cost t cost a = Inr a1" "rfold (scan_cost t) costs a1 = Inr a'" by (auto simp: guards)
  then have "claimed (ac_identities a) [nc_cost_id cost] (ac_identities a1)"
    by (auto simp: scan_cost_def guards claimed_def)
  from claimed_append [OF this Cons.IH [OF s(2)]] show ?case by simp
qed simp

lemma scan_lifecycles_keys:
  "rfold (scan_lifecycle ps) lives st = Inr st' \<Longrightarrow>
     set (map fst (ls_lifecycles st')) = set (map fst (ls_lifecycles st)) \<union> set (map lc_lifecycle_id lives)"
proof (induction lives arbitrary: st)
  case (Cons life lives)
  then obtain st1 where s: "scan_lifecycle ps life st = Inr st1" "rfold (scan_lifecycle ps) lives st1 = Inr st'"
    by (auto simp: guards)
  then have "set (map fst (ls_lifecycles st1)) = insert (lc_lifecycle_id life) (set (map fst (ls_lifecycles st)))"
    by (auto simp: scan_lifecycle_def guards Let_def update_keys simp del: set_map split: if_splits)
  with Cons.IH [OF s(2)] show ?case by auto
qed simp

definition snapshot_ids :: "acct_snapshot \<Rightarrow> string list" where
  "snapshot_ids s = sn_experiment_id s # map lc_lifecycle_id (sn_lifecycles s) @
     concat (map (\<lambda>p. [pf_model_id p, pf_auth_id p, pf_venue_id p]) (sn_profiles s))"

text \<open>
  C17: The four identities of an accepted candidate, those of every attempt of the history and
  the identities of the non-model costs are pairwise different, and none of them is the
  experiment, a lifecycle or a profile identity.
\<close>

theorem accepted_identities_fresh:
  assumes "evaluate_reservation tz s c t = Proposed p"
  shows "distinct (concat (map own_ids (sn_attempts s)) @ map nc_cost_id (sn_non_model_costs s) @ own_ids c) \<and>
    set (concat (map own_ids (sn_attempts s)) @ map nc_cost_id (sn_non_model_costs s) @ own_ids c) \<inter> set (snapshot_ids s) = {}"
proof -
  obtain current lives rows a where e: "accepted_by tz s c t p current lives rows a"
    using assms evaluate_accepted by blast
  have "claimed (base_identities s (ls_lifecycles lives)) (concat (map own_ids (sn_attempts s)))
      (ac_identities (as_accounting rows))"
    using scan_attempts_claim [OF accepted_byD(4) [OF e]] by simp
  moreover have "claimed (ac_identities (as_accounting rows)) (map nc_cost_id (sn_non_model_costs s)) (ac_identities a)"
    using e scan_costs_claim by (auto simp: accepted_by_def)
  moreover have "claimed (ac_identities a) (own_ids c) (ac_identities a \<union> set (own_ids c))"
    using e by (auto simp: accepted_by_def claimed_def guards elim!: propose_Inr)
  moreover have "set (map fst (ls_lifecycles lives)) = set (map lc_lifecycle_id (sn_lifecycles s))"
    using scan_lifecycles_keys [OF accepted_byD(3) [OF e]] by simp
  then have "base_identities s (ls_lifecycles lives) = set (snapshot_ids s)"
    by (simp add: base_identities_def snapshot_ids_def)
  ultimately have "claimed (set (snapshot_ids s)) (concat (map own_ids (sn_attempts s)) @
      map nc_cost_id (sn_non_model_costs s) @ own_ids c) (ac_identities a \<union> set (own_ids c))"
    by (metis claimed_append)
  then show ?thesis by (simp add: claimed_def)
qed

lemma scan_attempts_order:
  "rfold (scan_attempt ps ls t) rows st = Inr st' \<Longrightarrow>
     sorted_wrt (<) (map at_reserved_at rows) \<and> (\<forall>r \<in> set rows. at_reserved_at r < t) \<and>
     (\<forall>q r. as_previous_at st = Some q \<longrightarrow> r \<in> set rows \<longrightarrow> q < at_reserved_at r)"
proof (induction rows arbitrary: st)
  case (Cons row rows)
  then obtain st1 where s: "scan_attempt ps ls t row st = Inr st1" "rfold (scan_attempt ps ls t) rows st1 = Inr st'"
    by (auto simp: guards)
  then have "as_previous_at st1 = Some (at_reserved_at row)" "at_reserved_at row < t"
      "as_previous_at st = Some q \<Longrightarrow> q < at_reserved_at row" for q
    by (auto simp: scan_attempt_def guards)
  with Cons.IH [OF s(2)] show ?case by force
qed simp

definition lifecycle_rows :: "string option \<Rightarrow> attempt list \<Rightarrow> attempt list" where
  "lifecycle_rows l rows = filter (\<lambda>r. cl_kind r \<noteq> ''diagnostic'' \<and> cl_lifecycle_id r = l) rows"

definition latest_holds :: "attempt list \<Rightarrow> latest \<Rightarrow> bool" where
  "latest_holds rows latest \<longleftrightarrow> (\<forall>l. map_of latest l =
     (if lifecycle_rows l rows = [] then None
      else let r = last (lifecycle_rows l rows) in Some (cl_attempt_id r, cl_profile r, cl_kind r)))"

lemma scan_attempt_latest:
  assumes "scan_attempt ps ls t row st = Inr st'" "latest_holds rows (as_latest st)"
  shows "latest_holds (rows @ [row]) (as_latest st')"
proof -
  have "lineage row (as_latest st) = Inr (as_latest st')" using assms(1) by (auto simp: scan_attempt_def guards)
  then have u: "as_latest st' = (if cl_kind row = ''diagnostic'' then as_latest st else
      AList.update (cl_lifecycle_id row) (cl_attempt_id row, cl_profile row, cl_kind row) (as_latest st))"
    by (auto simp: lineage_def guards split: if_splits)
  have r: "lifecycle_rows l (rows @ [row]) = lifecycle_rows l rows @
      (if cl_kind row \<noteq> ''diagnostic'' \<and> cl_lifecycle_id row = l then [row] else [])" for l
    by (simp add: lifecycle_rows_def)
  show ?thesis
    using assms(2) unfolding latest_holds_def u r by (simp add: Let_def)
qed

lemma scan_attempts_latest:
  "rfold (scan_attempt ps ls t) rows st = Inr st' \<Longrightarrow> latest_holds before (as_latest st) \<Longrightarrow>
     latest_holds (before @ rows) (as_latest st')"
proof (induction rows arbitrary: st before)
  case (Cons row rows)
  then obtain st1 where "scan_attempt ps ls t row st = Inr st1" "rfold (scan_attempt ps ls t) rows st1 = Inr st'"
    by (auto simp: guards)
  with Cons.IH [of st1 "before @ [row]"] scan_attempt_latest Cons.prems(2) show ?case by force
qed simp

text \<open>
  C18: An accepted reservation rests on a complete, unheld snapshot taken at the evaluation
  instant whose attempts are in strictly increasing time order and lie before it.  A retry
  names, with reconciled effects and the same profile, the latest attempt of its lifecycle;
  an initial attempt is refused after a retry; a diagnostic names neither a lifecycle nor a
  predecessor.
\<close>

theorem accepted_lineage:
  assumes "evaluate_reservation tz s c t = Proposed p"
  shows "sn_holds s = [] \<and> sn_population s = ''hypothetical_complete'' \<and> sn_as_of s = t \<and>
    sorted_wrt (<) (map at_reserved_at (sn_attempts s) @ [t]) \<and>
    (let prior = lifecycle_rows (cl_lifecycle_id c) (sn_attempts s) in
      if cl_kind c = ''retry''
      then prior \<noteq> [] \<and> cl_predecessor_id c = Some (cl_attempt_id (last prior)) \<and>
        cl_profile c = cl_profile (last prior) \<and> cl_effects_reconciled c
      else if cl_kind c = ''initial''
      then (prior = [] \<or> cl_kind (last prior) \<noteq> ''retry'') \<and> cl_predecessor_id c = None
      else cl_kind c = ''diagnostic'' \<and> cl_lifecycle_id c = None \<and> cl_predecessor_id c = None)"
proof -
  obtain current lives rows a where e: "accepted_by tz s c t p current lives rows a"
    using assms evaluate_accepted by blast
  note d = accepted_byD [OF e]
  have h: "sn_holds s = []" "sn_population s = ''hypothetical_complete''" "sn_as_of s = t"
    using d(2) by (auto simp: check_header_def guards)
  have o: "sorted_wrt (<) (map at_reserved_at (sn_attempts s) @ [t])"
    using scan_attempts_order [OF d(4)] by (auto simp: sorted_wrt_append)
  have l: "latest_holds (sn_attempts s) (as_latest rows)"
    using scan_attempts_latest [OF d(4), of "[]"] by (simp add: latest_holds_def lifecycle_rows_def)
  obtain latest' where q: "attribution c current (sn_profiles s) (ls_lifecycles lives) = Inr ()"
      "lineage c (as_latest rows) = Inr latest'"
    using d(7) by (auto elim!: propose_Inr)
  then consider "cl_kind c = ''retry''" | "cl_kind c = ''initial''" | "cl_kind c = ''diagnostic''"
    by (auto simp: attribution_def choice_def guards)
  then show ?thesis
  proof cases
    case 1
    then have "cl_effects_reconciled c" using q(1)
      by (auto simp: attribution_def lifecycle_attribution_def guards split: option.splits)
    with 1 h o q(2) l show ?thesis
      by (auto simp: lineage_def latest_holds_def guards Let_def split: if_splits)
  next
    case 2
    then have "cl_predecessor_id c = None" using q(1)
      by (auto simp: attribution_def lifecycle_attribution_def guards split: option.splits)
    with 2 h o q(2) l show ?thesis
      by (auto simp: lineage_def latest_holds_def guards Let_def split: if_splits)
  next
    case 3
    with h o q(1) show ?thesis by (auto simp: attribution_def guards)
  qed
qed

section \<open>Refusals\<close>

definition POLICY_CODES :: "string set" where
  "POLICY_CODES = {''invalid_input'', ''invalid_time'', ''invalid_week'', ''invalid_money'', ''arithmetic_overflow'',
     ''weekly_limit'', ''experiment_limit'', ''lifecycle_limit'', ''diagnostic_limit'', ''lifecycle_attempt_limit'',
     ''diagnostic_attempt_limit'', ''stale_snapshot'', ''identity_conflict'', ''history_limit'', ''population_unknown'',
     ''held'', ''configuration_conflict'', ''lineage_conflict'', ''exposure_unknown'', ''exposure_stale'',
     ''above_liability''}"

abbreviation policy_raises :: "'a res \<Rightarrow> bool" where
  "policy_raises \<equiv> raises_only POLICY_CODES"

lemma policy_codes [simp]:
  "''invalid_input'' \<in> POLICY_CODES" "''invalid_time'' \<in> POLICY_CODES" "''invalid_week'' \<in> POLICY_CODES"
  "''invalid_money'' \<in> POLICY_CODES" "''arithmetic_overflow'' \<in> POLICY_CODES" "''weekly_limit'' \<in> POLICY_CODES"
  "''experiment_limit'' \<in> POLICY_CODES" "''lifecycle_limit'' \<in> POLICY_CODES" "''diagnostic_limit'' \<in> POLICY_CODES"
  "''lifecycle_attempt_limit'' \<in> POLICY_CODES" "''diagnostic_attempt_limit'' \<in> POLICY_CODES"
  "''stale_snapshot'' \<in> POLICY_CODES" "''identity_conflict'' \<in> POLICY_CODES" "''history_limit'' \<in> POLICY_CODES"
  "''population_unknown'' \<in> POLICY_CODES" "''held'' \<in> POLICY_CODES" "''configuration_conflict'' \<in> POLICY_CODES"
  "''lineage_conflict'' \<in> POLICY_CODES" "''exposure_unknown'' \<in> POLICY_CODES" "''exposure_stale'' \<in> POLICY_CODES"
  "''above_liability'' \<in> POLICY_CODES"
  by (simp_all add: POLICY_CODES_def)

named_theorems policy_codes_of

lemma codes_nonnegative [policy_codes_of]: "policy_raises (nonnegative v)"
  by (simp add: nonnegative_def raises_only_intros)

lemma codes_limits [policy_codes_of]: "policy_raises (limits t)"
  unfolding limits_def below_ceiling_def by (intro raises_only_intros) (auto simp: policy_codes_of intro!: raises_only_intros)

lemma codes_choice [policy_codes_of]: "policy_raises (choice v vs)" "policy_raises (acct_id v)"
  by (simp_all add: choice_def acct_id_def)

lemma codes_profile [policy_codes_of]: "policy_raises (check_profile q)"
  by (simp add: check_profile_def raises_only_rall policy_codes_of)

lemma codes_week [policy_codes_of]: "policy_raises (check_week w)" "policy_raises (week_for tz t)"
  by (simp_all add: check_week_def week_for_def Let_def raises_only_intros)

lemma codes_exposure [policy_codes_of]: "policy_raises (acct_exposure e t m)"
  unfolding acct_exposure_def
  by (intro raises_only_rbind) (auto simp: policy_codes_of intro!: raises_only_rbind split: option.splits)

lemma codes_claims [policy_codes_of]: "policy_raises (claim_id v S)" "policy_raises (claim_ids r S)"
  by (auto simp: claim_id_def claim_ids_def policy_codes_of intro!: raises_only_intros)

lemma codes_attribution [policy_codes_of]: "policy_raises (attribution r w ps ls)"
  unfolding attribution_def lifecycle_attribution_def
  by (intro raises_only_rbind) (auto simp: policy_codes_of intro!: raises_only_rbind split: option.splits)

lemma codes_add [policy_codes_of]: "policy_raises (acct_add r w n a)"
  unfolding acct_add_def bump_def
  by (auto simp: policy_codes_of split_beta intro!: raises_only_rbind)

lemma codes_remember [policy_codes_of]: "policy_raises (remember_week w known)" "policy_raises (lineage r l)"
  by (auto simp: remember_week_def week_compatible_def lineage_def policy_codes_of intro!: raises_only_intros)

lemma codes_history [policy_codes_of]: "policy_raises (check_history a ls)"
  unfolding check_history_def by (auto simp: policy_codes_of split_beta intro!: raises_only_intros)

lemma codes_header [policy_codes_of]: "policy_raises (check_header s c t)"
  unfolding check_header_def acct_identity_def
  by (auto simp: policy_codes_of split_beta intro!: raises_only_intros)

lemma codes_scans [policy_codes_of]:
  "policy_raises (scan_lifecycle ps l st)" "policy_raises (scan_attempt ps ls t r st')" "policy_raises (scan_cost t n a)"
  unfolding scan_lifecycle_def scan_attempt_def scan_cost_def
  by (auto simp: policy_codes_of Let_def intro!: raises_only_rbind)

lemma codes_propose [policy_codes_of]: "policy_raises (propose s c t w ls l a)"
  unfolding propose_def by (auto simp: policy_codes_of Let_def intro!: raises_only_rbind)


section \<open>Weeks\<close>

text \<open>
  What the reservation weeks need of the timezone data, from 1998 on: New York is four or
  five hours behind UTC, and converting a Monday midnight to UTC agrees with converting
  instants to local time (no transition falls on one).
\<close>

definition MODERN :: int where "MODERN = 729620 * DAY_US"

definition ny_offsets :: "timezone \<Rightarrow> bool" where
  "ny_offsets tz \<longleftrightarrow> (\<forall>t \<ge> MODERN. tz_offset tz t \<in> {- 4 * HOUR_US, - 5 * HOUR_US} \<and>
     tz_wall_offset tz t \<in> {- 4 * HOUR_US, - 5 * HOUR_US})"

definition ny_consistent :: "timezone \<Rightarrow> bool" where
  "ny_consistent tz \<longleftrightarrow> (\<forall>w \<ge> MODERN. \<forall>t \<ge> MODERN. DAY_US dvd w \<and> weekday w = 0 \<longrightarrow>
     (w \<le> t + tz_offset tz t \<longleftrightarrow> w - tz_wall_offset tz w \<le> t))"

lemma year_lower:
  assumes "0 \<le> n"
  shows "365 * (fst (year_and_yday n) - 1) \<le> n"
proof -
  define r s u v where q: "r = n mod 146097" "s = r mod 36524" "u = s mod 1461" "v = u mod 365"
  define a b c d where q': "a = n div 146097" "b = r div 36524" "c = s div 1461" "d = u div 365"
  have e: "n = 146097 * a + r" "r = 36524 * b + s" "s = 1461 * c + u" "u = 365 * d + v"
    by (simp_all add: q q')
  have "n = 365 * (a * 400 + b * 100 + c * 4 + d) + (97 * a + 24 * b + c + v)"
    unfolding e(1) e(2) e(3) e(4) by simp
  moreover have "0 \<le> v" "0 \<le> a" "0 \<le> b" "0 \<le> c" "0 \<le> d"
    using assms by (simp_all add: q q' pos_imp_zdiv_nonneg_iff)
  ultimately have "365 * (a * 400 + b * 100 + c * 4 + d) \<le> n" by linarith
  moreover have "fst (year_and_yday n) - 1 \<le> a * 400 + b * 100 + c * 4 + d"
    unfolding year_and_yday_def Let_def q [symmetric] q' [symmetric] by simp
  then have "365 * (fst (year_and_yday n) - 1) \<le> 365 * (a * 400 + b * 100 + c * 4 + d)"
    by (rule mult_left_mono) simp
  ultimately show ?thesis by (meson order_trans)
qed

lemma modern_year:
  assumes "2000 \<le> year_of t" "0 \<le> t"
  shows "MODERN + 15 * DAY_US \<le> t"
proof -
  have d: "0 \<le> day_of t" using assms(2) by (simp add: day_of_def DAY_US_def HOUR_US_def pos_imp_zdiv_nonneg_iff)
  have "365 * 1999 \<le> day_of t" using year_lower [OF d] assms(1) by (simp add: year_of_def)
  then have "729635 * DAY_US \<le> day_of t * DAY_US" by (simp add: DAY_US_def HOUR_US_def)
  also have "\<dots> \<le> t" by (simp add: day_of_def DAY_US_def HOUR_US_def)
  finally show ?thesis by (simp add: MODERN_def DAY_US_def HOUR_US_def)
qed

lemma week_midnight:
  fixes l :: int
  defines "w \<equiv> day_of l * DAY_US - weekday l * DAY_US"
  shows "DAY_US dvd w" "weekday w = 0" "w \<le> l" "l < w + 7 * DAY_US" "day_of (w + 7 * DAY_US) = day_of w + 7"
    "weekday (w + 7 * DAY_US) = 0"
proof -
  have D: "DAY_US = 86400000000" by (simp add: DAY_US_def HOUR_US_def)
  have w: "w = (day_of l - weekday l) * DAY_US" by (simp add: w_def algebra_simps)
  then show "DAY_US dvd w" by simp
  have wd: "day_of w = day_of l - weekday l" by (simp add: w day_of_def D)
  then show "weekday w = 0" by (simp add: weekday_def mod_diff_left_eq)
  have "0 \<le> weekday l" "weekday l \<le> 6" by (simp_all add: weekday_def)
  moreover have "day_of l * DAY_US \<le> l" "l < day_of l * DAY_US + DAY_US" by (simp_all add: day_of_def D)
  ultimately show "w \<le> l" "l < w + 7 * DAY_US" unfolding w_def D by linarith+
  show d: "day_of (w + 7 * DAY_US) = day_of w + 7" by (simp add: day_of_def D)
  show "weekday (w + 7 * DAY_US) = 0" using \<open>weekday w = 0\<close> by (simp add: weekday_def d)
qed

text \<open>
  C33: The week computed for an instant is a valid reservation week (Monday to Monday in New
  York, 167 to 169 hours long, keyed by its start date) and contains the instant.
\<close>

theorem week_for_valid:
  assumes "ny_offsets tz" "ny_consistent tz" "0 \<le> t" "week_for tz t = Inr w"
  shows "check_week w = Inr () \<and> wk_start_utc w \<le> t \<and> t < wk_end_utc w"
proof -
  define l where "l = t + tz_offset tz t"
  define m where "m = day_of l * DAY_US - weekday l * DAY_US"
  note mid = week_midnight [of l, folded m_def]
  have D: "DAY_US = 86400000000" "HOUR_US = 3600000000" by (simp_all add: DAY_US_def HOUR_US_def)
  have y: "2000 \<le> year_of t" using assms(4) by (auto simp: week_for_def guards Let_def)
  have w: "w = \<lparr>wk_key = iso_date m, wk_start_utc = m - tz_wall_offset tz m,
      wk_end_utc = m + 7 * DAY_US - tz_wall_offset tz (m + 7 * DAY_US), wk_timezone = ''America/New_York''\<rparr>"
    using assms(4) by (auto simp: week_for_def guards Let_def l_def m_def)
  have big: "MODERN + 15 * DAY_US \<le> t" using modern_year [OF y assms(3)] .
  have off: "tz_offset tz t \<in> {- 4 * HOUR_US, - 5 * HOUR_US}" using assms(1) big by (simp add: ny_offsets_def D)
  then have lb: "MODERN \<le> m" using big mid(3,4) by (auto simp: l_def D)
  then have wo: "tz_wall_offset tz m \<in> {- 4 * HOUR_US, - 5 * HOUR_US}"
      "tz_wall_offset tz (m + 7 * DAY_US) \<in> {- 4 * HOUR_US, - 5 * HOUR_US}"
    using assms(1) by (simp_all add: ny_offsets_def D)
  have dv: "DAY_US dvd m + 7 * DAY_US" using mid(1) by simp
  have "m - tz_wall_offset tz m \<le> t" "\<not> m + 7 * DAY_US - tz_wall_offset tz (m + 7 * DAY_US) \<le> t"
    using assms(2) [unfolded ny_consistent_def, rule_format, of m t]
      assms(2) [unfolded ny_consistent_def, rule_format, of "m + 7 * DAY_US" t]
      lb big mid(1-4,6) dv by (simp_all add: D l_def)
  moreover have "check_week w = Inr ()"
  proof -
    have s: "day_of (k - h) = day_of k" "hour_of (k - h) \<in> {4, 5}" "on_the_hour (k - h)"
      if "DAY_US dvd k" "h \<in> {- 4 * HOUR_US, - 5 * HOUR_US}" for k h
      using that day_of_shift [of k "- h"] by (auto simp: hour_of_def on_the_hour_def D elim!: dvdE)
    show ?thesis
      using s [OF mid(1) wo(1)] s [OF dv wo(2)] mid(2,5) wo
      by (auto simp: check_week_def w Let_def guards iso_date_def weekday_def D)
  qed
  ultimately show ?thesis by (simp add: w)
qed

section \<open>A worked evaluation\<close>

definition eastern :: timezone where
  "eastern = \<lparr>tz_offset = (\<lambda>_. - 5 * HOUR_US), tz_wall_offset = (\<lambda>_. - 5 * HOUR_US)\<rparr>"

definition sample_uuid :: "char \<Rightarrow> string" where
  "sample_uuid c = replicate 8 c @ ''-0000-0000-0000-000000000000''"

definition sample_profile :: profile where
  "sample_profile = \<lparr>pf_model_id = sample_uuid CHR ''1'', pf_auth_id = sample_uuid CHR ''2'', pf_venue_id = sample_uuid CHR ''3''\<rparr>"

definition sample_instant :: int where "sample_instant = 63930438000000000"

definition sample_week :: week where
  "sample_week = \<lparr>wk_key = ''2026-11-16'', wk_start_utc = 63930402000000000, wk_end_utc = 63931006800000000,
     wk_timezone = ''America/New_York''\<rparr>"

definition sample_exposure :: exposure where
  "sample_exposure = \<lparr>ex_state = ''bounded'', ex_upper_bound = Some 4000000, ex_valid_until = Some (sample_instant + 1),
     ex_actual = None\<rparr>"

definition sample_attempt :: attempt where
  "sample_attempt = \<lparr>cl_attempt_id = sample_uuid CHR ''4'', cl_reservation_id = sample_uuid CHR ''5'',
     cl_run_id = sample_uuid CHR ''6'', cl_lease_id = sample_uuid CHR ''7'', cl_profile = sample_profile,
     cl_kind = ''initial'', cl_lifecycle_id = Some (sample_uuid CHR ''8''), cl_predecessor_id = None,
     cl_effects_reconciled = False, cl_exposure = sample_exposure, at_reserved_at = sample_instant - 5, at_week = sample_week\<rparr>"

definition sample_candidate :: candidate where
  "sample_candidate = \<lparr>cl_attempt_id = sample_uuid CHR ''a'', cl_reservation_id = sample_uuid CHR ''b'',
     cl_run_id = sample_uuid CHR ''c'', cl_lease_id = sample_uuid CHR ''d'', cl_profile = sample_profile,
     cl_kind = ''retry'', cl_lifecycle_id = Some (sample_uuid CHR ''8''), cl_predecessor_id = Some (sample_uuid CHR ''4''),
     cl_effects_reconciled = True, cl_exposure = sample_exposure, cd_experiment_id = sample_uuid CHR ''e'',
     cd_journal_generation = 1\<rparr>"

definition sample_snapshot :: acct_snapshot where
  "sample_snapshot = \<lparr>sn_experiment_id = sample_uuid CHR ''e'', sn_journal_generation = 1, sn_as_of = sample_instant,
     sn_population = ''hypothetical_complete'', sn_profiles = [sample_profile],
     sn_lifecycles = [\<lparr>lc_lifecycle_id = sample_uuid CHR ''8'', lc_slot = ''presentation'', lc_week = sample_week, lc_profile = sample_profile\<rparr>],
     sn_attempts = [sample_attempt],
     sn_non_model_costs = [\<lparr>nc_cost_id = sample_uuid CHR ''9'', nc_kind = ''venue'', nc_exposure = sample_exposure\<rparr>],
     sn_holds = []\<rparr>"

definition sample_totals :: totals where
  "sample_totals = \<lparr>tt_week_model = 8000000, tt_experiment = 12000000, tt_lifecycle = 8000000, tt_diagnostic = 4000000,
     tt_lifecycle_attempts = 2, tt_diagnostic_attempts = 1\<rparr>"

definition sample_proposal :: proposal where
  "sample_proposal = \<lparr>pr_candidate = sample_candidate, pr_week = sample_week, pr_reservation_usd_micros = 3000000,
     pr_liability_usd_micros = 4000000, pr_totals = sample_totals\<rparr>"

lemma sample_accepted:
  "evaluate_reservation eastern sample_snapshot sample_candidate sample_instant = Proposed sample_proposal"
  by code_simp

theorem accepted_within_ceilings_witness:
  "evaluate_reservation eastern sample_snapshot sample_candidate sample_instant = Proposed sample_proposal \<and>
   within_limits (pr_totals sample_proposal) \<and> pr_reservation_usd_micros sample_proposal = 3000000"
  using accepted_within_ceilings [OF sample_accepted] sample_accepted by blast

theorem accepted_identities_fresh_witness:
  "distinct (concat (map own_ids (sn_attempts sample_snapshot)) @ map nc_cost_id (sn_non_model_costs sample_snapshot) @
     own_ids sample_candidate)"
  using accepted_identities_fresh [OF sample_accepted] by simp

theorem accepted_lineage_witness:
  "cl_kind sample_candidate = ''retry'' \<and>
   lifecycle_rows (cl_lifecycle_id sample_candidate) (sn_attempts sample_snapshot) \<noteq> []"
proof -
  have "cl_kind sample_candidate = ''retry''" by (simp add: sample_candidate_def)
  with accepted_lineage [OF sample_accepted] show ?thesis by (simp add: Let_def)
qed

theorem week_for_valid_witness:
  "week_for eastern sample_instant = Inr sample_week \<and> check_week sample_week = Inr () \<and>
   wk_start_utc sample_week \<le> sample_instant"
proof -
  have w: "week_for eastern sample_instant = Inr sample_week" by code_simp
  have "ny_offsets eastern" "ny_consistent eastern"
    by (auto simp: ny_offsets_def ny_consistent_def eastern_def)
  from week_for_valid [OF this _ w] w show ?thesis by (simp add: sample_instant_def)
qed

end
