(* ===== verification/AccountingEvents.thy ===== *)
theory AccountingEvents
  imports JsonCodec AccountingPolicy
begin

text \<open>
  The closed event codec of \<open>accounting_events.py\<close>.  An event is the canonical JSON text of
  eleven fixed fields and its tagged digest.  The arguments of \<open>encode_event\<close> are JSON
  values; the hash is a parameter from bytes to its hexadecimal text.
\<close>

section \<open>Field checks\<close>

definition TAG :: string where
  "TAG = ''acct.event.v1'' @ [CHR 0x00]"

definition MAX_BODY :: nat where
  "MAX_BODY = 16384"

definition TOP_KEYS :: "string list" where
  "TOP_KEYS = [''schema_version'', ''ledger_uuid'', ''ledger_generation'', ''experiment_id'', ''sequence'',
     ''previous_digest'', ''event_id'', ''recorded_at_utc'', ''actor_kind'', ''event_type'', ''data'']"

definition PROFILE_KEYS :: "string list" where
  "PROFILE_KEYS = [''model_id'', ''auth_id'', ''venue_id'']"

definition WEEK_KEYS :: "string list" where
  "WEEK_KEYS = [''key'', ''start_utc'', ''end_utc'', ''timezone'']"

definition DATA_KEYS :: "(string \<times> string list) list" where
  "DATA_KEYS =
    [(''genesis'', [''policy_revision'', ''population'']),
     (''journal_bound'', [''journal_uuid'', ''journal_generation'']),
     (''profile_configured'', [''profile'']),
     (''lifecycle_registered'', [''lifecycle_id'', ''slot'', ''week'', ''profile'', ''journal_uuid'', ''journal_generation'']),
     (''non_model_committed'', [''cost_id'', ''kind'', ''upper_bound_usd_micros'', ''valid_until_utc'', ''currency'']),
     (''reservation_created'', [''journal_uuid'', ''journal_generation'', ''admission_id'', ''intent_id'', ''intent_digest'',
        ''attempt_id'', ''reservation_id'', ''run_id'', ''lease_id'', ''kind'', ''lifecycle_id'', ''predecessor_id'',
        ''effects_reconciled'', ''profile'', ''week'', ''reservation_usd_micros'', ''liability_usd_micros'', ''currency'',
        ''valid_until_utc'', ''policy_revision'']),
     (''hold_set'', [''hold_id'', ''code''])]"

definition ev_check :: "bool \<Rightarrow> unit res" where
  "ev_check ok = require ok ''event_invalid''"

definition ev_uuid :: "json \<Rightarrow> unit res" where
  "ev_uuid v = ev_check (case v of JStr s \<Rightarrow> uuid_string s | _ \<Rightarrow> False)"

definition ev_digest :: "json \<Rightarrow> unit res" where
  "ev_digest v = ev_check (case v of JStr s \<Rightarrow> hex64_string s | _ \<Rightarrow> False)"

definition ev_integer :: "int \<Rightarrow> int \<Rightarrow> json \<Rightarrow> unit res" where
  "ev_integer lower upper v = ev_check (case v of JInt i \<Rightarrow> lower \<le> i \<and> i \<le> upper | _ \<Rightarrow> False)"

definition ev_time :: "bool \<Rightarrow> json \<Rightarrow> int res" where
  "ev_time pads v = (case v of
     JStr s \<Rightarrow> (case strptime s of
         None \<Rightarrow> Inl ''event_invalid''
       | Some stamp \<Rightarrow> rbind (ev_check (strftime pads stamp = s)) (\<lambda>_. Inr stamp))
   | _ \<Rightarrow> Inl ''event_invalid'')"

definition ev_profile :: "json \<Rightarrow> unit res" where
  "ev_profile v = rbind (ev_check (has_keys PROFILE_KEYS v)) (\<lambda>_. rall (\<lambda>k. ev_uuid (fld v k)) PROFILE_KEYS)"

definition ev_week_edge :: "int \<Rightarrow> bool" where
  "ev_week_edge t \<longleftrightarrow> hour_of t \<in> {4, 5} \<and> on_the_hour t"

definition ev_week :: "bool \<Rightarrow> json \<Rightarrow> unit res" where
  "ev_week pads v =
     rbind (ev_check (has_keys WEEK_KEYS v)) (\<lambda>_.
     rbind (ev_check (fld v ''timezone'' = JStr ''America/New_York'')) (\<lambda>_.
     rbind (ev_time pads (fld v ''start_utc'')) (\<lambda>start.
     rbind (ev_time pads (fld v ''end_utc'')) (\<lambda>end.
     rbind (ev_check (fld v ''key'' = JStr (iso_date start))) (\<lambda>_.
     rbind (ev_check (weekday start = 0 \<and> day_of end - day_of start = 7)) (\<lambda>_.
     rbind (ev_check (end - start \<in> {167 * HOUR_US, 168 * HOUR_US, 169 * HOUR_US})) (\<lambda>_.
     ev_check (ev_week_edge start \<and> ev_week_edge end))))))))"

definition ev_money :: "int \<Rightarrow> json \<Rightarrow> unit res" where
  "ev_money minimum v = ev_integer minimum (2 ^ 63 - 1) v"

section \<open>Event bodies\<close>

definition check_genesis :: "json \<Rightarrow> json \<Rightarrow> unit res" where
  "check_genesis v body =
     rbind (ev_check (fld body ''policy_revision'' = JStr ''accounting-v1'')) (\<lambda>_.
     rbind (ev_check ((fld v ''actor_kind'', fld body ''population'') \<in>
         {(JStr ''receiver'', JStr ''unknown''), (JStr ''fixture'', JStr ''synthetic_complete'')})) (\<lambda>_.
     ev_check (fld v ''sequence'' = JInt 1 \<and> fld v ''previous_digest'' = JStr zero_digest)))"

definition check_origin :: "json \<Rightarrow> unit res" where
  "check_origin body = rbind (ev_uuid (fld body ''journal_uuid'')) (\<lambda>_.
     ev_integer 1 (2 ^ 31 - 1) (fld body ''journal_generation''))"

definition check_lifecycle_registered :: "bool \<Rightarrow> json \<Rightarrow> unit res" where
  "check_lifecycle_registered pads body =
     rbind (ev_uuid (fld body ''lifecycle_id'')) (\<lambda>_.
     rbind (ev_check (jstr_in [''rehearsal_1'', ''rehearsal_2'', ''rehearsal_3'', ''presentation''] (fld body ''slot''))) (\<lambda>_.
     rbind (ev_week pads (fld body ''week'')) (\<lambda>_.
     rbind (ev_profile (fld body ''profile'')) (\<lambda>_.
     check_origin body))))"

definition check_non_model_committed :: "bool \<Rightarrow> json \<Rightarrow> unit res" where
  "check_non_model_committed pads body =
     rbind (ev_uuid (fld body ''cost_id'')) (\<lambda>_.
     rbind (ev_check (jstr_in [''support'', ''review'', ''venue''] (fld body ''kind''))) (\<lambda>_.
     rbind (ev_money 0 (fld body ''upper_bound_usd_micros'')) (\<lambda>_.
     rbind (ev_time pads (fld body ''valid_until_utc'')) (\<lambda>_.
     ev_check (fld body ''currency'' = JStr ''USD'')))))"

definition check_reservation_created :: "bool \<Rightarrow> json \<Rightarrow> unit res" where
  "check_reservation_created pads body =
     rbind (rall (\<lambda>k. ev_uuid (fld body k)) [''journal_uuid'', ''admission_id'', ''intent_id'', ''attempt_id'',
         ''reservation_id'', ''run_id'', ''lease_id'']) (\<lambda>_.
     rbind (ev_integer 1 (2 ^ 31 - 1) (fld body ''journal_generation'')) (\<lambda>_.
     rbind (ev_digest (fld body ''intent_digest'')) (\<lambda>_.
     rbind (ev_check (jstr_in [''initial'', ''retry'', ''diagnostic''] (fld body ''kind''))) (\<lambda>_.
     rbind (rall (\<lambda>k. if fld body k = JNull then Inr () else ev_uuid (fld body k)) [''lifecycle_id'', ''predecessor_id'']) (\<lambda>_.
     rbind (ev_check (case fld body ''effects_reconciled'' of JBool _ \<Rightarrow> True | _ \<Rightarrow> False)) (\<lambda>_.
     rbind (ev_profile (fld body ''profile'')) (\<lambda>_.
     rbind (ev_week pads (fld body ''week'')) (\<lambda>_.
     rbind (ev_check (fld body ''reservation_usd_micros'' = JInt 3000000)) (\<lambda>_.
     rbind (ev_money 3000000 (fld body ''liability_usd_micros'')) (\<lambda>_.
     rbind (ev_check (fld body ''currency'' = JStr ''USD'')) (\<lambda>_.
     rbind (ev_time pads (fld body ''valid_until_utc'')) (\<lambda>_.
     ev_check (fld body ''policy_revision'' = JStr ''accounting-v1'')))))))))))))"

definition check_hold_set :: "json \<Rightarrow> unit res" where
  "check_hold_set body = rbind (ev_uuid (fld body ''hold_id'')) (\<lambda>_. ev_check (jstr_in HOLDS (fld body ''code'')))"

definition check_body :: "bool \<Rightarrow> json \<Rightarrow> string \<Rightarrow> json \<Rightarrow> unit res" where
  "check_body pads v kind body =
     (if kind = ''genesis'' then check_genesis v body
      else if kind = ''journal_bound'' then check_origin body
      else if kind = ''profile_configured'' then ev_profile (fld body ''profile'')
      else if kind = ''lifecycle_registered'' then check_lifecycle_registered pads body
      else if kind = ''non_model_committed'' then check_non_model_committed pads body
      else if kind = ''reservation_created'' then check_reservation_created pads body
      else check_hold_set body)"

definition validate_event :: "bool \<Rightarrow> json \<Rightarrow> unit res" where
  "validate_event pads v =
     rbind (ev_check (has_keys TOP_KEYS v)) (\<lambda>_.
     rbind (require (fld v ''schema_version'' = JInt 1) ''event_unsupported'') (\<lambda>_.
     rbind (rall (\<lambda>k. ev_uuid (fld v k)) [''ledger_uuid'', ''experiment_id'', ''event_id'']) (\<lambda>_.
     rbind (ev_integer 1 (2 ^ 31 - 1) (fld v ''ledger_generation'')) (\<lambda>_.
     rbind (ev_integer 1 (2 ^ 53 - 1) (fld v ''sequence'')) (\<lambda>_.
     rbind (ev_digest (fld v ''previous_digest'')) (\<lambda>_.
     rbind (ev_time pads (fld v ''recorded_at_utc'')) (\<lambda>_.
     rbind (ev_check (jstr_in [''receiver'', ''fixture''] (fld v ''actor_kind''))) (\<lambda>_.
     rbind (require (jstr_in (map fst DATA_KEYS) (fld v ''event_type'')) ''event_unsupported'') (\<lambda>_.
     rbind (ev_check (has_keys (the (map_of DATA_KEYS (jstr (fld v ''event_type'')))) (fld v ''data''))) (\<lambda>_.
     check_body pads v (jstr (fld v ''event_type'')) (fld v ''data'')))))))))))"

section \<open>Encoding and decoding\<close>

record event =
  ae_raw :: bytes
  ae_digest :: string

definition event_fields :: "event \<Rightarrow> json res" where
  "event_fields e = parse_integers (ae_raw e) (int MAX_BODY) True"

definition event_digest :: "(bytes \<Rightarrow> string) \<Rightarrow> bytes \<Rightarrow> string" where
  "event_digest sha256 raw = sha256 (TAG @ raw)"

definition decode_event :: "(bytes \<Rightarrow> string) \<Rightarrow> bool \<Rightarrow> bytes \<Rightarrow> string \<Rightarrow> event res" where
  "decode_event sha256 pads raw expected_digest =
     rbind (ev_check (hex64_string expected_digest)) (\<lambda>_.
     rbind (ev_check (length raw \<le> MAX_BODY)) (\<lambda>_.
     case rbind (parse_integers raw (int MAX_BODY) True) (\<lambda>v. rbind (canonical_json True v) (\<lambda>c. Inr (v, c))) of
       Inl _ \<Rightarrow> Inl ''event_invalid''
     | Inr (v, canonical) \<Rightarrow>
         rbind (require (canonical = raw) ''event_not_canonical'') (\<lambda>_.
         rbind (validate_event pads v) (\<lambda>_.
         rbind (require (event_digest sha256 raw = expected_digest) ''event_digest'') (\<lambda>_.
         Inr \<lparr>ae_raw = raw, ae_digest = event_digest sha256 raw\<rparr>)))))"

definition event_value :: "json \<Rightarrow> json \<Rightarrow> json \<Rightarrow> json \<Rightarrow> json \<Rightarrow> json \<Rightarrow> json \<Rightarrow> json \<Rightarrow> json \<Rightarrow> json \<Rightarrow> json" where
  "event_value ledger_uuid ledger_generation experiment_id sequence previous_digest event_id recorded_at_utc
     actor_kind event_type body = JObj (zip TOP_KEYS [JInt 1, ledger_uuid, ledger_generation, experiment_id,
       sequence, previous_digest, event_id, recorded_at_utc, actor_kind, event_type, body])"

definition encode_event :: "(bytes \<Rightarrow> string) \<Rightarrow> bool \<Rightarrow> json \<Rightarrow> json \<Rightarrow> json \<Rightarrow> json \<Rightarrow> json \<Rightarrow> json \<Rightarrow> json \<Rightarrow> json
    \<Rightarrow> json \<Rightarrow> json \<Rightarrow> event res" where
  "encode_event sha256 pads ledger_uuid ledger_generation experiment_id sequence previous_digest event_id
     recorded_at_utc actor_kind event_type body =
     (let v = event_value ledger_uuid ledger_generation experiment_id sequence previous_digest event_id
                recorded_at_utc actor_kind event_type body
      in rbind (validate_event pads v) (\<lambda>_.
         case canonical_json True v of Inl _ \<Rightarrow> Inl ''event_invalid''
         | Inr raw \<Rightarrow> rbind (require (length raw \<le> MAX_BODY) ''event_too_large'') (\<lambda>_.
             Inr \<lparr>ae_raw = raw, ae_digest = event_digest sha256 raw\<rparr>)))"

section \<open>Timestamps\<close>

lemma length_padded [simp]: "length (padded w n) = w"
  by (induction w arbitrary: n) simp_all

lemma strftime_length:
  "length (strftime pads t) = 23 + length (year_text pads (fst (ymd (day_of t))))"
  by (simp add: strftime_def Let_def case_prod_unfold)

text \<open>
  A timestamp field is accepted exactly when it has the fixed shape and names a day of the
  proleptic calendar and a time of day.  The second comparison, against the text that
  \<open>strftime\<close> prints back, refuses nothing more than the years below 1000, and those only
  where the platform does not pad them.
\<close>
theorem event_time_iff:
  "ev_time pads (JStr s) = Inr t \<longleftrightarrow> strptime s = Some t \<and> (pads \<or> 1000 \<le> number_at 0 4 s)"
proof (cases "strptime s")
  case None
  then show ?thesis by (simp add: ev_time_def)
next
  case (Some u)
  have "pads \<or> 1000 \<le> number_at 0 4 s" if "strftime pads u = s"
  proof (rule ccontr)
    assume "\<not> (pads \<or> 1000 \<le> number_at 0 4 s)"
    then have "length (year_text pads (fst (ymd (day_of u)))) \<le> 3"
      using strptime_date(1) [OF Some] by (simp add: year_text_def)
    moreover have "length s = 27" using Some by (auto simp: strptime_def time_shape_def time_template_def Let_def split: if_splits)
    ultimately show False using strftime_length [of pads u] that by simp
  qed
  then show ?thesis
    using Some strptime_date(2) [OF Some, of pads] by (auto simp: ev_time_def ev_check_def require_def)
qed

section \<open>The codec is a round trip\<close>

lemma event_scalar_sorted [sorted_checks]:
  "ev_uuid (sort_json v) = ev_uuid v" "ev_digest (sort_json v) = ev_digest v" "ev_integer lo hi (sort_json v) = ev_integer lo hi v"
  "ev_money lo (sort_json v) = ev_money lo v" "ev_time pads (sort_json v) = ev_time pads v"
  "(case sort_json v of JBool _ \<Rightarrow> True | _ \<Rightarrow> False) = (case v of JBool _ \<Rightarrow> True | _ \<Rightarrow> False)"
  by (cases v; simp add: ev_uuid_def ev_digest_def ev_integer_def ev_money_def ev_time_def)+

lemma compound_sorted [sorted_checks]:
  assumes "wf_json v"
  shows "ev_profile (sort_json v) = ev_profile v" "ev_week pads (sort_json v) = ev_week pads v"
  using assms by (simp_all add: ev_profile_def ev_week_def sorted_checks)

lemma bodies_sorted [sorted_checks]:
  assumes "wf_json v" "wf_json b"
  shows "check_genesis (sort_json v) (sort_json b) = check_genesis v b"
    "check_origin (sort_json b) = check_origin b"
    "check_lifecycle_registered pads (sort_json b) = check_lifecycle_registered pads b"
    "check_non_model_committed pads (sort_json b) = check_non_model_committed pads b"
    "check_reservation_created pads (sort_json b) = check_reservation_created pads b"
    "check_hold_set (sort_json b) = check_hold_set b"
  using assms
  by (simp_all add: check_genesis_def check_origin_def check_lifecycle_registered_def
      check_non_model_committed_def check_reservation_created_def check_hold_set_def wf_fld sorted_checks)

lemma validate_sorted: "wf_json v \<Longrightarrow> validate_event pads (sort_json v) = validate_event pads v"
  by (simp add: validate_event_def check_body_def wf_fld sorted_checks)

interpretation event_codec: canonical_codec "validate_event pads" True MAX_BODY for pads
  by unfold_locales (simp_all add: validate_sorted MAX_BODY_def MAX_JSON_DOCUMENT_BYTES_def)

lemma wf_event_value:
  assumes "list_all wf_json [u, g, x, q, p, i, t, a, k, b]"
  shows "wf_json (event_value u g x q p i t a k b)"
  using assms by (simp add: event_value_def TOP_KEYS_def)

lemma decode_encoded:
  assumes "wf_json v" "validate_event pads v = Inr ()" "canonical_json True v = Inr raw" "length raw \<le> MAX_BODY"
    "hex64_string (event_digest sha256 raw)"
  shows "decode_event sha256 pads raw (event_digest sha256 raw) = Inr \<lparr>ae_raw = raw, ae_digest = event_digest sha256 raw\<rparr>"
    "parse_integers raw (int MAX_BODY) True = Inr (sort_json v)"
proof -
  note r = event_codec.read_back [OF assms(1-4)]
  show "parse_integers raw (int MAX_BODY) True = Inr (sort_json v)" by (rule r(1))
  show "decode_event sha256 pads raw (event_digest sha256 raw) = Inr \<lparr>ae_raw = raw, ae_digest = event_digest sha256 raw\<rparr>"
    using r assms by (simp add: decode_event_def ev_check_def)
qed

text \<open>
  C10: the event codec round-trips.  With a hash whose text is 64 hexadecimal digits, any event
  that \<open>encode_event\<close> returns (for a body whose objects hold each key once) decodes under
  its own digest to the same event, and its \<open>fields()\<close> are the encoded object with its keys
  in canonical order.
\<close>
theorem event_roundtrip:
  assumes "encode_event sha256 pads u g x q p i t a k b = Inr e"
    and "list_all wf_json [u, g, x, q, p, i, t, a, k, b]"
    and "\<And>s. hex64_string (sha256 s)"
  shows "decode_event sha256 pads (ae_raw e) (ae_digest e) = Inr e \<and>
    event_fields e = Inr (sort_json (event_value u g x q p i t a k b))"
proof -
  let ?v = "event_value u g x q p i t a k b"
  obtain raw where r: "validate_event pads ?v = Inr ()" "canonical_json True ?v = Inr raw" "length raw \<le> MAX_BODY"
    "e = \<lparr>ae_raw = raw, ae_digest = event_digest sha256 raw\<rparr>"
    using assms(1) by (auto simp: encode_event_def Let_def guards split: sum.splits)
  show ?thesis
    using decode_encoded [OF wf_event_value [OF assms(2)] r(1-3), of sha256] assms(3) r(4)
    by (simp add: event_fields_def event_digest_def)
qed


definition sample_genesis :: json where
  "sample_genesis = JObj [(''policy_revision'', JStr ''accounting-v1''), (''population'', JStr ''unknown'')]"

definition sample_body :: json where
  "sample_body = JObj [(''policy_revision'', JStr ''accounting-v1''), (''population'', JStr ''unknown'')]"

abbreviation sample_encode :: "event res" where
  "sample_encode \<equiv> encode_event (\<lambda>_. zero_digest) False (JStr (sample_uuid CHR ''1'')) (JInt 1) (JStr (sample_uuid CHR ''2''))
     (JInt 1) (JStr zero_digest) (JStr (sample_uuid CHR ''3'')) (JStr ''2026-11-16T09:30:00.000000Z'') (JStr ''receiver'')
     (JStr ''genesis'') sample_body"

definition sample_value :: json where
  "sample_value = event_value (JStr (sample_uuid CHR ''1'')) (JInt 1) (JStr (sample_uuid CHR ''2''))
     (JInt 1) (JStr zero_digest) (JStr (sample_uuid CHR ''3'')) (JStr ''2026-11-16T09:30:00.000000Z'') (JStr ''receiver'')
     (JStr ''genesis'') sample_body"

lemma sample_value_valid: "wf_json sample_value" "validate_event False sample_value = Inr ()"
  by code_simp+

lemma sample_value_canonical: "\<exists>raw. canonical_json True sample_value = Inr raw \<and> length raw \<le> MAX_BODY"
  by (simp add: sample_value_def event_value_def TOP_KEYS_def sample_body_def sample_uuid_def zero_digest_def canonical_eval
      MAX_BODY_def list_all_replicate bad_characters_printable)

theorem event_roundtrip_witness:
  "\<exists>e. sample_encode = Inr e \<and> decode_event (\<lambda>_. zero_digest) False (ae_raw e) (ae_digest e) = Inr e"
proof -
  obtain e where e: "sample_encode = Inr e"
    using sample_value_valid(2) sample_value_canonical by (auto simp: encode_event_def sample_value_def)
  moreover have "list_all wf_json [sample_body]" by code_simp
  ultimately show ?thesis
    using event_roundtrip [OF e] by simp
qed

end
