(* ===== verification/AccountingTransition.thy ===== *)
theory AccountingTransition
  imports AccountingEvents
begin

text \<open>
  The accounting history (\<open>accounting_transition.py\<close>): the projection of an event stream,
  the transition of one event and the replay of a whole stream.

  The hash, the padding of \<open>strftime\<close> years and the timezone data are the fields of one
  parameter.  \<open>head_digest\<close> of a projection without events is an \<open>IndexError\<close>.
\<close>

section \<open>State\<close>

record acct_env =
  en_sha256 :: "bytes \<Rightarrow> string"
  en_pads :: bool
  en_tz :: timezone

type_synonym journal_origin = "string \<times> int"

record lifecycle_origin =
  lo_lifecycle :: lifecycle
  lo_origin :: journal_origin

record attempt_origin =
  ao_attempt :: attempt
  ao_origin :: journal_origin
  ao_admission_id :: string
  ao_intent_id :: string
  ao_intent_digest :: string

record projection =
  pj_ledger_uuid :: string
  pj_ledger_generation :: int
  pj_experiment_id :: string
  pj_population :: string
  pj_events :: "event list"
  pj_claimed_ids :: "string set"
  pj_event_ids :: "string set"
  pj_last_at :: int
  pj_bindings :: "journal_origin list"
  pj_profiles :: "profile list"
  pj_lifecycles :: "lifecycle_origin list"
  pj_costs :: "non_model_cost list"
  pj_attempts :: "attempt_origin list"
  pj_holds :: "(string \<times> string) list"

definition head_sequence :: "projection \<Rightarrow> int" where
  "head_sequence p = int (length (pj_events p))"

definition head_digest :: "projection \<Rightarrow> string res" where
  "head_digest p = (if pj_events p = [] then Inl ''IndexError'' else Inr (ae_digest (last (pj_events p))))"

definition active_origin :: "projection \<Rightarrow> journal_origin option" where
  "active_origin p = (if pj_bindings p = [] then None else Some (last (pj_bindings p)))"

section \<open>Reading event bodies\<close>

text \<open>\<open>_stamp\<close>, on a text that \<open>_validate\<close> has accepted.\<close>

definition stamp :: "json \<Rightarrow> int" where
  "stamp v = (case strptime (jstr v) of Some t \<Rightarrow> t | None \<Rightarrow> 0)"

definition body_profile :: "json \<Rightarrow> profile" where
  "body_profile v = \<lparr>pf_model_id = jstr (fld v ''model_id''), pf_auth_id = jstr (fld v ''auth_id''),
     pf_venue_id = jstr (fld v ''venue_id'')\<rparr>"

definition body_week :: "json \<Rightarrow> week" where
  "body_week v = \<lparr>wk_key = jstr (fld v ''key''), wk_start_utc = stamp (fld v ''start_utc''),
     wk_end_utc = stamp (fld v ''end_utc''), wk_timezone = jstr (fld v ''timezone'')\<rparr>"

definition body_origin :: "json \<Rightarrow> journal_origin" where
  "body_origin body = (jstr (fld body ''journal_uuid''), jint (fld body ''journal_generation''))"

definition opt_str :: "json \<Rightarrow> string option" where
  "opt_str v = (if v = JNull then None else Some (jstr v))"

fun jbool :: "json \<Rightarrow> bool" where
  "jbool (JBool b) = b"
| "jbool _ = False"

definition profile_values :: "json \<Rightarrow> string list" where
  "profile_values v = (case v of JObj kvs \<Rightarrow> map (jstr \<circ> snd) kvs | _ \<Rightarrow> [])"

definition body_ids :: "string \<Rightarrow> json \<Rightarrow> string list" where
  "body_ids kind body =
     (if kind = ''journal_bound'' then [jstr (fld body ''journal_uuid'')]
      else if kind = ''profile_configured'' then profile_values (fld body ''profile'')
      else if kind = ''lifecycle_registered'' then
        jstr (fld body ''lifecycle_id'') # jstr (fld body ''journal_uuid'') # profile_values (fld body ''profile'')
      else if kind = ''non_model_committed'' then [jstr (fld body ''cost_id'')]
      else if kind = ''reservation_created'' then
        map (\<lambda>k. jstr (fld body k)) [''journal_uuid'', ''admission_id'', ''intent_id'', ''attempt_id'', ''reservation_id'',
          ''run_id'', ''lease_id''] @
        profile_values (fld body ''profile'') @
        map (\<lambda>k. jstr (fld body k)) (filter (\<lambda>k. fld body k \<noteq> JNull) [''lifecycle_id'', ''predecessor_id''])
      else [jstr (fld body ''hold_id'')])"

section \<open>Transitions\<close>

definition fresh :: "string list \<Rightarrow> projection \<Rightarrow> unit res" where
  "fresh values p = require (distinct values \<and> set values \<inter> pj_claimed_ids p = {}) ''identity_conflict''"

definition register_lifecycle :: "projection \<Rightarrow> json \<Rightarrow> projection res" where
  "register_lifecycle p body =
     (let origin = body_origin body;
          life = \<lparr>lc_lifecycle_id = jstr (fld body ''lifecycle_id''), lc_slot = jstr (fld body ''slot''),
                  lc_week = body_week (fld body ''week''), lc_profile = body_profile (fld body ''profile'')\<rparr>
      in rbind (require (Some origin = active_origin p) ''origin_conflict'') (\<lambda>_.
         rbind (fresh [lc_lifecycle_id life] p) (\<lambda>_.
         rbind (require (lc_profile life \<in> set (pj_profiles p)) ''configuration_conflict'') (\<lambda>_.
         rbind (require (list_all (\<lambda>e. (wk_key (lc_week (lo_lifecycle e)), lc_slot (lo_lifecycle e)) \<noteq>
                  (wk_key (lc_week life), lc_slot life)) (pj_lifecycles p)) ''configuration_conflict'') (\<lambda>_.
         Inr (p\<lparr>pj_lifecycles := pj_lifecycles p @ [\<lparr>lo_lifecycle = life, lo_origin = origin\<rparr>]\<rparr>))))))"

definition commit_cost :: "projection \<Rightarrow> json \<Rightarrow> int \<Rightarrow> projection res" where
  "commit_cost p body instant =
     rbind (fresh [jstr (fld body ''cost_id'')] p) (\<lambda>_.
     rbind (require (stamp (fld body ''valid_until_utc'') > instant) ''exposure_stale'') (\<lambda>_.
     let cost = \<lparr>nc_cost_id = jstr (fld body ''cost_id''), nc_kind = jstr (fld body ''kind''),
                 nc_exposure = \<lparr>ex_state = ''bounded'', ex_upper_bound = Some (jint (fld body ''upper_bound_usd_micros'')),
                   ex_valid_until = Some (stamp (fld body ''valid_until_utc'')), ex_actual = None\<rparr>\<rparr>
     in rbind (require (length (pj_costs p) < 512) ''history_limit'') (\<lambda>_.
        Inr (p\<lparr>pj_costs := pj_costs p @ [cost]\<rparr>))))"

definition week_dict_for :: "acct_env \<Rightarrow> int \<Rightarrow> json res" where
  "week_dict_for env instant =
     rbind (require (2000 \<le> year_of instant \<and> year_of instant \<le> 9998) ''invalid_time'') (\<lambda>_.
     rbind (week_for (en_tz env) instant) (\<lambda>w.
     Inr (JObj [(''key'', JStr (wk_key w)), (''timezone'', JStr (wk_timezone w)),
        (''start_utc'', JStr (strftime (en_pads env) (wk_start_utc w))),
        (''end_utc'', JStr (strftime (en_pads env) (wk_end_utc w)))])))"

text \<open>Equality of a decoded week object with another, which does not see the order of keys.\<close>

definition same_week :: "json \<Rightarrow> json \<Rightarrow> bool" where
  "same_week v w \<longleftrightarrow> has_keys WEEK_KEYS v \<and> list_all (\<lambda>k. fld v k = fld w k) WEEK_KEYS"

definition body_exposure :: "json \<Rightarrow> exposure" where
  "body_exposure body = \<lparr>ex_state = ''bounded'', ex_upper_bound = Some (jint (fld body ''liability_usd_micros'')),
     ex_valid_until = Some (stamp (fld body ''valid_until_utc'')), ex_actual = None\<rparr>"

definition body_candidate :: "projection \<Rightarrow> json \<Rightarrow> candidate" where
  "body_candidate p body =
     \<lparr>cl_attempt_id = jstr (fld body ''attempt_id''), cl_reservation_id = jstr (fld body ''reservation_id''),
      cl_run_id = jstr (fld body ''run_id''), cl_lease_id = jstr (fld body ''lease_id''),
      cl_profile = body_profile (fld body ''profile''), cl_kind = jstr (fld body ''kind''),
      cl_lifecycle_id = opt_str (fld body ''lifecycle_id''), cl_predecessor_id = opt_str (fld body ''predecessor_id''),
      cl_effects_reconciled = jbool (fld body ''effects_reconciled''), cl_exposure = body_exposure body,
      cd_experiment_id = pj_experiment_id p, cd_journal_generation = snd (body_origin body)\<rparr>"

definition snapshot_at :: "projection \<Rightarrow> json \<Rightarrow> int \<Rightarrow> acct_snapshot" where
  "snapshot_at p body instant =
     \<lparr>sn_experiment_id = pj_experiment_id p, sn_journal_generation = snd (body_origin body), sn_as_of = instant,
      sn_population = (if pj_population p = ''synthetic_complete'' then ''hypothetical_complete'' else ''unknown''),
      sn_profiles = pj_profiles p, sn_lifecycles = map lo_lifecycle (pj_lifecycles p),
      sn_attempts = map ao_attempt (pj_attempts p), sn_non_model_costs = pj_costs p, sn_holds = map snd (pj_holds p)\<rparr>"

definition body_attempt :: "projection \<Rightarrow> json \<Rightarrow> int \<Rightarrow> week \<Rightarrow> attempt" where
  "body_attempt p body instant w =
     (let c = body_candidate p body in
      \<lparr>cl_attempt_id = cl_attempt_id c, cl_reservation_id = cl_reservation_id c, cl_run_id = cl_run_id c,
       cl_lease_id = cl_lease_id c, cl_profile = cl_profile c, cl_kind = cl_kind c, cl_lifecycle_id = cl_lifecycle_id c,
       cl_predecessor_id = cl_predecessor_id c, cl_effects_reconciled = cl_effects_reconciled c, cl_exposure = cl_exposure c,
       at_reserved_at = instant, at_week = w\<rparr>)"

definition own_claims :: "json \<Rightarrow> string list" where
  "own_claims body = map (\<lambda>k. jstr (fld body k)) [''intent_id'', ''attempt_id'', ''reservation_id'', ''run_id'', ''lease_id'']"

definition check_claims :: "projection \<Rightarrow> json \<Rightarrow> unit res" where
  "check_claims p body =
     (let origin = body_origin body; admission = jstr (fld body ''admission_id'') in
      rbind (require (Some origin = active_origin p) ''origin_conflict'') (\<lambda>_.
      rbind (require (fld body ''lifecycle_id'' = JNull \<or>
               list_ex (\<lambda>e. lc_lifecycle_id (lo_lifecycle e) = jstr (fld body ''lifecycle_id'') \<and> lo_origin e = origin)
                 (pj_lifecycles p)) ''origin_conflict'') (\<lambda>_.
      rbind (fresh (own_claims body) p) (\<lambda>_.
      rbind (require (admission \<notin> pj_claimed_ids p - set (map ao_admission_id (pj_attempts p)) \<and>
               admission \<notin> set (own_claims body)) ''identity_conflict'') (\<lambda>_.
      rbind (require (list_all (\<lambda>e. ao_admission_id e \<noteq> admission \<or> ao_origin e = origin) (pj_attempts p)) ''origin_conflict'') (\<lambda>_.
      rbind (require (length (pj_attempts p) < 512) ''history_limit'') (\<lambda>_.
      require (list_all (\<lambda>e. (ao_admission_id e, ao_intent_id e) \<noteq> (admission, jstr (fld body ''intent_id'')))
                 (pj_attempts p)) ''identity_conflict'')))))))"

definition reserve :: "acct_env \<Rightarrow> projection \<Rightarrow> json \<Rightarrow> int \<Rightarrow> projection res" where
  "reserve env p body instant =
     rbind (check_claims p body) (\<lambda>_.
     rbind (week_dict_for env instant) (\<lambda>w.
     rbind (require (same_week (fld body ''week'') w) ''invalid_week'') (\<lambda>_.
     case evaluate_reservation (en_tz env) (snapshot_at p body instant) (body_candidate p body) instant of
       Refusal code \<Rightarrow> Inl code
     | Proposed r \<Rightarrow>
         rbind (require (pr_week r = body_week (fld body ''week'') \<and>
                  pr_reservation_usd_micros r = jint (fld body ''reservation_usd_micros'') \<and>
                  pr_liability_usd_micros r = jint (fld body ''liability_usd_micros'')) ''reservation_conflict'') (\<lambda>_.
         Inr (p\<lparr>pj_attempts := pj_attempts p @ [\<lparr>ao_attempt = body_attempt p body instant (pr_week r),
                ao_origin = body_origin body, ao_admission_id = jstr (fld body ''admission_id''),
                ao_intent_id = jstr (fld body ''intent_id''), ao_intent_digest = jstr (fld body ''intent_digest'')\<rparr>]\<rparr>)))))"

definition bind_journal :: "projection \<Rightarrow> json \<Rightarrow> projection res" where
  "bind_journal p body =
     (let origin = body_origin body in
      rbind (require (origin \<notin> set (pj_bindings p)) ''origin_conflict'') (\<lambda>_.
      rbind (require (list_all (\<lambda>q. fst q \<noteq> fst origin \<or> snd q < snd origin) (pj_bindings p)) ''origin_conflict'') (\<lambda>_.
      rbind (require (fst origin \<notin> pj_claimed_ids p - set (map fst (pj_bindings p))) ''identity_conflict'') (\<lambda>_.
      Inr (p\<lparr>pj_bindings := pj_bindings p @ [origin]\<rparr>)))))"

definition configure_profile :: "projection \<Rightarrow> json \<Rightarrow> projection res" where
  "configure_profile p body =
     (let profile = body_profile (fld body ''profile'') in
      rbind (require (profile \<notin> set (pj_profiles p)) ''configuration_conflict'') (\<lambda>_.
      rbind (require (length (pj_profiles p) < 16) ''history_limit'') (\<lambda>_.
      rbind (require (distinct [pf_model_id profile, pf_auth_id profile, pf_venue_id profile]) ''identity_conflict'') (\<lambda>_.
      rbind (rall (\<lambda>role. require (role profile \<notin> pj_claimed_ids p \<or> role profile \<in> set (map role (pj_profiles p)))
                ''identity_conflict'') [pf_model_id, pf_auth_id, pf_venue_id]) (\<lambda>_.
      Inr (p\<lparr>pj_profiles := pj_profiles p @ [profile]\<rparr>))))))"

definition set_hold :: "projection \<Rightarrow> json \<Rightarrow> projection res" where
  "set_hold p body =
     rbind (fresh [jstr (fld body ''hold_id'')] p) (\<lambda>_.
     rbind (require (length (pj_holds p) < 32) ''history_limit'') (\<lambda>_.
     Inr (p\<lparr>pj_holds := pj_holds p @ [(jstr (fld body ''hold_id''), jstr (fld body ''code''))]\<rparr>)))"

definition transition_body :: "acct_env \<Rightarrow> projection \<Rightarrow> string \<Rightarrow> json \<Rightarrow> int \<Rightarrow> projection res" where
  "transition_body env p kind body instant =
     (if kind = ''journal_bound'' then bind_journal p body
      else if kind = ''profile_configured'' then configure_profile p body
      else if kind = ''lifecycle_registered'' then
        rbind (require (length (pj_lifecycles p) < 512) ''history_limit'') (\<lambda>_. register_lifecycle p body)
      else if kind = ''non_model_committed'' then commit_cost p body instant
      else if kind = ''reservation_created'' then reserve env p body instant
      else set_hold p body)"

definition genesis_projection :: "event \<Rightarrow> json \<Rightarrow> projection res" where
  "genesis_projection decoded v =
     (let ids = {jstr (fld v ''ledger_uuid''), jstr (fld v ''experiment_id''), jstr (fld v ''event_id'')} in
      rbind (require (fld v ''event_type'' = JStr ''genesis'' \<and> fld v ''sequence'' = JInt 1 \<and>
               fld v ''previous_digest'' = JStr zero_digest) ''history_unavailable'') (\<lambda>_.
      rbind (require (card ids = 3) ''identity_conflict'') (\<lambda>_.
      Inr \<lparr>pj_ledger_uuid = jstr (fld v ''ledger_uuid''), pj_ledger_generation = jint (fld v ''ledger_generation''),
           pj_experiment_id = jstr (fld v ''experiment_id''), pj_population = jstr (fld (fld v ''data'') ''population''),
           pj_events = [decoded], pj_claimed_ids = ids, pj_event_ids = {jstr (fld v ''event_id'')},
           pj_last_at = stamp (fld v ''recorded_at_utc''), pj_bindings = [], pj_profiles = [], pj_lifecycles = [],
           pj_costs = [], pj_attempts = [], pj_holds = []\<rparr>)))"

definition event_id_of :: "event \<Rightarrow> string" where
  "event_id_of e = (case event_fields e of Inl _ \<Rightarrow> [] | Inr v \<Rightarrow> jstr (fld v ''event_id''))"

definition next_projection :: "acct_env \<Rightarrow> projection \<Rightarrow> event \<Rightarrow> json \<Rightarrow> projection res" where
  "next_projection env p decoded v =
     (let event_id = jstr (fld v ''event_id''); kind = jstr (fld v ''event_type''); body = fld v ''data'';
          instant = stamp (fld v ''recorded_at_utc'') in
      rbind (require (head_sequence p < 8192) ''history_limit'') (\<lambda>_.
      rbind (require (event_id \<notin> pj_claimed_ids p) ''identity_conflict'') (\<lambda>_.
      rbind (head_digest p) (\<lambda>head.
      rbind (require (jint (fld v ''sequence'') = head_sequence p + 1 \<and> jstr (fld v ''previous_digest'') = head) ''chain_conflict'') (\<lambda>_.
      rbind (require (instant \<ge> pj_last_at p) ''time_conflict'') (\<lambda>_.
      rbind (require (kind \<noteq> ''genesis'') ''chain_conflict'') (\<lambda>_.
      rbind (require (event_id \<notin> set (body_ids kind body)) ''identity_conflict'') (\<lambda>_.
      rbind (transition_body env p kind body instant) (\<lambda>updated.
      Inr (updated\<lparr>pj_events := pj_events p @ [decoded], pj_last_at := instant,
             pj_claimed_ids := pj_claimed_ids p \<union> insert event_id (set (body_ids kind body)),
             pj_event_ids := insert event_id (pj_event_ids p)\<rparr>))))))))))"

definition apply_validated :: "acct_env \<Rightarrow> projection option \<Rightarrow> event \<Rightarrow> string \<Rightarrow> projection res" where
  "apply_validated env po event expected_head =
     rbind (case po of None \<Rightarrow> Inr zero_digest | Some p \<Rightarrow> head_digest p) (\<lambda>head.
     rbind (require (expected_head = head) ''stale_head'') (\<lambda>_.
     rbind (decode_event (en_sha256 env) (en_pads env) (ae_raw event) (ae_digest event)) (\<lambda>decoded.
     rbind (event_fields decoded) (\<lambda>v.
     case po of
       None \<Rightarrow> genesis_projection decoded v
     | Some p \<Rightarrow>
         rbind (require (jstr (fld v ''ledger_uuid'') = pj_ledger_uuid p \<and>
                  jint (fld v ''ledger_generation'') = pj_ledger_generation p \<and>
                  jstr (fld v ''experiment_id'') = pj_experiment_id p) ''identity_conflict'') (\<lambda>_.
         if jstr (fld v ''event_id'') \<in> pj_event_ids p then
           case find (\<lambda>e. event_id_of e = jstr (fld v ''event_id'')) (pj_events p) of
             None \<Rightarrow> Inl ''StopIteration''
           | Some old \<Rightarrow> rbind (require (ae_raw old = ae_raw decoded) ''event_conflict'') (\<lambda>_. Inr p)
         else next_projection env p decoded v)))))"

section \<open>Replay\<close>

definition replay_step :: "acct_env \<Rightarrow> event \<Rightarrow> nat \<times> projection option \<Rightarrow> (nat \<times> projection option) res" where
  "replay_step env event st = (case st of (index, po) \<Rightarrow>
     rbind (case po of None \<Rightarrow> Inr zero_digest | Some p \<Rightarrow> head_digest p) (\<lambda>head.
     rbind (apply_validated env po event head) (\<lambda>p.
     rbind (require (head_sequence p = int (Suc index)) ''chain_conflict'') (\<lambda>_.
     Inr (Suc index, Some p)))))"

definition replay_accounting :: "acct_env \<Rightarrow> event list \<Rightarrow> projection res" where
  "replay_accounting env events =
     rbind (require (events \<noteq> []) ''history_unavailable'') (\<lambda>_.
     rbind (require (length events \<le> 8192) ''history_limit'') (\<lambda>_.
     rbind (rfold (replay_step env) events (0, None)) (\<lambda>st.
     case snd st of None \<Rightarrow> Inl ''history_unavailable'' | Some p \<Rightarrow> Inr p)))"

definition apply_event :: "acct_env \<Rightarrow> projection option \<Rightarrow> event \<Rightarrow> string \<Rightarrow> projection res" where
  "apply_event env po event expected_head =
     rbind (case po of None \<Rightarrow> Inr ()
       | Some p \<Rightarrow>
           rbind (head_digest p) (\<lambda>head.
           rbind (require (expected_head = head) ''stale_head'') (\<lambda>_.
           rbind (replay_accounting env (pj_events p)) (\<lambda>rebuilt.
           require (rebuilt = p) ''projection_conflict'')))) (\<lambda>_.
     apply_validated env po event expected_head)"

section \<open>Decoded events\<close>

lemma decode_event_same: "decode_event sha pads (ae_raw e) (ae_digest e) = Inr d \<Longrightarrow> d = e"
  by (cases e) (auto simp: decode_event_def ev_check_def guards split: sum.splits)

text \<open>The event decodes under its own digest.\<close>

definition genuine :: "acct_env \<Rightarrow> event \<Rightarrow> bool" where
  "genuine env e \<longleftrightarrow> decode_event (en_sha256 env) (en_pads env) (ae_raw e) (ae_digest e) = Inr e"

lemma decode_genuine:
  "decode_event (en_sha256 env) (en_pads env) (ae_raw e) (ae_digest e) = Inr d \<longleftrightarrow> d = e \<and> genuine env e"
  by (auto simp: genuine_def dest: decode_event_same)

lemma decode_event_again: "decode_event sha pads (ae_raw e) (ae_digest e) = Inr e \<Longrightarrow>
    \<exists>v. event_fields e = Inr v \<and> validate_event pads v = Inr () \<and> ae_digest e = event_digest sha (ae_raw e)"
  by (cases e) (auto simp: decode_event_def event_fields_def ev_check_def guards split: sum.splits)

text \<open>A step of the history, at the head that it has.\<close>

definition history_step :: "acct_env \<Rightarrow> projection option \<Rightarrow> event \<Rightarrow> projection res" where
  "history_step env po e =
     rbind (case po of None \<Rightarrow> Inr zero_digest | Some p \<Rightarrow> head_digest p) (\<lambda>head. apply_validated env po e head)"

text \<open>What a transition of the body leaves alone.\<close>

lemma transition_frame:
  assumes "transition_body env p kind body t = Inr q"
  shows "pj_ledger_uuid q = pj_ledger_uuid p \<and> pj_ledger_generation q = pj_ledger_generation p \<and>
    pj_experiment_id q = pj_experiment_id p \<and> pj_population q = pj_population p \<and> pj_events q = pj_events p \<and>
    pj_claimed_ids q = pj_claimed_ids p \<and> pj_event_ids q = pj_event_ids p"
  using assms
  by (auto simp: transition_body_def bind_journal_def configure_profile_def register_lifecycle_def commit_cost_def
      reserve_def set_hold_def Let_def guards split: if_splits evaluation.splits)

lemma next_projection_events: "next_projection env p e v = Inr q \<Longrightarrow> pj_events q = pj_events p @ [e]"
  by (auto simp: next_projection_def Let_def guards)

lemma apply_validated_logs:
  "apply_validated env None e h = Inr p \<Longrightarrow> pj_events p = [e]"
  "apply_validated env (Some p) e h = Inr q \<Longrightarrow> q = p \<or> pj_events q = pj_events p @ [e]"
  by (auto simp: apply_validated_def genesis_projection_def Let_def guards split: if_splits option.splits
      dest!: decode_event_same next_projection_events)

interpretation ledger: event_log "history_step env" pj_events for env
proof
  show "history_step env None e = Inr s \<Longrightarrow> pj_events s = [e]" for e s
    by (auto simp: history_step_def dest: apply_validated_logs)
  show "history_step env (Some s) e = Inr s' \<Longrightarrow> s' = s \<or> pj_events s' = pj_events s @ [e]" for s e s'
    by (auto simp: history_step_def guards dest: apply_validated_logs)
qed

section \<open>Replay\<close>

lemma head_sequence_length: "head_sequence p = int n \<longleftrightarrow> length (pj_events p) = n"
  by (simp add: head_sequence_def)

lemma replay_step_log: "replay_step env = fold_log_step (history_step env) pj_events ''chain_conflict''"
proof (intro ext)
  fix e st
  show "replay_step env e st = fold_log_step (history_step env) pj_events ''chain_conflict'' e st"
    by (cases st) (simp add: replay_step_def fold_log_step_def history_step_def rbind_assoc head_sequence_length del: of_nat_Suc)
qed

lemma replay_accounting_fold:
  "replay_accounting env es = Inr p \<longleftrightarrow> length es \<le> 8192 \<and>
     fold_log (history_step env) pj_events ''chain_conflict'' es = Inr (length es, Some p)"
proof -
  have "fold_log (history_step env) pj_events ''chain_conflict'' es = Inr (n, Some p) \<Longrightarrow> es \<noteq> [] \<and> n = length es" for n
    by (cases "es = []") (simp add: fold_log_def, auto dest!: ledger.folded_is_live)
  then show ?thesis
    by (auto simp: replay_accounting_def replay_step_log fold_log_def guards split: option.splits)
qed

text \<open>A state that the transitions can reach: the history of \<open>env\<close>.\<close>

abbreviation reached :: "acct_env \<Rightarrow> projection \<Rightarrow> bool" where
  "reached env \<equiv> sourced (history_step env)"

lemma history_stepD:
  assumes "history_step env (Some p) e = Inr q"
  obtains (same) "q = p" | (appended) v where "event_fields e = Inr v" "next_projection env p e v = Inr q"
      "genuine env e"
  using assms
  by (auto simp: history_step_def apply_validated_def decode_genuine guards split: if_splits option.splits)

lemma history_firstD:
  assumes "history_step env None e = Inr p"
  obtains v where "event_fields e = Inr v" "genesis_projection e v = Inr p"
    "genuine env e"
  using assms by (auto simp: history_step_def apply_validated_def decode_genuine guards)

lemma reached_induct [consumes 1, case_names genesis append]:
  assumes "reached env p"
    and "\<And>e v p. event_fields e = Inr v \<Longrightarrow> genesis_projection e v = Inr p \<Longrightarrow> genuine env e \<Longrightarrow> P p"
    and "\<And>e v p q. reached env p \<Longrightarrow> P p \<Longrightarrow> event_fields e = Inr v \<Longrightarrow> next_projection env p e v = Inr q \<Longrightarrow>
      genuine env e \<Longrightarrow> P q"
  shows "P p"
  using assms(1)
proof (induction rule: sourced.induct)
  case (sourced_first e s)
  then show ?case by (rule history_firstD) (rule assms(2))
next
  case (sourced_next s e s')
  from sourced_next(2) show ?case
    by (cases rule: history_stepD) (use sourced_next(1,3) assms(3) in auto)
qed

lemma reached_length: "reached env p \<Longrightarrow> length (pj_events p) \<le> 8192"
  by (induction rule: reached_induct)
    (auto simp: genesis_projection_def next_projection_def head_sequence_def Let_def guards)

lemma replay_iff: "replay_accounting env es = Inr p \<longleftrightarrow> reached env p \<and> pj_events p = es"
proof
  assume "replay_accounting env es = Inr p"
  then show "reached env p \<and> pj_events p = es"
    by (auto simp: replay_accounting_fold dest: ledger.folded_is_live)
next
  assume "reached env p \<and> pj_events p = es"
  then show "replay_accounting env es = Inr p"
    using reached_length [of env p] ledger.live_is_folded [of env p] by (auto simp: replay_accounting_fold)
qed

text \<open>
  C5: replay and the live history agree.  Replaying a stream returns a projection exactly when
  that projection is reached from nothing by accepted transitions and the stream is its own
  list of events, so a replayed history is the live one and no other stream is accepted.
\<close>
theorem replay_is_live:
  "replay_accounting env es = Inr p \<longleftrightarrow> sourced (history_step env) p \<and> pj_events p = es"
  by (rule replay_iff)

section \<open>The hash chain\<close>

definition event_field :: "event \<Rightarrow> string \<Rightarrow> json" where
  "event_field e k = (case event_fields e of Inl _ \<Rightarrow> JNull | Inr v \<Rightarrow> fld v k)"

text \<open>Each event carries its position and the digest of its predecessor.\<close>

fun chain_from :: "int \<Rightarrow> string \<Rightarrow> event list \<Rightarrow> bool" where
  "chain_from n head [] \<longleftrightarrow> True"
| "chain_from n head (e # es) \<longleftrightarrow> event_field e ''sequence'' = JInt (n + 1) \<and>
     event_field e ''previous_digest'' = JStr head \<and> chain_from (n + 1) (ae_digest e) es"

abbreviation chained :: "event list \<Rightarrow> bool" where
  "chained es \<equiv> chain_from 0 zero_digest es"

lemma chain_from_snoc:
  "chain_from n head (es @ [e]) \<longleftrightarrow> chain_from n head es \<and> event_field e ''sequence'' = JInt (n + int (length es) + 1) \<and>
     event_field e ''previous_digest'' = JStr (if es = [] then head else ae_digest (last es))"
  by (induction n head es rule: chain_from.induct) (auto simp: algebra_simps)

lemmas chained_snoc = chain_from_snoc [of 0 zero_digest, simplified]

text \<open>Without a collision of the hash, the digest of the last event determines the log.\<close>

lemma chained_unique:
  assumes "chained es" "chained fs" "es \<noteq> []" "fs \<noteq> []" "ae_digest (last es) = ae_digest (last fs)"
    and "\<And>e f. e \<in> set es \<Longrightarrow> f \<in> set fs \<Longrightarrow> ae_digest e = ae_digest f \<Longrightarrow> e = f"
  shows "es = fs"
  using assms
proof (induction es arbitrary: fs rule: rev_induct)
  case Nil
  then show ?case by simp
next
  case (snoc e es)
  obtain gs g where f: "fs = gs @ [g]" using snoc.prems(4) by (metis append_butlast_last_id)
  have g: "g = e" using snoc.prems(5,6) f by auto
  have c: "chained es" "chained gs" using snoc.prems(1,2) f by (simp_all add: chained_snoc)
  have l: "length es = length gs" using snoc.prems(1,2) f g by (simp add: chained_snoc)
  show ?case
  proof (cases "es = []")
    case True
    then show ?thesis using l f g by simp
  next
    case False
    then have "gs \<noteq> []" using l by auto
    moreover have "ae_digest (last es) = ae_digest (last gs)"
      using snoc.prems(1,2) f g False \<open>gs \<noteq> []\<close> by (simp add: chained_snoc)
    ultimately have "es = gs" using snoc.prems(6) f False c by (intro snoc.IH) auto
    then show ?thesis using f g by simp
  qed
qed

section \<open>Invariants\<close>

lemmas transition_defs = transition_body_def bind_journal_def configure_profile_def register_lifecycle_def
  commit_cost_def reserve_def set_hold_def

text \<open>The log part of the state: the chain and the recorded event identities.\<close>

definition log_ok :: "projection \<Rightarrow> bool" where
  "log_ok p \<longleftrightarrow> pj_events p \<noteq> [] \<and> length (pj_events p) \<le> 8192 \<and> chained (pj_events p) \<and>
     pj_event_ids p = event_id_of ` set (pj_events p) \<and> distinct (map event_id_of (pj_events p)) \<and>
     pj_event_ids p \<subseteq> pj_claimed_ids p"

text \<open>The capacities and the configuration entries that no two events share.\<close>

definition book_ok :: "projection \<Rightarrow> bool" where
  "book_ok p \<longleftrightarrow> length (pj_profiles p) \<le> 16 \<and> length (pj_lifecycles p) \<le> 512 \<and> length (pj_costs p) \<le> 512 \<and>
     length (pj_attempts p) \<le> 512 \<and> length (pj_holds p) \<le> 32 \<and>
     distinct (pj_profiles p) \<and> distinct (pj_bindings p) \<and>
     distinct (map (\<lambda>e. (wk_key (lc_week (lo_lifecycle e)), lc_slot (lo_lifecycle e))) (pj_lifecycles p))"

text \<open>
  The identities the history has created: of lifecycles, costs and holds, and the intent,
  attempt, reservation, run and lease of every attempt.  They are claimed, and no two are equal.
\<close>

definition attempt_claims :: "attempt_origin \<Rightarrow> string list" where
  "attempt_claims a = [ao_intent_id a, cl_attempt_id (ao_attempt a), cl_reservation_id (ao_attempt a),
     cl_run_id (ao_attempt a), cl_lease_id (ao_attempt a)]"

definition entity_ids :: "projection \<Rightarrow> string list" where
  "entity_ids p = map (\<lambda>e. lc_lifecycle_id (lo_lifecycle e)) (pj_lifecycles p) @ map nc_cost_id (pj_costs p) @
     map fst (pj_holds p) @ concat (map attempt_claims (pj_attempts p))"

definition claims_ok :: "projection \<Rightarrow> bool" where
  "claims_ok p \<longleftrightarrow> set (entity_ids p) \<subseteq> pj_claimed_ids p \<and> distinct (entity_ids p)"

text \<open>A reservation needs a synthetic population and no hold before it.\<close>

definition reserving_ok :: "projection \<Rightarrow> bool" where
  "reserving_ok p \<longleftrightarrow> (pj_attempts p \<noteq> [] \<longrightarrow> pj_population p = ''synthetic_complete'')"

lemma genesis_ok: "genesis_projection e v = Inr p \<Longrightarrow> event_fields e = Inr v \<Longrightarrow>
    log_ok p \<and> book_ok p \<and> claims_ok p \<and> reserving_ok p"
  by (auto simp: genesis_projection_def log_ok_def book_ok_def claims_ok_def entity_ids_def reserving_ok_def
      event_field_def event_id_of_def Let_def guards)

lemma book_bind_journal: "bind_journal p body = Inr q \<Longrightarrow> book_ok p \<Longrightarrow> book_ok q"
  by (auto simp: bind_journal_def book_ok_def Let_def guards)

lemma book_configure_profile: "configure_profile p body = Inr q \<Longrightarrow> book_ok p \<Longrightarrow> book_ok q"
  by (auto simp: configure_profile_def book_ok_def Let_def guards)

lemma book_register_lifecycle:
  "register_lifecycle p body = Inr q \<Longrightarrow> length (pj_lifecycles p) < 512 \<Longrightarrow> book_ok p \<Longrightarrow> book_ok q"
  by (auto simp: register_lifecycle_def book_ok_def list_all_iff Let_def guards) blast+

lemma book_commit_cost: "commit_cost p body t = Inr q \<Longrightarrow> book_ok p \<Longrightarrow> book_ok q"
  by (auto simp: commit_cost_def book_ok_def Let_def guards)

lemma book_set_hold: "set_hold p body = Inr q \<Longrightarrow> book_ok p \<Longrightarrow> book_ok q"
  by (auto simp: set_hold_def book_ok_def Let_def guards)

lemma book_reserve: "reserve env p body t = Inr q \<Longrightarrow> book_ok p \<Longrightarrow> book_ok q"
  by (auto simp: reserve_def book_ok_def check_claims_def Let_def guards split: evaluation.splits)

lemma book_transition:
  "transition_body env p kind body t = Inr q \<Longrightarrow> book_ok p \<Longrightarrow> book_ok q"
  by (auto simp: transition_body_def guards split: if_splits
      intro: book_bind_journal book_configure_profile book_register_lifecycle book_commit_cost book_set_hold book_reserve)

text \<open>A transition creates only identities of its body that were not claimed.\<close>

definition creates :: "string list \<Rightarrow> projection \<Rightarrow> projection \<Rightarrow> bool" where
  "creates new p q \<longleftrightarrow> mset (entity_ids q) = mset (entity_ids p) + mset new \<and> fresh new p = Inr ()"

lemma creates_bind_journal: "bind_journal p body = Inr q \<Longrightarrow> creates [] p q"
  by (auto simp: bind_journal_def creates_def entity_ids_def fresh_def Let_def guards)

lemma creates_configure_profile: "configure_profile p body = Inr q \<Longrightarrow> creates [] p q"
  by (auto simp: configure_profile_def creates_def entity_ids_def fresh_def Let_def guards)

lemma creates_register_lifecycle: "register_lifecycle p body = Inr q \<Longrightarrow> creates [jstr (fld body ''lifecycle_id'')] p q"
  by (auto simp: register_lifecycle_def creates_def entity_ids_def Let_def guards)

lemma creates_commit_cost: "commit_cost p body t = Inr q \<Longrightarrow> creates [jstr (fld body ''cost_id'')] p q"
  by (auto simp: commit_cost_def creates_def entity_ids_def Let_def guards)

lemma creates_set_hold: "set_hold p body = Inr q \<Longrightarrow> creates [jstr (fld body ''hold_id'')] p q"
  by (auto simp: set_hold_def creates_def entity_ids_def Let_def guards)

lemma creates_reserve: "reserve env p body t = Inr q \<Longrightarrow> creates (own_claims body) p q"
  by (auto simp: reserve_def check_claims_def creates_def entity_ids_def attempt_claims_def own_claims_def
      body_attempt_def body_candidate_def Let_def guards split: evaluation.splits)

lemmas creates_intros = creates_bind_journal creates_configure_profile creates_register_lifecycle
  creates_commit_cost creates_set_hold creates_reserve

definition created :: "string \<Rightarrow> json \<Rightarrow> string list" where
  "created kind body =
     (if kind \<in> {''journal_bound'', ''profile_configured''} then []
      else if kind = ''lifecycle_registered'' then [jstr (fld body ''lifecycle_id'')]
      else if kind = ''non_model_committed'' then [jstr (fld body ''cost_id'')]
      else if kind = ''reservation_created'' then own_claims body
      else [jstr (fld body ''hold_id'')])"

lemma creates_transition: "transition_body env p kind body t = Inr q \<Longrightarrow> creates (created kind body) p q"
  by (auto simp: transition_body_def created_def guards split: if_splits intro: creates_intros)

lemma created_body_ids: "set (created kind body) \<subseteq> set (body_ids kind body)"
  by (auto simp: created_def body_ids_def own_claims_def)

lemma next_projectionD:
  assumes "next_projection env p e v = Inr q"
  obtains u where "transition_body env p (jstr (fld v ''event_type'')) (fld v ''data'') (stamp (fld v ''recorded_at_utc'')) = Inr u"
    "head_sequence p < 8192" "jstr (fld v ''event_id'') \<notin> pj_claimed_ids p"
    "head_digest p = Inr (jstr (fld v ''previous_digest''))" "jint (fld v ''sequence'') = head_sequence p + 1"
    "q = u\<lparr>pj_events := pj_events p @ [e], pj_last_at := stamp (fld v ''recorded_at_utc''),
       pj_claimed_ids := pj_claimed_ids p \<union> insert (jstr (fld v ''event_id''))
         (set (body_ids (jstr (fld v ''event_type'')) (fld v ''data''))),
       pj_event_ids := insert (jstr (fld v ''event_id'')) (pj_event_ids p)\<rparr>"
    "jstr (fld v ''event_type'') \<noteq> ''genesis''" "pj_last_at p \<le> stamp (fld v ''recorded_at_utc'')"
  using assms by (auto simp: next_projection_def Let_def guards)

lemma claims_next:
  assumes "next_projection env p e v = Inr q" "claims_ok p"
  shows "claims_ok q"
  using assms(1)
proof (cases rule: next_projectionD)
  case (1 u)
  let ?new = "created (jstr (fld v ''event_type'')) (fld v ''data'')"
  have c: "mset (entity_ids u) = mset (entity_ids p @ ?new)" "fresh ?new p = Inr ()"
    using creates_transition [OF 1(1)] by (simp_all add: creates_def)
  have "entity_ids q = entity_ids u" using 1(6) by (simp add: entity_ids_def)
  then have "set (entity_ids q) = set (entity_ids p @ ?new)" "distinct (entity_ids q) = distinct (entity_ids p @ ?new)"
    using mset_eq_setD [OF c(1)] mset_eq_imp_distinct_iff [OF c(1)] by simp_all
  then show ?thesis
    using c(2) assms(2) created_body_ids [of "jstr (fld v ''event_type'')" "fld v ''data''"] 1(6)
    by (auto simp: claims_ok_def fresh_def guards)
qed

lemma log_next:
  assumes n: "next_projection env p e v = Inr q" and "log_ok p" and v: "event_fields e = Inr v" "genuine env e"
  shows "log_ok q"
  using n
proof (cases rule: next_projectionD)
  case (1 u)
  have w: "validate_event (en_pads env) v = Inr ()"
    using decode_event_again [of "en_sha256 env" "en_pads env" e] v by (auto simp: genuine_def)
  then obtain i h where "fld v ''sequence'' = JInt i" "fld v ''previous_digest'' = JStr h"
    by (auto simp: validate_event_def ev_integer_def ev_digest_def ev_check_def guards split: json.splits)
  then have "event_field e ''sequence'' = JInt (head_sequence p + 1)" "Inr (event_field e ''previous_digest'') = rbind (head_digest p) (\<lambda>h. Inr (JStr h))"
    using 1 v(1) by (simp_all add: event_field_def)
  then show ?thesis
    using 1 assms(2) v(1)
    by (auto simp: log_ok_def chained_snoc head_sequence_def head_digest_def event_id_of_def)
qed

lemma evaluated_policy:
  assumes "evaluate_reservation tz s c t = Proposed r"
  shows "sn_population s = ''hypothetical_complete''" "sn_holds s = []" "within_limits (pr_totals r)"
proof -
  obtain current lives rows a where e: "accepted_by tz s c t r current lives rows a"
    using assms evaluate_accepted by blast
  show "sn_population s = ''hypothetical_complete''" "sn_holds s = []"
    using accepted_byD(2) [OF e] by (auto simp: check_header_def guards)
  show "within_limits (pr_totals r)"
    using accepted_byD(7) [OF e] by (elim propose_Inr) (auto intro: limits_Inr)
qed

lemma reserve_evaluated:
  assumes "reserve env p body t = Inr q"
  shows "pj_population p = ''synthetic_complete''" "pj_holds p = []"
    "\<exists>r. evaluate_reservation (en_tz env) (snapshot_at p body t) (body_candidate p body) t = Proposed r \<and>
       within_limits (pr_totals r)"
proof -
  obtain r where "evaluate_reservation (en_tz env) (snapshot_at p body t) (body_candidate p body) t = Proposed r"
    using assms by (auto simp: reserve_def guards split: evaluation.splits)
  note e = this evaluated_policy [OF this]
  then show "pj_population p = ''synthetic_complete''" "pj_holds p = []"
    "\<exists>r. evaluate_reservation (en_tz env) (snapshot_at p body t) (body_candidate p body) t = Proposed r \<and>
       within_limits (pr_totals r)"
    by (auto simp: snapshot_at_def split: if_splits)
qed

lemma attempts_transition:
  assumes "transition_body env p kind body t = Inr q" "pj_attempts q \<noteq> pj_attempts p"
  shows "reserve env p body t = Inr q"
  using assms
  by (auto simp: transition_body_def bind_journal_def configure_profile_def register_lifecycle_def commit_cost_def
      set_hold_def Let_def guards split: if_splits)

lemma reserving_next:
  assumes "next_projection env p e v = Inr q" "reserving_ok p"
  shows "reserving_ok q"
  using assms(1)
proof (cases rule: next_projectionD)
  case (1 u)
  have "pj_population u = ''synthetic_complete''" if "pj_attempts u \<noteq> pj_attempts p"
    using attempts_transition [OF 1(1) that] reserve_evaluated(1) transition_frame [OF 1(1)] by auto
  then show ?thesis
    using assms(2) 1(6) transition_frame [OF 1(1)] by (auto simp: reserving_ok_def)
qed

lemma book_next: "next_projection env p e v = Inr q \<Longrightarrow> book_ok p \<Longrightarrow> book_ok q"
  by (erule next_projectionD) (auto dest!: book_transition simp: book_ok_def)

text \<open>
  C6: the ledger invariant.  Every reached history holds at most 8,192 events whose sequence
  numbers count from 1 and whose previous digests link each event to the one before it; its
  event identities are distinct, recorded and claimed; profiles, lifecycles, costs, attempts
  and holds stay within their limits; profiles, bindings and the week slots of lifecycles do
  not repeat; and the identities of lifecycles, costs, holds and of every attempt's intent,
  attempt, reservation, run and lease are all claimed and pairwise different.
\<close>
theorem ledger_invariant:
  "sourced (history_step env) p \<Longrightarrow> log_ok p \<and> book_ok p \<and> claims_ok p"
  by (induction rule: reached_induct) (auto dest: genesis_ok intro: log_next book_next claims_next)

lemma ledger_ok: "reached env p \<Longrightarrow> log_ok p"
  by (induction rule: reached_induct) (auto dest: genesis_ok intro: log_next)

lemma ledger_reserving: "reached env p \<Longrightarrow> reserving_ok p"
  by (induction rule: reached_induct) (auto dest: genesis_ok intro: reserving_next)

text \<open>
  C23: a history of the Receiver never reserves.  Every reached history with an attempt has the
  population \<open>synthetic_complete\<close>, which only a fixture's genesis sets.
\<close>
theorem receiver_never_reserves:
  "sourced (history_step env) p \<Longrightarrow> pj_population p \<noteq> ''synthetic_complete'' \<Longrightarrow> pj_attempts p = []"
  using ledger_reserving by (auto simp: reserving_ok_def)


section \<open>Replayed events and the head\<close>

text \<open>Every event of a reached history is genuine and of the history's own ledger.\<close>

definition own_event :: "acct_env \<Rightarrow> projection \<Rightarrow> event \<Rightarrow> bool" where
  "own_event env p e \<longleftrightarrow> genuine env e \<and> jstr (event_field e ''ledger_uuid'') = pj_ledger_uuid p \<and>
     jint (event_field e ''ledger_generation'') = pj_ledger_generation p \<and>
     jstr (event_field e ''experiment_id'') = pj_experiment_id p"

lemma own_events: "reached env p \<Longrightarrow> e \<in> set (pj_events p) \<Longrightarrow> own_event env p e"
proof (induction arbitrary: e rule: sourced.induct)
  case (sourced_first d s)
  then show ?case
    by (elim history_firstD) (auto simp: genesis_projection_def own_event_def event_field_def Let_def guards)
next
  case (sourced_next s d s')
  have frame: "pj_ledger_uuid s' = pj_ledger_uuid s \<and> pj_ledger_generation s' = pj_ledger_generation s \<and>
      pj_experiment_id s' = pj_experiment_id s"
    using sourced_next(2) by (cases rule: history_stepD) (auto elim!: next_projectionD dest!: transition_frame)
  have "s' = s \<or> pj_events s' = pj_events s @ [d]" using ledger.step_logs [OF sourced_next(2)] .
  moreover have "own_event env s' d" if "s' \<noteq> s"
    using sourced_next(2) that frame
    by (auto simp: history_step_def apply_validated_def decode_genuine own_event_def event_field_def guards
        split: if_splits option.splits dest!: next_projection_events)
  moreover have "pj_events s' \<noteq> pj_events s @ [d] \<or> s' \<noteq> s" by auto
  ultimately show ?case using sourced_next(3) [of e] sourced_next(4) frame by (auto simp: own_event_def)
qed

lemma find_own_event:
  assumes "distinct (map f xs)" "x \<in> set xs"
  shows "find (\<lambda>y. f y = f x) xs = Some x"
  using assms by (induction xs) (auto simp: image_iff)

text \<open>
  C21: recording an event again changes nothing.  Applying any event of a reached history at the
  history's head rebuilds the history, finds the event by its identity and returns the same
  projection.
\<close>
theorem duplicate_event_idempotent:
  assumes "sourced (history_step env) p" "e \<in> set (pj_events p)" "head_digest p = Inr h"
  shows "apply_event env (Some p) e h = Inr p"
proof -
  have l: "log_ok p" by (rule ledger_ok [OF assms(1)])
  have o: "own_event env p e" by (rule own_events [OF assms(1,2)])
  then obtain v where v: "event_fields e = Inr v"
    using decode_event_again [of "en_sha256 env" "en_pads env" e] by (auto simp: own_event_def genuine_def)
  have "find (\<lambda>d. event_id_of d = event_id_of e) (pj_events p) = Some e"
    by (rule find_own_event) (use l assms(2) in \<open>simp_all add: log_ok_def\<close>)
  moreover have "event_id_of e \<in> pj_event_ids p" using l assms(2) by (simp add: log_ok_def)
  ultimately have "apply_validated env (Some p) e h = Inr p"
    using o v assms(3) by (simp add: apply_validated_def own_event_def genuine_def event_field_def event_id_of_def)
  then show ?thesis using assms(1,3) replay_iff [of env "pj_events p" p] by (simp add: apply_event_def)
qed

text \<open>
  C7: the head digest determines the history.  Two reached histories with the same head digest
  are equal, unless the hash collides on two of their events.
\<close>
theorem head_determines_history:
  assumes "sourced (history_step env) p" "sourced (history_step env) q" "head_digest p = head_digest q"
    and "\<And>d e. d \<in> set (pj_events p) \<Longrightarrow> e \<in> set (pj_events q) \<Longrightarrow> ae_digest d = ae_digest e \<Longrightarrow> ae_raw d = ae_raw e"
  shows "p = q"
proof -
  have "pj_events p = pj_events q"
    using ledger_ok [OF assms(1)] ledger_ok [OF assms(2)] assms(3)
    by (intro chained_unique) (auto simp: log_ok_def head_digest_def intro!: event.equality assms(4))
  then show ?thesis
    using replay_iff [of env "pj_events p"] assms(1,2) by (metis sum.inject(2))
qed

section \<open>The Receiver's ledger\<close>

text \<open>
  \<open>AccountingLedger\<close> builds events of the Receiver from a verified head.  The store's
  \<open>append\<close> (and \<open>create\<close>) is a parameter.
\<close>

definition ledger_create :: "acct_env \<Rightarrow> (event \<Rightarrow> 'r res) \<Rightarrow> json \<Rightarrow> json \<Rightarrow> json \<Rightarrow> json \<Rightarrow> json \<Rightarrow> 'r res" where
  "ledger_create env store_create ledger_uuid ledger_generation experiment_id event_id recorded_at_utc =
     (case encode_event (en_sha256 env) (en_pads env) ledger_uuid ledger_generation experiment_id (JInt 1) (JStr zero_digest)
        event_id recorded_at_utc (JStr ''receiver'') (JStr ''genesis'')
        (JObj [(''policy_revision'', JStr ''accounting-v1''), (''population'', JStr ''unknown'')]) of
        Inl _ \<Rightarrow> Inl ''ledger_event_invalid''
      | Inr genesis \<Rightarrow> store_create genesis)"

fun position_of :: "string \<Rightarrow> event list \<Rightarrow> nat \<Rightarrow> nat option" where
  "position_of d [] n = None"
| "position_of d (e # es) n = (if ae_digest e = d then Some n else position_of d es (Suc n))"

definition ledger_record :: "acct_env \<Rightarrow> (event \<Rightarrow> string \<Rightarrow> 'r res) \<Rightarrow> projection \<Rightarrow> json \<Rightarrow> json \<Rightarrow> json \<Rightarrow> json \<Rightarrow> string \<Rightarrow> 'r res" where
  "ledger_record env store_append p event_type body event_id recorded_at_utc expected_head =
     (if event_type = JStr ''reservation_created'' then Inl ''reservation_unavailable''
      else case position_of expected_head (pj_events p) 1 of
        None \<Rightarrow> Inl ''stale_head''
      | Some predecessor \<Rightarrow>
          (case encode_event (en_sha256 env) (en_pads env) (JStr (pj_ledger_uuid p)) (JInt (pj_ledger_generation p))
             (JStr (pj_experiment_id p)) (JInt (int predecessor + 1)) (JStr expected_head) event_id recorded_at_utc
             (JStr ''receiver'') event_type body of
             Inl _ \<Rightarrow> Inl ''ledger_event_invalid''
           | Inr e \<Rightarrow> store_append e expected_head))"

lemma other_kinds_keep_attempts:
  assumes "transition_body env p kind body t = Inr q" "kind \<noteq> ''reservation_created''"
  shows "pj_attempts q = pj_attempts p"
  using assms
  by (auto simp: transition_body_def bind_journal_def configure_profile_def register_lifecycle_def commit_cost_def
      set_hold_def Let_def guards split: if_splits)

lemma next_keeps_attempts:
  "next_projection env p e v = Inr q \<Longrightarrow> jstr (fld v ''event_type'') \<noteq> ''reservation_created'' \<Longrightarrow> pj_attempts q = pj_attempts p"
  by (elim next_projectionD) (simp add: other_kinds_keep_attempts)

lemma encoded_fields:
  assumes "encode_event sha pads u g x q p i t a k b = Inr e" "list_all wf_json [u, g, x, q, p, i, t, a, k, b]"
    "\<And>s. hex64_string (sha s)"
  shows "event_fields e = Inr (sort_json (event_value u g x q p i t a k b))"
proof -
  let ?v = "event_value u g x q p i t a k b"
  obtain raw where r: "validate_event pads ?v = Inr ()" "canonical_json True ?v = Inr raw" "length raw \<le> MAX_BODY"
    "e = \<lparr>ae_raw = raw, ae_digest = event_digest sha raw\<rparr>"
    using assms(1) by (auto simp: encode_event_def Let_def guards split: sum.splits)
  show ?thesis
    using decode_encoded(2) [OF wf_event_value [OF assms(2)] r(1-3), of sha] assms(3) r(4)
    by (simp add: event_fields_def event_digest_def)
qed

text \<open>
  C22: the Receiver's ledger never reserves.  Whatever arguments \<open>record\<close> is called with, and
  whatever the population of the history is, an event that it builds and appends through
  \<open>apply_event\<close> leaves the attempts of the history unchanged.
\<close>
theorem record_never_reserves:
  assumes "ledger_record env (apply_event env (Some p)) p event_type body event_id t h = Inr q"
    and "wf_json event_type" "wf_json body" "wf_json event_id" "wf_json t" "\<And>s. hex64_string (en_sha256 env s)"
  shows "pj_attempts q = pj_attempts p"
proof -
  obtain n e where k: "event_type \<noteq> JStr ''reservation_created''" and e: "encode_event (en_sha256 env) (en_pads env) (JStr (pj_ledger_uuid p))
      (JInt (pj_ledger_generation p)) (JStr (pj_experiment_id p)) (JInt (int n + 1)) (JStr h) event_id t
      (JStr ''receiver'') event_type body = Inr e" and a: "apply_event env (Some p) e h = Inr q"
    using assms(1) by (auto simp: ledger_record_def split: if_splits option.splits sum.splits)
  let ?v = "event_value (JStr (pj_ledger_uuid p)) (JInt (pj_ledger_generation p)) (JStr (pj_experiment_id p)) (JInt (int n + 1))
    (JStr h) event_id t (JStr ''receiver'') event_type body"
  have w: "wf_json ?v" by (rule wf_event_value) (use assms in simp)
  have v: "event_fields e = Inr (sort_json ?v)" by (rule encoded_fields [OF e]) (use assms in simp_all)
  have "fld ?v ''event_type'' = event_type" by (simp add: event_value_def TOP_KEYS_def fld_def)
  moreover have "jstr_in (map fst DATA_KEYS) event_type"
    using e \<open>fld ?v ''event_type'' = event_type\<close> by (auto simp: encode_event_def validate_event_def Let_def guards)
  ultimately have n: "jstr (fld (sort_json ?v) ''event_type'') \<noteq> ''reservation_created''"
    using k w by (cases event_type) (auto simp: sorted_checks)
  have "apply_validated env (Some p) e h = Inr q" using a by (auto simp: apply_event_def guards)
  then have "history_step env (Some p) e = Inr q" by (auto simp: history_step_def apply_validated_def guards)
  then show ?thesis
    by (cases rule: history_stepD) (use v n next_keeps_attempts in auto)
qed

section \<open>Examples\<close>

definition sample_env :: acct_env where
  "sample_env = \<lparr>en_sha256 = (\<lambda>_. zero_digest), en_pads = False, en_tz = eastern\<rparr>"

definition sample_start :: "event \<Rightarrow> projection" where
  "sample_start e = \<lparr>pj_ledger_uuid = sample_uuid CHR ''1'', pj_ledger_generation = 1, pj_experiment_id = sample_uuid CHR ''2'',
     pj_population = ''unknown'', pj_events = [e], pj_claimed_ids = {sample_uuid CHR ''1'', sample_uuid CHR ''2'', sample_uuid CHR ''3''},
     pj_event_ids = {sample_uuid CHR ''3''}, pj_last_at = stamp (JStr ''2026-11-16T09:30:00.000000Z''), pj_bindings = [],
     pj_profiles = [], pj_lifecycles = [], pj_costs = [], pj_attempts = [], pj_holds = []\<rparr>"

lemma sample_decodes:
  assumes "wf_json v" "validate_event False v = Inr ()" "canonical_json True v = Inr raw" "length raw \<le> MAX_BODY"
  shows "genuine sample_env \<lparr>ae_raw = raw, ae_digest = zero_digest\<rparr>"
    "event_fields \<lparr>ae_raw = raw, ae_digest = zero_digest\<rparr> = Inr (sort_json v)"
  using decode_encoded [OF assms, of "\<lambda>_. zero_digest"]
  by (simp_all add: event_digest_def genuine_def sample_env_def event_fields_def)

lemma sample_history:
  obtains e where "sourced (history_step sample_env) (sample_start e)" "ae_digest e = zero_digest"
proof -
  obtain raw where raw: "canonical_json True sample_value = Inr raw" "length raw \<le> MAX_BODY"
    using sample_value_canonical by blast
  let ?e = "\<lparr>ae_raw = raw, ae_digest = zero_digest\<rparr>"
  note d = sample_decodes [OF sample_value_valid raw]
  have "genesis_projection ?e (sort_json sample_value) = Inr (sample_start ?e)"
    using sample_value_valid
    by (simp add: genesis_projection_def sorted_checks wf_fld Let_def)
      (simp add: sample_value_def event_value_def TOP_KEYS_def fld_def sample_body_def sample_start_def sample_uuid_def numeral_eq_Suc)
  then have "history_step sample_env None ?e = Inr (sample_start ?e)"
    using d by (simp add: history_step_def apply_validated_def genuine_def)
  then have "sourced (history_step sample_env) (sample_start ?e)" by (rule sourced_first [where step = "history_step sample_env"])
  then show thesis by (rule that) simp
qed

theorem ledger_invariant_witness:
  "\<exists>e. sourced (history_step sample_env) (sample_start e) \<and> log_ok (sample_start e) \<and> claims_ok (sample_start e)"
  by (rule sample_history) (use ledger_invariant in blast)

theorem receiver_never_reserves_witness:
  "\<exists>e. sourced (history_step sample_env) (sample_start e) \<and> pj_attempts (sample_start e) = []"
proof (rule sample_history)
  fix e assume s: "sourced (history_step sample_env) (sample_start e)"
  have "pj_population (sample_start e) \<noteq> ''synthetic_complete''" by (simp add: sample_start_def)
  then have "pj_attempts (sample_start e) = []" by (rule receiver_never_reserves [OF s])
  with s show ?thesis by blast
qed

theorem duplicate_event_idempotent_witness:
  "\<exists>e. apply_event sample_env (Some (sample_start e)) e zero_digest = Inr (sample_start e)"
proof (rule sample_history)
  fix e assume "sourced (history_step sample_env) (sample_start e)" "ae_digest e = zero_digest"
  then have "apply_event sample_env (Some (sample_start e)) e zero_digest = Inr (sample_start e)"
    by (intro duplicate_event_idempotent) (simp_all add: sample_start_def head_digest_def)
  then show ?thesis by blast
qed

theorem head_determines_history_witness:
  "\<exists>e. sourced (history_step sample_env) (sample_start e) \<and> sample_start e = sample_start e"
proof (rule sample_history)
  fix e assume s: "sourced (history_step sample_env) (sample_start e)"
  have "sample_start e = sample_start e"
    by (rule head_determines_history [OF s s refl]) (simp add: sample_start_def)
  with s show ?thesis by blast
qed

definition sample_hold :: json where
  "sample_hold = JObj [(''hold_id'', JStr (sample_uuid CHR ''4'')), (''code'', JStr ''recovery_incomplete'')]"

definition sample_hold_value :: json where
  "sample_hold_value = event_value (JStr (sample_uuid CHR ''1'')) (JInt 1) (JStr (sample_uuid CHR ''2''))
     (JInt 2) (JStr zero_digest) (JStr (sample_uuid CHR ''5'')) (JStr ''2026-11-16T09:31:00.000000Z'') (JStr ''receiver'')
     (JStr ''hold_set'') sample_hold"

lemma sample_hold_valid: "wf_json sample_hold_value" "validate_event False sample_hold_value = Inr ()"
  by code_simp+

lemma sample_hold_canonical: "\<exists>raw. canonical_json True sample_hold_value = Inr raw \<and> length raw \<le> MAX_BODY"
  by (simp add: sample_hold_value_def event_value_def TOP_KEYS_def sample_hold_def sample_uuid_def zero_digest_def canonical_eval
      MAX_BODY_def list_all_replicate bad_characters_printable)

lemma sample_stamps: "stamp (JStr ''2026-11-16T09:30:00.000000Z'') \<le> stamp (JStr ''2026-11-16T09:31:00.000000Z'')"
  by code_simp

lemma sample_hold_applies:
  assumes s: "sourced (history_step sample_env) (sample_start e)" "ae_digest e = zero_digest"
  shows "\<exists>q. ledger_record sample_env (apply_event sample_env (Some (sample_start e))) (sample_start e) (JStr ''hold_set'')
    sample_hold (JStr (sample_uuid CHR ''5'')) (JStr ''2026-11-16T09:31:00.000000Z'') zero_digest = Inr q"
proof -
  let ?p = "sample_start e"
  obtain raw where raw: "canonical_json True sample_hold_value = Inr raw" "length raw \<le> MAX_BODY"
    using sample_hold_canonical by blast
  let ?e = "\<lparr>ae_raw = raw, ae_digest = zero_digest\<rparr>"
  note d = sample_decodes [OF sample_hold_valid raw]
  have h: "head_digest ?p = Inr zero_digest" using s(2) by (simp add: head_digest_def sample_start_def)
  have f: "fld sample_hold_value k = the (map_of (zip TOP_KEYS [JInt 1, JStr (sample_uuid CHR ''1''), JInt 1, JStr (sample_uuid CHR ''2''),
      JInt 2, JStr zero_digest, JStr (sample_uuid CHR ''5''), JStr ''2026-11-16T09:31:00.000000Z'', JStr ''receiver'',
      JStr ''hold_set'', sample_hold]) k)" if "k \<in> set TOP_KEYS" for k
    using that by (auto simp: sample_hold_value_def event_value_def TOP_KEYS_def fld_def)
  have "\<exists>q. next_projection sample_env ?p ?e (sort_json sample_hold_value) = Inr q"
    using sample_hold_valid(1) h sample_stamps
    by (simp add: next_projection_def sorted_checks wf_fld Let_def f TOP_KEYS_def)
      (simp add: sample_start_def head_sequence_def body_ids_def transition_body_def set_hold_def fresh_def sample_hold_def fld_def
        sample_uuid_def numeral_eq_Suc)
  then obtain q where "apply_validated sample_env (Some ?p) ?e zero_digest = Inr q"
    using d h sample_hold_valid(1)
    by (simp add: apply_validated_def genuine_def sorted_checks wf_fld f TOP_KEYS_def)
      (auto simp: sample_start_def sample_uuid_def numeral_eq_Suc)
  then have "apply_event sample_env (Some ?p) ?e zero_digest = Inr q"
    using replay_iff [of sample_env "pj_events ?p" ?p] s(1) h by (simp add: apply_event_def)
  moreover have "encode_event (\<lambda>_. zero_digest) False (JStr (sample_uuid CHR ''1'')) (JInt 1) (JStr (sample_uuid CHR ''2''))
     (JInt 2) (JStr zero_digest) (JStr (sample_uuid CHR ''5'')) (JStr ''2026-11-16T09:31:00.000000Z'') (JStr ''receiver'')
     (JStr ''hold_set'') sample_hold = Inr ?e"
    using raw sample_hold_valid by (simp add: encode_event_def event_digest_def flip: sample_hold_value_def)
  ultimately show ?thesis
    using s(2) by (auto simp: ledger_record_def sample_start_def sample_env_def)
qed

theorem record_never_reserves_witness:
  "\<exists>e q. ledger_record sample_env (apply_event sample_env (Some (sample_start e))) (sample_start e) (JStr ''hold_set'')
    sample_hold (JStr (sample_uuid CHR ''5'')) (JStr ''2026-11-16T09:31:00.000000Z'') zero_digest = Inr q \<and> pj_attempts q = []"
proof (rule sample_history)
  fix e assume "sourced (history_step sample_env) (sample_start e)" "ae_digest e = zero_digest"
  then obtain q where q: "ledger_record sample_env (apply_event sample_env (Some (sample_start e))) (sample_start e) (JStr ''hold_set'')
    sample_hold (JStr (sample_uuid CHR ''5'')) (JStr ''2026-11-16T09:31:00.000000Z'') zero_digest = Inr q"
    using sample_hold_applies by blast
  have "pj_attempts q = pj_attempts (sample_start e)"
    by (rule record_never_reserves [OF q]) (simp_all add: sample_hold_def sample_env_def)
  then have "pj_attempts q = []" by (simp add: sample_start_def)
  with q show ?thesis by blast
qed




end
