(* ===== verification/VenueAge.thy ===== *)
theory VenueAge
  imports Prelude
begin

text \<open>
  Venue age from claimed provider times (\<open>venue_age.py\<close>): an interval for the age of a
  resource, carried from one observation to the next.  Times are nanoseconds.
\<close>

definition MAX_NS :: int where "MAX_NS = 2 ^ 63 - 1"
definition MAX_EPSILON_NS :: int where "MAX_EPSILON_NS = 5000000000"

record age_anchor =
  aa_lower :: int
  aa_upper :: int
  aa_monotonic_anchor :: int
  aa_boot_id :: string
  aa_resource_digest :: string

record claimed_provider_time =
  cp_provider_created_at :: int
  cp_provider_now :: int
  cp_epsilon :: int
  cp_request_started :: int
  cp_response_received :: int
  cp_observer_boot_id :: string
  cp_resource_digest :: string

definition valid_ns :: "int \<Rightarrow> bool" where
  "valid_ns v \<longleftrightarrow> 0 \<le> v \<and> v \<le> MAX_NS"

definition checked_sum :: "int list \<Rightarrow> int res" where
  "checked_sum vs = (if sum_list vs > MAX_NS then Inl ''age_overflow'' else Inr (sum_list vs))"

definition check_fresh :: "claimed_provider_time \<Rightarrow> unit res" where
  "check_fresh f =
     rbind (require (list_all valid_ns [cp_provider_created_at f, cp_provider_now f, cp_epsilon f,
       cp_request_started f, cp_response_received f]) ''age_time_invalid'') (\<lambda>_.
     rbind (require (safe_id_string (cp_observer_boot_id f) \<and> hex64_string (cp_resource_digest f)) ''age_identity_invalid'') (\<lambda>_.
     require (\<not> (cp_provider_now f < cp_provider_created_at f \<or> cp_response_received f < cp_request_started f \<or>
       cp_epsilon f > MAX_EPSILON_NS)) ''age_time_invalid''))"

definition check_prior :: "age_anchor option \<Rightarrow> claimed_provider_time \<Rightarrow> unit res" where
  "check_prior prior f = (case prior of None \<Rightarrow> Inr ()
   | Some p \<Rightarrow>
       rbind (require (list_all valid_ns [aa_lower p, aa_upper p, aa_monotonic_anchor p] \<and> aa_lower p \<le> aa_upper p)
         ''age_anchor_invalid'') (\<lambda>_.
       rbind (require (safe_id_string (aa_boot_id p) \<and> hex64_string (aa_resource_digest p)) ''age_anchor_invalid'') (\<lambda>_.
       require (aa_resource_digest p = cp_resource_digest f) ''age_identity_changed'')))"

definition prior_bounds :: "age_anchor option \<Rightarrow> claimed_provider_time \<Rightarrow> (int \<times> int) res" where
  "prior_bounds prior f = (case prior of None \<Rightarrow> Inr (0, 0)
   | Some p \<Rightarrow>
       if aa_boot_id p = cp_observer_boot_id f then
         rbind (require (\<not> cp_request_started f < aa_monotonic_anchor p) ''age_anchor_lost'') (\<lambda>_.
         let elapsed = cp_response_received f - aa_monotonic_anchor p in
         rbind (checked_sum [aa_lower p, elapsed]) (\<lambda>lower.
         rbind (checked_sum [aa_upper p, elapsed]) (\<lambda>upper.
         Inr (lower, upper))))
       else Inr (aa_lower p, aa_upper p))"

definition derive_claimed_age :: "age_anchor option \<Rightarrow> claimed_provider_time \<Rightarrow> age_anchor res" where
  "derive_claimed_age prior f =
     rbind (check_fresh f) (\<lambda>_.
     rbind (check_prior prior f) (\<lambda>_.
     let delta = cp_provider_now f - cp_provider_created_at f;
         rtt = cp_response_received f - cp_request_started f;
         fresh_lower = max 0 (delta - cp_epsilon f) in
     rbind (checked_sum [delta, cp_epsilon f, rtt]) (\<lambda>fresh_upper.
     rbind (prior_bounds prior f) (\<lambda>(prior_lower, prior_upper).
     rbind (require (\<not> fresh_upper < prior_upper) ''age_rollback'') (\<lambda>_.
     Inr \<lparr>aa_lower = max prior_lower fresh_lower, aa_upper = max prior_upper fresh_upper,
          aa_monotonic_anchor = cp_response_received f, aa_boot_id = cp_observer_boot_id f,
          aa_resource_digest = cp_resource_digest f\<rparr>)))))"

section \<open>Soundness of the interval\<close>

text \<open>
  What an honest observation means.  \<open>sample\<close> is an instant of the measured request and
  \<open>age\<close> the true age of the resource as a function of the observer's monotonic clock, which
  the clock's own progress drives while one boot lasts.  The provider's clock difference is
  within epsilon of the true age at \<open>sample\<close>.
\<close>

definition honest_claim :: "claimed_provider_time \<Rightarrow> (int \<Rightarrow> int) \<Rightarrow> int \<Rightarrow> bool" where
  "honest_claim f age sample \<longleftrightarrow> cp_request_started f \<le> sample \<and> sample \<le> cp_response_received f \<and>
     (\<forall>t. age t = age sample + (t - sample)) \<and> 0 \<le> age (cp_request_started f) \<and>
     \<bar>(cp_provider_now f - cp_provider_created_at f) - age sample\<bar> \<le> cp_epsilon f"

text \<open>The prior interval held when it was anchored; across a boot the resource only got older.\<close>

definition honest_prior :: "age_anchor option \<Rightarrow> claimed_provider_time \<Rightarrow> (int \<Rightarrow> int) \<Rightarrow> bool" where
  "honest_prior prior f age = (case prior of None \<Rightarrow> True
   | Some p \<Rightarrow> \<exists>then_age. aa_lower p \<le> then_age \<and> then_age \<le> aa_upper p \<and>
       (if aa_boot_id p = cp_observer_boot_id f then age (aa_monotonic_anchor p) = then_age
        else then_age \<le> age (cp_response_received f)))"

text \<open>The interval of an anchor is well formed.\<close>

definition anchor_ok :: "age_anchor \<Rightarrow> bool" where
  "anchor_ok a \<longleftrightarrow> 0 \<le> aa_lower a \<and> aa_upper a \<le> MAX_NS \<and> valid_ns (aa_monotonic_anchor a) \<and>
     safe_id_string (aa_boot_id a) \<and> hex64_string (aa_resource_digest a)"

lemma checked_sum_Inr [guards]: "checked_sum vs = Inr n \<longleftrightarrow> n = sum_list vs \<and> sum_list vs \<le> MAX_NS"
  by (auto simp: checked_sum_def)

text \<open>
  C37: the derived interval is sound.  If the claim is honest and the prior interval held, the
  true age at the time of the response is inside the derived interval, which is nonnegative,
  within 63 bits and anchored at the response.
\<close>
theorem venue_age_sound:
  assumes "derive_claimed_age prior f = Inr a" "honest_claim f age sample" "honest_prior prior f age"
  shows "aa_lower a \<le> age (cp_response_received f) \<and> age (cp_response_received f) \<le> aa_upper a \<and> anchor_ok a \<and>
    aa_monotonic_anchor a = cp_response_received f \<and> aa_resource_digest a = cp_resource_digest f"
proof -
  let ?f = "cp_provider_now f - cp_provider_created_at f" and ?r = "cp_response_received f"
  obtain pl pu where p: "prior_bounds prior f = Inr (pl, pu)" "check_fresh f = Inr ()" "check_prior prior f = Inr ()"
      "?f + cp_epsilon f + (?r - cp_request_started f) \<le> MAX_NS"
      "pu \<le> ?f + cp_epsilon f + (?r - cp_request_started f)"
    and a: "a = \<lparr>aa_lower = max pl (max 0 (?f - cp_epsilon f)), aa_upper = max pu (?f + cp_epsilon f + (?r - cp_request_started f)),
      aa_monotonic_anchor = ?r, aa_boot_id = cp_observer_boot_id f, aa_resource_digest = cp_resource_digest f\<rparr>"
    using assms(1) by (auto simp: derive_claimed_age_def Let_def guards algebra_simps)
  have age: "age t = age sample + (t - sample)" for t using assms(2) unfolding honest_claim_def by blast
  have h: "cp_request_started f \<le> sample" "sample \<le> ?r" "0 \<le> age (cp_request_started f)" "\<bar>?f - age sample\<bar> \<le> cp_epsilon f"
    using assms(2) unfolding honest_claim_def by blast+
  have pl: "pl \<le> age ?r \<and> 0 \<le> pl"
  proof (cases prior)
    case None
    then show ?thesis using p(1) h age [of ?r] age [of "cp_request_started f"] by (simp add: prior_bounds_def)
  next
    case (Some q)
    have q: "0 \<le> aa_lower q" using p(3) Some by (auto simp: check_prior_def valid_ns_def guards)
    obtain old where old: "aa_lower q \<le> old"
        "if aa_boot_id q = cp_observer_boot_id f then age (aa_monotonic_anchor q) = old else old \<le> age ?r"
      using assms(3) Some by (auto simp: honest_prior_def)
    show ?thesis
      using p(1) Some q old h age [of ?r] age [of "aa_monotonic_anchor q"]
      by (auto simp: prior_bounds_def Let_def guards split: if_splits)
  qed
  have "?f - cp_epsilon f \<le> age ?r" "0 \<le> age ?r" "age ?r \<le> ?f + cp_epsilon f + (?r - cp_request_started f)"
    using h age [of ?r] age [of "cp_request_started f"] by linarith+
  then show ?thesis
    using pl p by (auto simp: a anchor_ok_def check_fresh_def valid_ns_def guards)
qed

definition sample_claim :: claimed_provider_time where
  "sample_claim = \<lparr>cp_provider_created_at = 1000, cp_provider_now = 6000, cp_epsilon = 10, cp_request_started = 40,
     cp_response_received = 60, cp_observer_boot_id = ''boot-1'', cp_resource_digest = zero_digest\<rparr>"

theorem venue_age_sound_witness:
  "\<exists>a. derive_claimed_age None sample_claim = Inr a \<and> aa_lower a \<le> 5015 \<and> 5015 \<le> aa_upper a"
proof -
  have "safe_id_string ''boot-1''" by code_simp
  then obtain a where a: "derive_claimed_age None sample_claim = Inr a"
    by (auto simp: derive_claimed_age_def check_fresh_def check_prior_def prior_bounds_def checked_sum_def sample_claim_def
        valid_ns_def MAX_NS_def MAX_EPSILON_NS_def)
  show ?thesis
    using a venue_age_sound [OF a, of "\<lambda>t. 4955 + t" 50]
    by (auto simp: honest_claim_def honest_prior_def sample_claim_def)
qed

end
