(* ===== verification/RunOutcome.thy ===== *)
theory RunOutcome
  imports Prelude
begin













section \<open>What a state claims\<close>







end
