(* ===== verification/AudienceStatus.thy ===== *)
theory AudienceStatus
  imports Prelude
begin

text \<open>
  Operator-audience status decisions (\<open>audience_status.py\<close>): freshness of a section on a
  controlled clock, numbers that may be shown, and the current use of a pinned reference.
\<close>

definition AUDIENCE_MAX_NS :: int where "AUDIENCE_MAX_NS = 2 ^ 63 - 1"
definition STALE_AFTER_NS :: int where "STALE_AFTER_NS = 30000000000"
definition MAX_COUNT :: int where "MAX_COUNT = 2 ^ 53 - 1"

definition SOURCE_STATES :: "string list" where
  "SOURCE_STATES = [''confirmed'', ''unverified'', ''missing'', ''unavailable'', ''failed'']"

definition CAPTURED_STATES :: "string list" where
  "CAPTURED_STATES = [''approved'', ''unapproved'', ''unknown'']"

definition CURRENT_STATES :: "string list" where
  "CURRENT_STATES = [''approved'', ''unapproved'', ''revoked'', ''withdrawn'', ''expired'',
     ''correction_required'', ''unavailable'', ''unknown'']"

record count_status =
  cs_value :: "int option"
  cs_reason :: string

record pinned_reference =
  pr_reference_id :: pyval
  pr_source_version :: pyval
  pr_body_digest :: pyval
  pr_captured_state :: pyval

record current_reference =
  cr_reference_id :: pyval
  cr_source_version :: pyval
  cr_body_digest :: pyval
  cr_state :: pyval
  cr_verified :: pyval

record reference_status =
  rs_captured_state :: pyval
  rs_current_use :: string
  rs_reason :: string

definition aud_valid_id :: "pyval \<Rightarrow> bool" where
  "aud_valid_id v \<longleftrightarrow> is_str v \<and> safe_id_string (str_of v)"

definition aud_valid_digest :: "pyval \<Rightarrow> bool" where
  "aud_valid_digest v \<longleftrightarrow> is_str v \<and> hex64_string (str_of v)"

definition section_freshness :: "pyval \<Rightarrow> pyval \<Rightarrow> pyval \<Rightarrow> pyval \<Rightarrow> string" where
  "section_freshness now success current_epoch last_epoch =
     (if \<not> aud_valid_id current_epoch \<or> \<not> aud_valid_id last_epoch \<or> current_epoch \<noteq> last_epoch \<or>
         \<not> is_int_in 0 AUDIENCE_MAX_NS now \<or> \<not> is_int_in 0 AUDIENCE_MAX_NS success \<or> int_of now < int_of success
      then ''unknown''
      else if int_of now - int_of success > STALE_AFTER_NS then ''stale'' else ''fresh'')"

definition qualified_count :: "pyval \<Rightarrow> pyval \<Rightarrow> pyval \<Rightarrow> count_status res" where
  "qualified_count v source_state is_complete =
     rbind (require (is_str_in SOURCE_STATES source_state) ''count_source_state'') (\<lambda>_.
     rbind (require (is_bool is_complete) ''count_completeness'') (\<lambda>_.
     rbind (require (v = PNone \<or> is_int_in 0 MAX_COUNT v) ''count_value'') (\<lambda>_.
     if str_of source_state \<noteq> ''confirmed'' then Inr \<lparr>cs_value = None, cs_reason = str_of source_state\<rparr>
     else if \<not> truth is_complete then Inr \<lparr>cs_value = None, cs_reason = ''truncated''\<rparr>
     else if v = PNone then Inr \<lparr>cs_value = None, cs_reason = ''missing''\<rparr>
     else Inr \<lparr>cs_value = Some (int_of v), cs_reason = ''confirmed''\<rparr>)))"

definition valid_pin :: "pinned_reference \<Rightarrow> bool" where
  "valid_pin p \<longleftrightarrow> aud_valid_id (pr_reference_id p) \<and> aud_valid_id (pr_source_version p) \<and>
     aud_valid_digest (pr_body_digest p) \<and> is_str_in CAPTURED_STATES (pr_captured_state p)"

definition valid_current :: "current_reference \<Rightarrow> bool" where
  "valid_current c \<longleftrightarrow> aud_valid_id (cr_reference_id c) \<and> aud_valid_id (cr_source_version c) \<and>
     aud_valid_digest (cr_body_digest c) \<and> is_str_in CURRENT_STATES (cr_state c) \<and> is_bool (cr_verified c)"

definition current_use :: "pinned_reference \<Rightarrow> current_reference \<Rightarrow> string \<times> string" where
  "current_use p c =
     (if cr_reference_id c \<noteq> pr_reference_id p then (''unknown'', ''identity_conflict'')
      else if \<not> truth (cr_verified c) then (''unknown'', ''overlay_unverified'')
      else if str_of (cr_state c) \<in> {''revoked'', ''withdrawn'', ''expired'', ''correction_required''}
      then (''unavailable'', str_of (cr_state c))
      else if str_of (cr_state c) \<in> {''unknown'', ''unavailable''} then (''unknown'', str_of (cr_state c))
      else if str_of (cr_state c) = ''unapproved'' then (''unavailable'', ''unapproved'')
      else if cr_source_version c \<noteq> pr_source_version p \<or> cr_body_digest c \<noteq> pr_body_digest p
      then (''unavailable'', ''version_changed'')
      else (''approved'', ''current_verified''))"

definition pinned_reference_status :: "pinned_reference \<Rightarrow> current_reference option \<Rightarrow> reference_status res" where
  "pinned_reference_status p current =
     rbind (require (valid_pin p \<and> (case current of None \<Rightarrow> True | Some c \<Rightarrow> valid_current c)) ''reference_argument'') (\<lambda>_.
     let (use, reason) = (case current of None \<Rightarrow> (''unknown'', ''overlay_missing'') | Some c \<Rightarrow> current_use p c) in
     Inr \<lparr>rs_captured_state = pr_captured_state p, rs_current_use = use, rs_reason = reason\<rparr>)"

section \<open>What may be shown\<close>

text \<open>A number is shown only for a complete count of a confirmed source, and then it is that number.\<close>

lemma qualified_count_shown:
  assumes "qualified_count v source_state is_complete = Inr c"
  shows "cs_value c = Some n \<longleftrightarrow> source_state = PStr ''confirmed'' \<and> is_complete = PBool True \<and> v = PInt n"
proof -
  obtain s b where "source_state = PStr s" "is_complete = PBool b" "v = PNone \<or> (\<exists>i. v = PInt i)"
    using assms by (cases is_complete; cases source_state; cases v) (auto simp: qualified_count_def guards)
  then show ?thesis using assms by (auto simp: qualified_count_def guards split: if_splits)
qed

text \<open>Only a verified overlay of the same identity, version and body that is itself approved
  gives approval; the captured state never does.\<close>

lemma current_use_approved:
  assumes "is_str_in CURRENT_STATES (cr_state c)"
  shows "fst (current_use p c) = ''approved'' \<longleftrightarrow> cr_reference_id c = pr_reference_id p \<and> truth (cr_verified c) \<and>
    cr_state c = PStr ''approved'' \<and> cr_source_version c = pr_source_version p \<and> cr_body_digest c = pr_body_digest p"
  using assms by (auto simp: current_use_def CURRENT_STATES_def elim!: is_str_inE)

lemma pinned_reference_approved:
  assumes "pinned_reference_status p current = Inr r"
  shows "rs_current_use r = ''approved'' \<longleftrightarrow>
    (\<exists>c. current = Some c \<and> cr_reference_id c = pr_reference_id p \<and> truth (cr_verified c) \<and> cr_state c = PStr ''approved'' \<and>
      cr_source_version c = pr_source_version p \<and> cr_body_digest c = pr_body_digest p)"
proof (cases current)
  case None
  then show ?thesis using assms by (auto simp: pinned_reference_status_def guards)
next
  case (Some c)
  then have v: "is_str_in CURRENT_STATES (cr_state c)" and r: "rs_current_use r = fst (current_use p c)"
    using assms by (auto simp: pinned_reference_status_def valid_current_def guards split: prod.splits)
  then show ?thesis unfolding r Some using current_use_approved [OF v, of p] by auto
qed

text \<open>A section is fresh only within one epoch and within the stale bound.\<close>

lemma section_fresh_iff:
  "section_freshness now success ce le = ''fresh'' \<longleftrightarrow>
     (\<exists>n l e. now = PInt n \<and> success = PInt l \<and> ce = PStr e \<and> le = PStr e \<and> safe_id_string e \<and>
        0 \<le> l \<and> l \<le> n \<and> n \<le> AUDIENCE_MAX_NS \<and> n - l \<le> STALE_AFTER_NS)"
  by (cases now; cases success; cases ce; cases le) (auto simp: section_freshness_def aud_valid_id_def)

end
