(* ===== verification/ReservationBridge.thy ===== *)
theory ReservationBridge
  imports Prelude
begin

text \<open>
  The structural join of the journal's reservation intents with the ledger's reservations
  (\<open>reservation_bridge.py\<close>) and the read-only scan that feeds it from the two stores
  (\<open>reservation_scan.py\<close>).  The two store inspections are inputs of the scan.

  A ledger reservation carries every field of an intent, so its record extends the intent's.
  \<open>tuple(set(values))\<close> is \<open>remdups\<close>: the result depends on the members only.
\<close>

definition BRIDGE_MAX_FACTS :: nat where "BRIDGE_MAX_FACTS = 1024"
definition BRIDGE_MAX_GENERATION :: int where "BRIDGE_MAX_GENERATION = 2 ^ 31 - 1"
definition BRIDGE_MAX_SEQUENCE :: int where "BRIDGE_MAX_SEQUENCE = 2 ^ 53 - 1"

record journal_intent =
  ji_journal_uuid :: string
  ji_journal_generation :: int
  ji_admission_id :: string
  ji_intent_id :: string
  ji_attempt_id :: string
  ji_reservation_id :: string
  ji_run_id :: string
  ji_lease_id :: string
  ji_intent_digest :: string

record ledger_reservation = journal_intent +
  lr_ledger_uuid :: string
  lr_ledger_generation :: int
  lr_event_id :: string
  lr_sequence :: int
  lr_event_digest :: string
  lr_read_back :: bool

record journal_confirmation =
  jc_intent_id :: string
  jc_ledger_uuid :: string
  jc_ledger_generation :: int
  jc_event_id :: string
  jc_sequence :: int
  jc_event_digest :: string

record bridge_assessment =
  ba_hold :: bool
  ba_reason :: string

definition bridge_generation :: "int \<Rightarrow> bool" where
  "bridge_generation v \<longleftrightarrow> 1 \<le> v \<and> v \<le> BRIDGE_MAX_GENERATION"

definition bridge_sequence :: "int \<Rightarrow> bool" where
  "bridge_sequence v \<longleftrightarrow> 1 \<le> v \<and> v \<le> BRIDGE_MAX_SEQUENCE"

definition intent_ids :: "'a journal_intent_scheme \<Rightarrow> string list" where
  "intent_ids v = [ji_journal_uuid v, ji_admission_id v, ji_intent_id v, ji_attempt_id v, ji_reservation_id v,
     ji_run_id v, ji_lease_id v]"

definition valid_intent :: "journal_intent \<Rightarrow> bool" where
  "valid_intent v \<longleftrightarrow> list_all uuid_string (intent_ids v) \<and> distinct (intent_ids v) \<and>
     bridge_generation (ji_journal_generation v) \<and> hex64_string (ji_intent_digest v)"

definition valid_ledger :: "ledger_reservation \<Rightarrow> bool" where
  "valid_ledger v \<longleftrightarrow> (let ids = intent_ids v @ [lr_ledger_uuid v, lr_event_id v] in
     list_all uuid_string ids \<and> distinct ids \<and>
     bridge_generation (ji_journal_generation v) \<and> bridge_generation (lr_ledger_generation v) \<and>
     bridge_sequence (lr_sequence v) \<and> hex64_string (ji_intent_digest v) \<and> hex64_string (lr_event_digest v))"

definition valid_confirmation :: "journal_confirmation \<Rightarrow> bool" where
  "valid_confirmation v \<longleftrightarrow> uuid_string (jc_intent_id v) \<and> uuid_string (jc_ledger_uuid v) \<and>
     bridge_generation (jc_ledger_generation v) \<and> uuid_string (jc_event_id v) \<and>
     distinct [jc_intent_id v, jc_ledger_uuid v, jc_event_id v] \<and> bridge_sequence (jc_sequence v) \<and>
     hex64_string (jc_event_digest v)"

definition checked_family :: "('a \<Rightarrow> bool) \<Rightarrow> 'a list \<Rightarrow> 'a list res" where
  "checked_family valid vs =
     rbind (require (length vs \<le> BRIDGE_MAX_FACTS) ''bridge_invalid'') (\<lambda>_.
     rbind (require (list_all valid vs) ''bridge_invalid'') (\<lambda>_. Inr (remdups vs)))"

definition intent_link :: "'a journal_intent_scheme \<Rightarrow> string \<times> int \<times> string \<times> string \<times> string \<times> string \<times> string \<times> string \<times> string" where
  "intent_link v = (ji_journal_uuid v, ji_journal_generation v, ji_admission_id v, ji_intent_id v, ji_attempt_id v,
     ji_reservation_id v, ji_run_id v, ji_lease_id v, ji_intent_digest v)"

definition ledger_link :: "ledger_reservation \<Rightarrow> string \<times> string \<times> int \<times> string \<times> int \<times> string" where
  "ledger_link v = (ji_intent_id v, lr_ledger_uuid v, lr_ledger_generation v, lr_event_id v, lr_sequence v, lr_event_digest v)"

definition confirmation_link :: "journal_confirmation \<Rightarrow> string \<times> string \<times> int \<times> string \<times> int \<times> string" where
  "confirmation_link v = (jc_intent_id v, jc_ledger_uuid v, jc_ledger_generation v, jc_event_id v, jc_sequence v, jc_event_digest v)"

definition attempt_ids :: "'a journal_intent_scheme \<Rightarrow> string list" where
  "attempt_ids v = [ji_attempt_id v, ji_reservation_id v, ji_run_id v, ji_lease_id v]"

definition shares_attempt :: "journal_intent \<Rightarrow> 'a journal_intent_scheme \<Rightarrow> bool" where
  "shares_attempt target v \<longleftrightarrow> ji_intent_id v \<noteq> ji_intent_id target \<and>
     list_ex (\<lambda>i. i \<in> set (attempt_ids v)) (attempt_ids target)"

definition reused_attempt :: "journal_intent \<Rightarrow> journal_intent list \<Rightarrow> ledger_reservation list \<Rightarrow> bool" where
  "reused_attempt target intents ledger \<longleftrightarrow>
     list_ex (shares_attempt target) intents \<or> list_ex (shares_attempt target) ledger"

text \<open>The position a ledger fact claims: intent, event and place in the ledger.\<close>

definition event_clash :: "ledger_reservation \<Rightarrow> string \<times> string \<times> int \<times> string \<times> int \<times> string \<Rightarrow> bool" where
  "event_clash target l = (case l of (intent, uuid, gen, event, seq, digest) \<Rightarrow>
     intent \<noteq> ji_intent_id target \<and>
     (event = lr_event_id target \<or> (uuid, gen, seq) = (lr_ledger_uuid target, lr_ledger_generation target, lr_sequence target)))"

definition reused_ledger_event :: "ledger_reservation \<Rightarrow> ledger_reservation list \<Rightarrow> journal_confirmation list \<Rightarrow> bool" where
  "reused_ledger_event target ledger confirmations \<longleftrightarrow>
     list_ex (\<lambda>v. event_clash target (ledger_link v)) ledger \<or>
     list_ex (\<lambda>v. event_clash target (confirmation_link v)) confirmations"

definition bridge_reason ::
    "journal_intent list \<Rightarrow> ledger_reservation list \<Rightarrow> journal_confirmation list \<Rightarrow> string \<Rightarrow> string" where
  "bridge_reason intents ledger confirmations target =
     (let si = filter (\<lambda>v. ji_intent_id v = target) intents;
          sl = filter (\<lambda>v. ji_intent_id v = target) ledger;
          sc = filter (\<lambda>v. jc_intent_id v = target) confirmations in
      if length si > 1 \<or> length sl > 1 \<or> length sc > 1 then ''identity_conflict''
      else if si = [] then (if sl \<noteq> [] then ''orphan_ledger'' else ''missing_intent'')
      else if reused_attempt (hd si) intents ledger then ''identity_conflict''
      else if sl = [] then ''missing_ledger''
      else if intent_link (hd si) \<noteq> intent_link (hd sl) \<or> reused_ledger_event (hd sl) ledger confirmations \<or>
           (sc \<noteq> [] \<and> ledger_link (hd sl) \<noteq> confirmation_link (hd sc)) then ''identity_conflict''
      else if \<not> lr_read_back (hd sl) then ''ledger_unverified''
      else if sc = [] then ''missing_confirmation''
      else ''matching_unqualified'')"

definition assess_bridge ::
    "string \<Rightarrow> journal_intent list \<Rightarrow> ledger_reservation list \<Rightarrow> journal_confirmation list \<Rightarrow> bridge_assessment res" where
  "assess_bridge target intents ledger confirmations =
     rbind (require (uuid_string target) ''bridge_invalid'') (\<lambda>_.
     rbind (checked_family valid_intent intents) (\<lambda>intents.
     rbind (checked_family valid_ledger ledger) (\<lambda>ledger.
     rbind (checked_family valid_confirmation confirmations) (\<lambda>confirmations.
     Inr \<lparr>ba_hold = True, ba_reason = bridge_reason intents ledger confirmations target\<rparr>))))"

section \<open>The scan\<close>

definition SCAN_REASONS :: "string list" where
  "SCAN_REASONS = [''bridge_invalid'', ''journal_unverified'', ''ledger_unverified'', ''ledger_unsupported'',
     ''missing_intent'', ''missing_ledger'', ''identity_conflict'', ''scan_invariant'', ''v3_unsupported'']"

definition CURRENT_BRIDGE_REASONS :: "string list" where
  "CURRENT_BRIDGE_REASONS = [''missing_intent'', ''missing_ledger'', ''identity_conflict'']"

record intent_claim =
  ic_journal_uuid :: string
  ic_journal_generation :: int
  ic_admission_id :: string
  ic_intent_id :: string
  ic_attempt_id :: string
  ic_reservation_id :: string
  ic_run_id :: string
  ic_lease_id :: string
  ic_intent_digest :: string

record confirmation_claim =
  cc_intent_id :: string
  cc_ledger_uuid :: string
  cc_ledger_generation :: int
  cc_ledger_event_id :: string
  cc_sequence :: int
  cc_event_digest :: string

record claim_view =
  cv_state :: string
  cv_intents :: "intent_claim list"
  cv_initial_intents :: "intent_claim list"
  cv_confirmations :: "confirmation_claim list"
  cv_initial_confirmations :: "confirmation_claim list"

text \<open>The fields of the ledger's \<open>ReservationView\<close> the scan reads.\<close>

record reservation_view =
  rv_state :: string
  rv_population :: string
  rv_reservations :: "ledger_reservation list"

definition intent_fact :: "intent_claim \<Rightarrow> journal_intent" where
  "intent_fact c = \<lparr>ji_journal_uuid = ic_journal_uuid c, ji_journal_generation = ic_journal_generation c,
     ji_admission_id = ic_admission_id c, ji_intent_id = ic_intent_id c, ji_attempt_id = ic_attempt_id c,
     ji_reservation_id = ic_reservation_id c, ji_run_id = ic_run_id c, ji_lease_id = ic_lease_id c,
     ji_intent_digest = ic_intent_digest c\<rparr>"

definition confirmation_fact :: "confirmation_claim \<Rightarrow> journal_confirmation" where
  "confirmation_fact c = \<lparr>jc_intent_id = cc_intent_id c, jc_ledger_uuid = cc_ledger_uuid c,
     jc_ledger_generation = cc_ledger_generation c, jc_event_id = cc_ledger_event_id c, jc_sequence = cc_sequence c,
     jc_event_digest = cc_event_digest c\<rparr>"

definition scan_reservation :: "claim_view \<Rightarrow> reservation_view \<Rightarrow> string \<Rightarrow> string" where
  "scan_reservation journal ledger target =
     (case assess_bridge target [] [] [] of
        Inl _ \<Rightarrow> ''bridge_invalid''
      | Inr preflight \<Rightarrow>
          if \<not> ba_hold preflight \<or> ba_reason preflight \<noteq> ''missing_intent'' then ''scan_invariant''
          else if cv_state journal \<noteq> ''ready'' then ''journal_unverified''
          else if rv_state ledger \<noteq> ''ready'' then ''ledger_unverified''
          else if rv_population ledger \<noteq> ''unknown'' \<or> rv_reservations ledger \<noteq> [] then ''ledger_unsupported''
          else case assess_bridge target (map intent_fact (cv_intents journal @ cv_initial_intents journal)) []
                 (map confirmation_fact (cv_confirmations journal @ cv_initial_confirmations journal)) of
            Inl _ \<Rightarrow> ''bridge_invalid''
          | Inr result \<Rightarrow>
              if \<not> ba_hold result \<or> ba_reason result \<notin> set CURRENT_BRIDGE_REASONS then ''scan_invariant''
              else ba_reason result)"

section \<open>Agreement of the two stores\<close>






lemma checked_family_Inr [guards]:
  "checked_family valid vs = Inr us \<longleftrightarrow> length vs \<le> BRIDGE_MAX_FACTS \<and> list_all valid vs \<and> us = remdups vs"
  by (auto simp: checked_family_def guards)





text \<open>The scan stays inside its closed set of reasons, and never reports a match.\<close>

lemma scan_reason_closed: "scan_reservation journal ledger target \<in> set SCAN_REASONS"
  by (auto simp: scan_reservation_def SCAN_REASONS_def CURRENT_BRIDGE_REASONS_def split: sum.splits)

text \<open>With no ledger fact, an intent can at best be missing its ledger reservation.\<close>

lemma bridge_reason_no_ledger:
  "bridge_reason intents [] confirmations target \<in> {''missing_intent'', ''missing_ledger'', ''identity_conflict''}"
  by (auto simp: bridge_reason_def Let_def)

lemma scan_never_invariant: "scan_reservation journal ledger target \<noteq> ''scan_invariant''"
  using bridge_reason_no_ledger
  by (auto simp: scan_reservation_def assess_bridge_def checked_family_def bridge_reason_def Let_def
      CURRENT_BRIDGE_REASONS_def guards split: sum.splits)

end
