(* ===== verification/ReportLinks.thy ===== *)
theory ReportLinks
  imports Json
begin

text \<open>
  The structural precheck of Report claim links (\<open>report_links.py\<close>).  The untrusted stub is
  a JSON value; a list and a tuple are both arrays.  The set of defects is returned sorted.
\<close>

definition MAX_CLAIMS :: nat where "MAX_CLAIMS = 64"
definition MAX_CITATIONS :: nat where "MAX_CITATIONS = 128"
definition ROOT_FIELDS :: "string list" where "ROOT_FIELDS = [''claims'', ''citations'']"

definition CLAIM_FIELDS :: "string list" where
  "CLAIM_FIELDS = [''claim_id'', ''observed_or_inferred'', ''status'', ''evidence_refs'', ''derived_from'']"

definition CITATION_FIELDS :: "string list" where
  "CITATION_FIELDS = [''citation_id'', ''exchange_id'', ''provenance'', ''source_interface'', ''observation_status'']"

definition CLAIM_MODES :: "string list" where "CLAIM_MODES = [''observed'', ''inferred'']"
definition CLAIM_STATUSES :: "string list" where "CLAIM_STATUSES = [''asserted'', ''unreviewed'', ''unknown'']"
definition PROVENANCE :: "string list" where "PROVENANCE = [''native_returned'', ''local_association'', ''unknown'']"

definition INTERFACES :: "string list" where
  "INTERFACES = [''native_capture'', ''forwarder_receipt'', ''query_result'', ''fixture'', ''unknown'']"

definition OBSERVATION_STATUSES :: "string list" where
  "OBSERVATION_STATUSES = [''returned'', ''empty'', ''missing'', ''truncated'', ''redacted'', ''transport_error'', ''unknown'']"

record link_precheck =
  lp_defects :: "string list"
  lp_support_status :: string

section \<open>Shape\<close>

definition jarr_upto :: "nat \<Rightarrow> json \<Rightarrow> bool" where
  "jarr_upto n v = (case v of JArr xs \<Rightarrow> length xs \<le> n | _ \<Rightarrow> False)"

definition link_refs :: "json \<Rightarrow> nat \<Rightarrow> bool" where
  "link_refs v maximum \<longleftrightarrow> jarr_upto maximum v \<and> list_all juuid4 (jarr v)"

definition claim_shape :: "json \<Rightarrow> bool" where
  "claim_shape c \<longleftrightarrow> has_keys CLAIM_FIELDS c \<and> juuid4 (fld c ''claim_id'') \<and>
     jstr_in CLAIM_MODES (fld c ''observed_or_inferred'') \<and> jstr_in CLAIM_STATUSES (fld c ''status'') \<and>
     link_refs (fld c ''evidence_refs'') MAX_CITATIONS \<and> link_refs (fld c ''derived_from'') MAX_CLAIMS"

definition citation_shape :: "json \<Rightarrow> bool" where
  "citation_shape c \<longleftrightarrow> has_keys CITATION_FIELDS c \<and> juuid4 (fld c ''citation_id'') \<and>
     (fld c ''exchange_id'' = JNull \<or> juuid4 (fld c ''exchange_id'')) \<and>
     jstr_in PROVENANCE (fld c ''provenance'') \<and> jstr_in INTERFACES (fld c ''source_interface'') \<and>
     jstr_in OBSERVATION_STATUSES (fld c ''observation_status'')"

definition validate_links :: "json \<Rightarrow> unit res" where
  "validate_links v =
     rbind (require (has_keys ROOT_FIELDS v) ''report_link_shape'') (\<lambda>_.
     rbind (require (jarr_upto MAX_CLAIMS (fld v ''claims'') \<and> jarr_upto MAX_CITATIONS (fld v ''citations'')) ''report_link_shape'') (\<lambda>_.
     rbind (rall (\<lambda>c. require (claim_shape c) ''report_link_shape'') (jarr (fld v ''claims''))) (\<lambda>_.
     rall (\<lambda>c. require (citation_shape c) ''report_link_shape'') (jarr (fld v ''citations'')))))"

section \<open>Defects\<close>

abbreviation claim_id :: "json \<Rightarrow> string" where "claim_id c \<equiv> jstr (fld c ''claim_id'')"
abbreviation claim_mode :: "json \<Rightarrow> string" where "claim_mode c \<equiv> jstr (fld c ''observed_or_inferred'')"
abbreviation citation_id :: "json \<Rightarrow> string" where "citation_id c \<equiv> jstr (fld c ''citation_id'')"
abbreviation evidence_refs :: "json \<Rightarrow> string list" where "evidence_refs c \<equiv> map jstr (jarr (fld c ''evidence_refs''))"
abbreviation derived_from :: "json \<Rightarrow> string list" where "derived_from c \<equiv> map jstr (jarr (fld c ''derived_from''))"

text \<open>The loop over claims fills \<open>claim_modes\<close>, the loop over citations \<open>citation_ids\<close>.\<close>

fun scan_claims :: "json list \<Rightarrow> (string \<times> string) list \<Rightarrow> string list \<Rightarrow> (string \<times> string) list \<times> string list" where
  "scan_claims [] modes defects = (modes, defects)"
| "scan_claims (c # cs) modes defects =
     scan_claims cs (AList.update (claim_id c) (claim_mode c) modes)
       (if map_of modes (claim_id c) \<noteq> None then defects @ [''claim_duplicate''] else defects)"

definition citation_defects :: "json \<Rightarrow> string list \<Rightarrow> string list" where
  "citation_defects c ids =
     (if citation_id c \<in> set ids then [''citation_duplicate''] else []) @
     (if jstr (fld c ''provenance'') = ''native_returned'' \<and> jstr (fld c ''source_interface'') \<noteq> ''native_capture''
      then [''native_provenance_mismatch''] else []) @
     (if jstr (fld c ''observation_status'') = ''returned'' \<and> fld c ''exchange_id'' = JNull
      then [''returned_without_exchange''] else [])"

fun scan_citations :: "json list \<Rightarrow> string list \<Rightarrow> string list \<Rightarrow> string list \<times> string list" where
  "scan_citations [] ids defects = (ids, defects)"
| "scan_citations (c # cs) ids defects =
     scan_citations cs (List.insert (citation_id c) ids) (defects @ citation_defects c ids)"

definition claim_defects :: "(string \<times> string) list \<Rightarrow> string list \<Rightarrow> json \<Rightarrow> string list" where
  "claim_defects modes ids c =
     (if \<not> distinct (evidence_refs c) \<or> \<not> distinct (derived_from c) then [''reference_duplicate''] else []) @
     (if list_ex (\<lambda>r. r \<notin> set ids) (evidence_refs c) then [''citation_dangling''] else []) @
     (if list_ex (\<lambda>r. map_of modes r = None) (derived_from c) then [''derivation_dangling''] else []) @
     (if claim_mode c = ''observed'' then
        (if derived_from c \<noteq> [] then [''observed_has_derivation''] else []) @
        (if jstr (fld c ''status'') = ''asserted'' \<and> evidence_refs c = [] then [''asserted_observed_unlinked''] else [])
      else if derived_from c = [] then [''inference_without_observation'']
      else if list_ex (\<lambda>r. map_of modes r = Some ''inferred'') (derived_from c) then [''derivation_not_observed'']
      else [])"

definition precheck_claim_links :: "json \<Rightarrow> link_precheck res" where
  "precheck_claim_links v =
     rbind (validate_links v) (\<lambda>_.
     let claims = jarr (fld v ''claims'');
         (modes, d1) = scan_claims claims [] [];
         (ids, d2) = scan_citations (jarr (fld v ''citations'')) [] d1 in
     Inr \<lparr>lp_defects = sort (remdups (d2 @ concat (map (claim_defects modes ids) claims))),
          lp_support_status = ''support_unverified''\<rparr>)"

section \<open>What a clean precheck means\<close>

abbreviation mode_pairs :: "json list \<Rightarrow> (string \<times> string) list" where
  "mode_pairs claims \<equiv> map (\<lambda>c. (claim_id c, claim_mode c)) claims"

lemma scan_claims_modes:
  "map_of (fst (scan_claims cs modes defects)) = map_of modes ++ map_of (rev (mode_pairs cs))"
  by (induction cs arbitrary: modes defects) simp_all

lemma scan_claims_clean:
  "snd (scan_claims cs modes defects) = [] \<longleftrightarrow>
     defects = [] \<and> distinct (map claim_id cs) \<and> (\<forall>c \<in> set cs. map_of modes (claim_id c) = None)"
proof (induction cs arbitrary: modes defects)
  case (Cons c cs)
  have "(\<forall>d \<in> set cs. ((map_of modes)(claim_id c \<mapsto> claim_mode c)) (claim_id d) = None) \<longleftrightarrow>
      (\<forall>d \<in> set cs. map_of modes (claim_id d) = None) \<and> claim_id c \<notin> set (map claim_id cs)"
    by (auto simp: image_iff)
  then show ?case using Cons.IH by auto
qed simp

lemma scan_citations_ids: "set (fst (scan_citations cs ids defects)) = set ids \<union> set (map citation_id cs)"
  by (induction cs arbitrary: ids defects) auto

definition citation_consistent :: "json \<Rightarrow> bool" where
  "citation_consistent c \<longleftrightarrow>
     (jstr (fld c ''provenance'') = ''native_returned'' \<longrightarrow> jstr (fld c ''source_interface'') = ''native_capture'') \<and>
     (jstr (fld c ''observation_status'') = ''returned'' \<longrightarrow> fld c ''exchange_id'' \<noteq> JNull)"

lemma scan_citations_clean:
  "snd (scan_citations cs ids defects) = [] \<longleftrightarrow>
     defects = [] \<and> distinct (map citation_id cs) \<and> set (map citation_id cs) \<inter> set ids = {} \<and> list_all citation_consistent cs"
proof (induction cs arbitrary: ids defects)
  case (Cons c cs)
  have "citation_defects c ids = [] \<longleftrightarrow> citation_id c \<notin> set ids \<and> citation_consistent c"
    by (auto simp: citation_defects_def citation_consistent_def)
  then show ?case using Cons.IH [of "List.insert (citation_id c) ids" "defects @ citation_defects c ids"] by auto
qed simp

text \<open>
  A consistent set of links: identifiers are unique, evidence refers to citations, an
  observed claim is not derived, and an inferred claim is derived from observed claims, at
  least one; so derivations have depth one.
\<close>

definition claim_linked :: "json list \<Rightarrow> json list \<Rightarrow> json \<Rightarrow> bool" where
  "claim_linked claims citations c \<longleftrightarrow>
     distinct (evidence_refs c) \<and> distinct (derived_from c) \<and> set (evidence_refs c) \<subseteq> set (map citation_id citations) \<and>
     (if claim_mode c = ''observed''
      then derived_from c = [] \<and> (jstr (fld c ''status'') = ''asserted'' \<longrightarrow> evidence_refs c \<noteq> [])
      else derived_from c \<noteq> [] \<and> set (derived_from c) \<subseteq> {claim_id o' |o'. o' \<in> set claims \<and> claim_mode o' = ''observed''})"

definition links_consistent :: "json list \<Rightarrow> json list \<Rightarrow> bool" where
  "links_consistent claims citations \<longleftrightarrow> distinct (map claim_id claims) \<and> distinct (map citation_id citations) \<and>
     list_all citation_consistent citations \<and> list_all (claim_linked claims citations) claims"

lemma claim_modes_lookup:
  assumes "distinct (map claim_id claims)"
  shows "map_of (rev (mode_pairs claims)) r = Some m \<longleftrightarrow> (\<exists>c \<in> set claims. claim_id c = r \<and> claim_mode c = m)"
  using assms by (subst map_of_eq_Some_iff) (auto simp: comp_def rev_map [symmetric])

lemma claim_defects_clean:
  assumes d: "distinct (map claim_id claims)"
    and m: "map_of modes = map_of (rev (mode_pairs claims))"
    and i: "set ids = set (map citation_id citations)"
    and s: "\<And>c. c \<in> set claims \<Longrightarrow> claim_mode c = ''observed'' \<or> claim_mode c = ''inferred''"
  shows "claim_defects modes ids c = [] \<longleftrightarrow> claim_linked claims citations c"
proof -
  have o: "(map_of modes r \<noteq> None \<and> map_of modes r \<noteq> Some ''inferred'') \<longleftrightarrow>
      r \<in> {claim_id o' |o'. o' \<in> set claims \<and> claim_mode o' = ''observed''}" for r
  proof -
    have "map_of modes r = Some x \<Longrightarrow> x = ''observed'' \<or> x = ''inferred''" for x
      using s unfolding m claim_modes_lookup [OF d] by metis
    then have "(map_of modes r \<noteq> None \<and> map_of modes r \<noteq> Some ''inferred'') \<longleftrightarrow> map_of modes r = Some ''observed''"
      by (cases "map_of modes r") auto
    then show ?thesis unfolding m claim_modes_lookup [OF d] by auto
  qed
  have "(\<not> list_ex (\<lambda>r. map_of modes r = None) rs \<and> \<not> list_ex (\<lambda>r. map_of modes r = Some ''inferred'') rs) \<longleftrightarrow>
      set rs \<subseteq> {claim_id o' |o'. o' \<in> set claims \<and> claim_mode o' = ''observed''}" for rs
    unfolding list_ex_iff using o by blast
  note f = this
  have g: "list_ex (\<lambda>r. r \<notin> set ids) rs \<longleftrightarrow> \<not> set rs \<subseteq> set (map citation_id citations)" for rs
    unfolding i list_ex_iff by blast
  define er dr where "er = evidence_refs c" and "dr = derived_from c"
  show ?thesis
    unfolding claim_defects_def claim_linked_def g er_def [symmetric] dr_def [symmetric]
    using f [of dr] by (cases "claim_mode c = ''observed''"; cases "dr = []") (simp_all del: set_map, blast+)
qed

text \<open>
  C40: the precheck of a well-shaped stub finds no defect exactly when its links are
  consistent: unique identifiers, evidence that resolves to citations whose provenance agrees
  with their interface, observed claims that are not derived, and inferred claims derived
  only from observed ones.  Whatever it finds, support stays unverified.
\<close>
theorem precheck_clean_iff:
  assumes "precheck_claim_links v = Inr p"
  shows "(lp_defects p = [] \<longleftrightarrow> links_consistent (jarr (fld v ''claims'')) (jarr (fld v ''citations''))) \<and>
    lp_support_status p = ''support_unverified'' \<and> sorted (lp_defects p) \<and> distinct (lp_defects p)"
proof -
  define claims where "claims = jarr (fld v ''claims'')"
  define citations where "citations = jarr (fld v ''citations'')"
  obtain modes d1 ids d2 where s: "scan_claims claims [] [] = (modes, d1)" "scan_citations citations [] d1 = (ids, d2)"
    by (metis surj_pair)
  have v: "validate_links v = Inr ()" and p: "lp_defects p = sort (remdups (d2 @ concat (map (claim_defects modes ids) claims)))"
      "lp_support_status p = ''support_unverified''"
    using assms s by (auto simp: precheck_claim_links_def claims_def citations_def guards)
  have shape: "claim_shape c" if "c \<in> set claims" for c
    using v that by (auto simp: validate_links_def claims_def guards)
  have mode: "claim_mode c = ''observed'' \<or> claim_mode c = ''inferred''" if "c \<in> set claims" for c
    using shape [OF that] by (cases "fld c ''observed_or_inferred''") (auto simp: claim_shape_def CLAIM_MODES_def)
  have c1: "d2 = [] \<longleftrightarrow> distinct (map claim_id claims) \<and> distinct (map citation_id citations) \<and> list_all citation_consistent citations"
    using scan_claims_clean [of claims "[]" "[]"] scan_citations_clean [of citations "[]" d1] s by auto
  have c2: "claim_defects modes ids c = [] \<longleftrightarrow> claim_linked claims citations c"
    if "distinct (map claim_id claims)" for c
    using that s mode scan_claims_modes [of claims "[]" "[]"] scan_citations_ids [of citations "[]" d1]
    by (intro claim_defects_clean) auto
  have "lp_defects p = [] \<longleftrightarrow> d2 = [] \<and> (\<forall>c \<in> set claims. claim_defects modes ids c = [])"
    by (auto simp: p sort_remdups_empty)
  also have "\<dots> \<longleftrightarrow> links_consistent claims citations"
    using c1 c2 by (auto simp: links_consistent_def list_all_iff)
  finally show ?thesis by (simp add: p claims_def citations_def)
qed

definition sample_claim_uuid :: "char \<Rightarrow> string" where
  "sample_claim_uuid c = replicate 8 c @ ''-'' @ replicate 4 c @ ''-4'' @ replicate 3 c @ ''-8'' @ replicate 3 c @ ''-'' @ replicate 12 c"

definition sample_links :: json where
  "sample_links = JObj [(''claims'', JArr [
      JObj [(''claim_id'', JStr (sample_claim_uuid CHR ''1'')), (''observed_or_inferred'', JStr ''observed''),
        (''status'', JStr ''asserted''), (''evidence_refs'', JArr [JStr (sample_claim_uuid CHR ''2'')]), (''derived_from'', JArr [])]]),
     (''citations'', JArr [
      JObj [(''citation_id'', JStr (sample_claim_uuid CHR ''2'')), (''exchange_id'', JNull), (''provenance'', JStr ''unknown''),
        (''source_interface'', JStr ''fixture''), (''observation_status'', JStr ''empty'')]])]"

theorem precheck_clean_iff_witness:
  "\<exists>p. precheck_claim_links sample_links = Inr p \<and> lp_defects p = [] \<and> lp_support_status p = ''support_unverified''"
proof -
  have "validate_links sample_links = Inr ()" "links_consistent (jarr (fld sample_links ''claims'')) (jarr (fld sample_links ''citations''))"
    by (code_simp, simp add: sample_links_def fld_def links_consistent_def claim_linked_def citation_consistent_def)
  then obtain p where p: "precheck_claim_links sample_links = Inr p"
    by (simp add: precheck_claim_links_def Let_def split_beta)
  show ?thesis
    using p precheck_clean_iff [OF p] \<open>links_consistent _ _\<close> by blast
qed

end
