(* ===== verification/AuditLoss.thy ===== *)
theory AuditLoss
  imports JsonCodec Calendar
begin

text \<open>
  The audit-loss codec (\<open>audit_loss.py\<close>).  \<open>sha256\<close> is the hexadecimal digest of the
  bytes.  \<open>datetime.fromisoformat\<close> accepts the hour 24 at midnight in some versions of the
  language only; the flag \<open>h24\<close> says which.
\<close>

definition MAX_LOSS_BYTES :: nat where "MAX_LOSS_BYTES = 1024"

definition LOSS_CODE_BY_STATE :: "(string \<times> string) list" where
  "LOSS_CODE_BY_STATE = [(''missing'', ''expected_record_missing''), (''truncated'', ''capture_truncated''),
     (''redacted'', ''support_removed''), (''transport_error'', ''transport_failed''), (''unknown'', ''unclassified_gap'')]"

definition LOSS_FIELDS :: "string list" where
  "LOSS_FIELDS = [''schema_version'', ''record_kind'', ''loss_id'', ''audit_bundle_id'', ''exchange_id'', ''report_revision_id'',
     ''side'', ''state'', ''loss_code'', ''source'', ''detected_phase'', ''observed_at'']"

record loss_preflight =
  lo_body :: bytes
  lo_byte_count :: nat
  lo_sha256 :: string

definition iso_instant :: "bool \<Rightarrow> string \<Rightarrow> bool" where
  "iso_instant h24 s \<longleftrightarrow> time_shape s \<and>
     (let y = number_at 0 4 s; m = number_at 5 2 s; d = number_at 8 2 s; hh = number_at 11 2 s; mm = number_at 14 2 s;
          ss = number_at 17 2 s; us = number_at 20 6 s in
      valid_date y m d \<and>
      (hh < 24 \<and> mm < 60 \<and> ss < 60 \<or>
       h24 \<and> hh = 24 \<and> mm = 0 \<and> ss = 0 \<and> us = 0 \<and> (y, m, d) \<noteq> (9999, 12, 31)))"

definition utc_text :: "bool \<Rightarrow> bool \<Rightarrow> json \<Rightarrow> bool" where
  "utc_text h24 nullable v = (case v of JNull \<Rightarrow> nullable | JStr s \<Rightarrow> iso_instant h24 s | _ \<Rightarrow> False)"

text \<open>\<open>LOSS_CODE_BY_STATE[state]\<close>, used for a known state only.\<close>

definition loss_code_of :: "string \<Rightarrow> string" where
  "loss_code_of state = (case map_of LOSS_CODE_BY_STATE state of Some code \<Rightarrow> code | None \<Rightarrow> [])"

definition validate_loss :: "bool \<Rightarrow> json \<Rightarrow> unit res" where
  "validate_loss h24 v =
     rbind (require (has_keys LOSS_FIELDS v) ''audit_loss_shape'') (\<lambda>_.
     rbind (require (fld v ''schema_version'' = JInt 1) ''audit_loss_shape'') (\<lambda>_.
     rbind (require (fld v ''record_kind'' = JStr ''audit_loss'') ''audit_loss_shape'') (\<lambda>_.
     rbind (require (juuid4 (fld v ''loss_id'') \<and> juuid4 (fld v ''audit_bundle_id'')) ''audit_loss_id'') (\<lambda>_.
     rbind (require (jstr_in [''request'', ''response'', ''report''] (fld v ''side'')) ''audit_loss_shape'') (\<lambda>_.
     rbind (if fld v ''side'' = JStr ''report''
            then require (fld v ''exchange_id'' = JNull \<and> juuid4 (fld v ''report_revision_id'')) ''audit_loss_id''
            else require (juuid4 (fld v ''exchange_id'') \<and> fld v ''report_revision_id'' = JNull) ''audit_loss_id'') (\<lambda>_.
     rbind (require (jstr_in (map fst LOSS_CODE_BY_STATE) (fld v ''state'')) ''audit_loss_shape'') (\<lambda>_.
     rbind (require (fld v ''loss_code'' = JStr (loss_code_of (jstr (fld v ''state'')))) ''audit_loss_shape'') (\<lambda>_.
     rbind (require (fld v ''source'' = JStr ''unqualified_local'') ''audit_loss_shape'') (\<lambda>_.
     rbind (require (jstr_in [''before_persistence'', ''after_persistence''] (fld v ''detected_phase'')) ''audit_loss_shape'') (\<lambda>_.
     require (utc_text h24 True (fld v ''observed_at'')) ''audit_loss_time''))))))))))"

definition encode_loss :: "(bytes \<Rightarrow> string) \<Rightarrow> bool \<Rightarrow> json \<Rightarrow> loss_preflight res" where
  "encode_loss sha256 h24 v =
     rbind (validate_loss h24 v) (\<lambda>_.
     rbind (canonical_json False v) (\<lambda>body.
     rbind (require (length body \<le> MAX_LOSS_BYTES) ''audit_loss_overflow'') (\<lambda>_.
     Inr \<lparr>lo_body = body, lo_byte_count = length body, lo_sha256 = sha256 body\<rparr>)))"

definition decode_loss :: "(bytes \<Rightarrow> string) \<Rightarrow> bool \<Rightarrow> bytes \<Rightarrow> loss_preflight res" where
  "decode_loss sha256 h24 data =
     rbind (require (length data \<le> MAX_LOSS_BYTES) ''audit_loss_overflow'') (\<lambda>_.
     rbind (parse_integers data (int MAX_LOSS_BYTES) False) (\<lambda>v.
     rbind (encode_loss sha256 h24 v) (\<lambda>artifact.
     rbind (require (lo_body artifact = data) ''audit_loss_noncanonical'') (\<lambda>_.
     Inr artifact))))"

section \<open>Round trip\<close>

lemma time_printable:
  assumes "time_shape s"
  shows "list_all printable s"
proof -
  have t: "list_all printable time_template" by code_simp
  have "list_all2 (\<lambda>t c. if t = CHR ''d'' then is_digit c else c = t) time_template s"
    using assms by (simp add: time_shape_def)
  then show ?thesis
    using t by (induction rule: list_all2_induct) (auto simp: digit_printable split: if_splits)
qed

lemma printable_uuid4: "juuid4 v \<Longrightarrow> printable_json v"
  by (cases v) (simp_all add: uuid4_string_def uuid_printable)

lemma printable_utc: "utc_text h24 b v \<Longrightarrow> printable_json v"
  by (cases v) (simp_all add: utc_text_def iso_instant_def time_printable)

lemma printable_choice: "jstr_in xs v \<Longrightarrow> list_all (list_all printable) xs \<Longrightarrow> printable_json v"
  by (cases v) (simp_all add: list_all_iff)

lemmas printable_scalars = printable_uuid4 printable_utc printable_choice

lemma loss_printable:
  assumes "validate_loss h24 v = Inr ()" "wf_json v"
  shows "printable_json v"
proof (rule printable_object [of LOSS_FIELDS])
  show "has_keys LOSS_FIELDS v" using assms by (simp add: validate_loss_def guards)
  show "list_all (list_all printable) LOSS_FIELDS" by code_simp
  have f: "fld v ''schema_version'' = JInt 1" "fld v ''record_kind'' = JStr ''audit_loss''" "fld v ''source'' = JStr ''unqualified_local''"
    "juuid4 (fld v ''loss_id'')" "juuid4 (fld v ''audit_bundle_id'')" "utc_text h24 True (fld v ''observed_at'')"
    "jstr_in [''request'', ''response'', ''report''] (fld v ''side'')" "jstr_in (map fst LOSS_CODE_BY_STATE) (fld v ''state'')"
    "jstr_in [''before_persistence'', ''after_persistence''] (fld v ''detected_phase'')"
    using assms(1) by (simp_all add: validate_loss_def guards)
  have p: "list_all (list_all printable) [''request'', ''response'', ''report'']" "list_all (list_all printable) (map fst LOSS_CODE_BY_STATE)"
    "list_all (list_all printable) [''before_persistence'', ''after_persistence'']"
    "list_all printable ''audit_loss''" "list_all printable ''unqualified_local''"
    by code_simp+
  have x: "printable_json (fld v ''exchange_id'')" "printable_json (fld v ''report_revision_id'')"
    using assms(1) by (simp_all add: validate_loss_def guards printable_scalars(1) split: if_splits)
  have "list_all printable (loss_code_of st)" for st
    by (simp add: loss_code_of_def LOSS_CODE_BY_STATE_def printable_def)
  moreover have "fld v ''loss_code'' = JStr (loss_code_of (jstr (fld v ''state'')))"
    using assms(1) by (simp add: validate_loss_def guards)
  ultimately have c: "printable_json (fld v ''loss_code'')" by simp
  have "list_all (\<lambda>k. printable_json (fld v k)) LOSS_FIELDS"
    unfolding LOSS_FIELDS_def list.pred_inject
    using f(1-3) p(4,5) x c printable_scalars(1) [OF f(4)] printable_scalars(1) [OF f(5)] printable_scalars(2) [OF f(6)]
      printable_scalars(3) [OF f(7) p(1)] printable_scalars(3) [OF f(8) p(2)] printable_scalars(3) [OF f(9) p(3)]
    by simp
  then show "printable_json (fld v k)" if "k \<in> set LOSS_FIELDS" for k
    using that by (simp add: list_all_iff)
qed (rule assms(2))

lemma scalar_uuid_sorted [sorted_checks]:
  "juuid4 (sort_json v) = juuid4 v" "utc_text h24 b (sort_json v) = utc_text h24 b v"
  by (cases v; simp add: utc_text_def)+

interpretation loss_codec: canonical_codec "validate_loss h24" False MAX_LOSS_BYTES for h24
proof unfold_locales
  show "validate_loss h24 (sort_json v) = validate_loss h24 v" if "wf_json v" for v
    using that by (simp add: validate_loss_def sorted_checks)
  show "False \<or> (validate_loss h24 v = Inr () \<longrightarrow> printable_json v)" if "wf_json v" for v
    using loss_printable [OF _ that] by blast
qed (simp add: MAX_LOSS_BYTES_def MAX_JSON_DOCUMENT_BYTES_def)

text \<open>A record that is encoded decodes to the same artifact; nothing else decodes.\<close>

lemma loss_roundtrip:
  assumes "wf_json v" "encode_loss sha256 h24 v = Inr a"
  shows "decode_loss sha256 h24 (lo_body a) = Inr a"
proof -
  obtain body where b: "validate_loss h24 v = Inr ()" "canonical_json False v = Inr body" "length body \<le> MAX_LOSS_BYTES"
      "a = \<lparr>lo_body = body, lo_byte_count = length body, lo_sha256 = sha256 body\<rparr>"
    using assms(2) by (auto simp: encode_loss_def guards)
  show ?thesis
    using loss_codec.read_back [OF assms(1) b(1-3)] b(3,4) by (simp add: decode_loss_def encode_loss_def)
qed

lemma decode_loss_iff:
  "decode_loss sha256 h24 data = Inr a \<longleftrightarrow>
     (\<exists>v. parse_integers data (int MAX_LOSS_BYTES) False = Inr v \<and> encode_loss sha256 h24 v = Inr a \<and> lo_body a = data)"
  by (auto simp: decode_loss_def encode_loss_def guards)

end
