(* ===== verification/TelemetryGap.thy ===== *)
theory TelemetryGap
  imports AuditLoss
begin

text \<open>
  The telemetry-gap codec (\<open>telemetry_gap.py\<close>).  A gap marker carries an identity that is
  the tagged hash of its coordinates; it is added by the encoder and recomputed by the decoder.
\<close>

definition MAX_GAP_BYTES :: nat where "MAX_GAP_BYTES = 2048"

definition GAP_CODES_BY_KIND :: "(string \<times> string list) list" where
  "GAP_CODES_BY_KIND = [(''telemetry_omitted'', [''unknown_receiver_shape'', ''receiver_privacy_rejected'']),
     (''telemetry_gap'', [''projection_sequence_gap'', ''delivery_unknown''])]"

definition PAYLOAD_FIELDS :: "string list" where
  "PAYLOAD_FIELDS = [''loss_code'', ''count'', ''first_observed_at'', ''last_observed_at'',
     ''affected_projection_seq_first'', ''affected_projection_seq_last'']"

definition GAP_FIELDS :: "string list" where
  "GAP_FIELDS = [''schema_version'', ''feed'', ''marker_source_id'', ''run_id'', ''rehearsal_id'', ''producer_instance_id'',
     ''native_session_id'', ''projection_generation'', ''projection_seq'', ''event_kind'', ''source'', ''observed_at'',
     ''ingested_at'', ''associations'', ''payload'', ''loss'']"

definition EVENT_ID_TAG :: bytes where "EVENT_ID_TAG = ''maoi.run-gap.v1'' @ [CHR 0x00]"

record gap_preflight =
  gp_body :: bytes
  gp_byte_count :: nat
  gp_sha256 :: string
  gp_projected_event_id :: string

definition gap_seq :: "bool \<Rightarrow> json \<Rightarrow> bool" where
  "gap_seq positive v = (case v of JInt i \<Rightarrow> of_bool positive \<le> i \<and> i \<le> MAX_SAFE_INTEGER | _ \<Rightarrow> False)"

definition check_gap_head :: "bool \<Rightarrow> json \<Rightarrow> unit res" where
  "check_gap_head h24 v =
     rbind (require (has_keys GAP_FIELDS v) ''telemetry_gap_shape'') (\<lambda>_.
     rbind (require (fld v ''schema_version'' = JInt 1) ''telemetry_gap_shape'') (\<lambda>_.
     rbind (require (fld v ''feed'' = JStr ''run_gaps'') ''telemetry_gap_shape'') (\<lambda>_.
     rbind (rall (\<lambda>k. require (juuid4 (fld v k)) ''telemetry_gap_id'')
       [''run_id'', ''rehearsal_id'', ''projection_generation'', ''marker_source_id'']) (\<lambda>_.
     rbind (require (fld v ''producer_instance_id'' = JNull \<and> fld v ''native_session_id'' = JNull \<and> fld v ''associations'' = JNull)
       ''telemetry_gap_shape'') (\<lambda>_.
     rbind (require (gap_seq False (fld v ''projection_seq'')) ''telemetry_gap_shape'') (\<lambda>_.
     rbind (require (jstr_in (map fst GAP_CODES_BY_KIND) (fld v ''event_kind'')) ''telemetry_gap_shape'') (\<lambda>_.
     rbind (require (has_keys [''class'', ''version''] (fld v ''source'') \<and> fld (fld v ''source'') ''class'' = JStr ''receiver'' \<and>
       fld (fld v ''source'') ''version'' = JStr ''receiver_projection_v1'') ''telemetry_gap_shape'') (\<lambda>_.
     require (utc_text h24 True (fld v ''observed_at'') \<and> utc_text h24 False (fld v ''ingested_at'')) ''telemetry_gap_time''))))))))"

text \<open>\<open>GAP_CODES_BY_KIND[kind]\<close>, used for a known kind only.\<close>

definition gap_codes_of :: "string \<Rightarrow> string list" where
  "gap_codes_of kind = (case map_of GAP_CODES_BY_KIND kind of Some codes \<Rightarrow> codes | None \<Rightarrow> [])"

definition check_gap_range :: "json \<Rightarrow> unit res" where
  "check_gap_range payload =
     (let known = fld payload ''loss_code'' \<noteq> JStr ''delivery_unknown''; count = fld payload ''count'';
          first = fld payload ''affected_projection_seq_first''; final = fld payload ''affected_projection_seq_last'' in
      rbind (require (\<not> (known \<and> (count = JNull \<or> first = JNull \<or> final = JNull))) ''telemetry_gap_shape'') (\<lambda>_.
      rbind (require ((first = JNull) = (final = JNull)) ''telemetry_gap_shape'') (\<lambda>_.
      rbind (require (\<not> (first \<noteq> JNull \<and> (\<not> gap_seq False first \<or> \<not> gap_seq False final \<or> jint first > jint final)))
        ''telemetry_gap_shape'') (\<lambda>_.
      require (\<not> (known \<and> jint count > jint final - jint first + 1)) ''telemetry_gap_shape''))))"

definition check_gap_payload :: "bool \<Rightarrow> json \<Rightarrow> unit res" where
  "check_gap_payload h24 v =
     (let payload = fld v ''payload''; loss = fld v ''loss'' in
      rbind (require (has_keys PAYLOAD_FIELDS payload) ''telemetry_gap_shape'') (\<lambda>_.
      rbind (require (jstr_in (gap_codes_of (jstr (fld v ''event_kind''))) (fld payload ''loss_code'')) ''telemetry_gap_shape'') (\<lambda>_.
      rbind (require (case loss of JArr [JStr _] \<Rightarrow> True | _ \<Rightarrow> False) ''telemetry_gap_shape'') (\<lambda>_.
      rbind (require (jarr loss = [fld payload ''loss_code'']) ''telemetry_gap_shape'') (\<lambda>_.
      rbind (require (fld payload ''count'' = JNull \<or> gap_seq True (fld payload ''count'')) ''telemetry_gap_shape'') (\<lambda>_.
      rbind (require (utc_text h24 True (fld payload ''first_observed_at'') \<and> utc_text h24 True (fld payload ''last_observed_at''))
        ''telemetry_gap_time'') (\<lambda>_.
      rbind (require (\<not> (fld payload ''first_observed_at'' \<noteq> JNull \<and> fld payload ''last_observed_at'' \<noteq> JNull \<and>
        jstr (fld payload ''first_observed_at'') > jstr (fld payload ''last_observed_at''))) ''telemetry_gap_time'') (\<lambda>_.
      check_gap_range payload))))))))"

definition validate_gap :: "bool \<Rightarrow> json \<Rightarrow> unit res" where
  "validate_gap h24 v = rbind (check_gap_head h24 v) (\<lambda>_. check_gap_payload h24 v)"

definition gap_event_id :: "(bytes \<Rightarrow> string) \<Rightarrow> json \<Rightarrow> string res" where
  "gap_event_id sha256 v =
     rbind (canonical_json False (JArr [fld v ''run_id'', fld v ''projection_generation'', fld v ''projection_seq'',
       fld v ''event_kind'', fld v ''marker_source_id''])) (\<lambda>body. Inr (sha256 (EVENT_ID_TAG @ body)))"

fun with_id :: "json \<Rightarrow> string \<Rightarrow> json" where
  "with_id (JObj kvs) event_id = JObj (AList.update ''projected_event_id'' (JStr event_id) kvs)"
| "with_id v event_id = v"

fun without_id :: "json \<Rightarrow> json" where
  "without_id (JObj kvs) = JObj (AList.delete ''projected_event_id'' kvs)"
| "without_id v = v"

definition encode_gap :: "(bytes \<Rightarrow> string) \<Rightarrow> bool \<Rightarrow> json \<Rightarrow> gap_preflight res" where
  "encode_gap sha256 h24 v =
     rbind (validate_gap h24 v) (\<lambda>_.
     rbind (gap_event_id sha256 v) (\<lambda>event_id.
     rbind (canonical_json False (with_id v event_id)) (\<lambda>body.
     rbind (require (length body \<le> MAX_GAP_BYTES) ''telemetry_gap_overflow'') (\<lambda>_.
     Inr \<lparr>gp_body = body, gp_byte_count = length body, gp_sha256 = sha256 body, gp_projected_event_id = event_id\<rparr>))))"

definition decode_gap :: "(bytes \<Rightarrow> string) \<Rightarrow> bool \<Rightarrow> bytes \<Rightarrow> gap_preflight res" where
  "decode_gap sha256 h24 data =
     rbind (require (length data \<le> MAX_GAP_BYTES) ''telemetry_gap_overflow'') (\<lambda>_.
     rbind (parse_integers data (int MAX_GAP_BYTES) False) (\<lambda>v.
     rbind (require (has_keys (GAP_FIELDS @ [''projected_event_id'']) v) ''telemetry_gap_shape'') (\<lambda>_.
     rbind (require (case fld v ''projected_event_id'' of JStr _ \<Rightarrow> True | _ \<Rightarrow> False) ''telemetry_gap_id'') (\<lambda>_.
     rbind (encode_gap sha256 h24 (without_id v)) (\<lambda>artifact.
     rbind (require (jstr (fld v ''projected_event_id'') = gp_projected_event_id artifact) ''telemetry_gap_id'') (\<lambda>_.
     rbind (require (gp_body artifact = data) ''telemetry_gap_noncanonical'') (\<lambda>_.
     Inr artifact)))))))"

section \<open>The marker is printable\<close>

lemma printable_seq: "gap_seq b v \<Longrightarrow> printable_json v"
  by (cases v) (simp_all add: gap_seq_def)

lemma printable_null_or: "v = JNull \<or> gap_seq b v \<Longrightarrow> printable_json v"
  by (auto intro: printable_seq)

lemma gap_code_printable: "jstr_in (gap_codes_of kind) v \<Longrightarrow> printable_json v"
  by (cases v) (auto simp: gap_codes_of_def GAP_CODES_BY_KIND_def printable_def split: if_splits)

lemma payload_printable:
  assumes "check_gap_payload h24 v = Inr ()" "wf_json v"
  shows "printable_json (fld v ''payload'')"
proof (rule printable_object [of PAYLOAD_FIELDS])
  let ?p = "fld v ''payload''"
  show "has_keys PAYLOAD_FIELDS ?p" using assms(1) by (simp add: check_gap_payload_def Let_def guards)
  show "list_all (list_all printable) PAYLOAD_FIELDS" by code_simp
  show "wf_json ?p" by (rule wf_fld [OF assms(2)])
  have f: "jstr_in (gap_codes_of (jstr (fld v ''event_kind''))) (fld ?p ''loss_code'')"
    "fld ?p ''count'' = JNull \<or> gap_seq True (fld ?p ''count'')"
    "utc_text h24 True (fld ?p ''first_observed_at'')" "utc_text h24 True (fld ?p ''last_observed_at'')"
    "check_gap_range ?p = Inr ()"
    using assms(1) by (simp_all add: check_gap_payload_def Let_def guards)
  have s: "fld ?p ''affected_projection_seq_first'' = JNull \<or> gap_seq False (fld ?p ''affected_projection_seq_first'')"
    "fld ?p ''affected_projection_seq_last'' = JNull \<or> gap_seq False (fld ?p ''affected_projection_seq_last'')"
    using f(5) by (auto simp: check_gap_range_def Let_def guards)
  have "list_all (\<lambda>k. printable_json (fld ?p k)) PAYLOAD_FIELDS"
    unfolding PAYLOAD_FIELDS_def list.pred_inject
    using gap_code_printable [OF f(1)] printable_null_or [OF f(2)] printable_utc [OF f(3)] printable_utc [OF f(4)]
      printable_null_or [OF s(1)] printable_null_or [OF s(2)] by simp
  then show "printable_json (fld ?p k)" if "k \<in> set PAYLOAD_FIELDS" for k
    using that by (simp add: list_all_iff)
qed

lemma gap_printable:
  assumes "validate_gap h24 v = Inr ()" "wf_json v" "k \<in> set GAP_FIELDS"
  shows "printable_json (fld v k)"
proof -
  have h: "check_gap_head h24 v = Inr ()" "check_gap_payload h24 v = Inr ()"
    using assms(1) by (simp_all add: validate_gap_def guards)
  have f: "fld v ''schema_version'' = JInt 1" "fld v ''feed'' = JStr ''run_gaps''" "juuid4 (fld v ''run_id'')"
    "juuid4 (fld v ''rehearsal_id'')" "juuid4 (fld v ''projection_generation'')" "juuid4 (fld v ''marker_source_id'')"
    "fld v ''producer_instance_id'' = JNull" "fld v ''native_session_id'' = JNull" "fld v ''associations'' = JNull"
    "gap_seq False (fld v ''projection_seq'')" "jstr_in (map fst GAP_CODES_BY_KIND) (fld v ''event_kind'')"
    "has_keys [''class'', ''version''] (fld v ''source'')" "fld (fld v ''source'') ''class'' = JStr ''receiver''"
    "fld (fld v ''source'') ''version'' = JStr ''receiver_projection_v1''" "utc_text h24 True (fld v ''observed_at'')"
    "utc_text h24 False (fld v ''ingested_at'')"
    using h(1) by (simp_all add: check_gap_head_def guards)
  have p: "list_all (list_all printable) (map fst GAP_CODES_BY_KIND)" "list_all printable ''run_gaps''"
    "list_all (list_all printable) [''class'', ''version'']" "list_all printable ''receiver''" "list_all printable ''receiver_projection_v1''"
    by code_simp+
  have "jstr_in (gap_codes_of (jstr (fld v ''event_kind''))) (fld (fld v ''payload'') ''loss_code'')"
    "jarr (fld v ''loss'') = [fld (fld v ''payload'') ''loss_code'']"
    using h(2) by (simp_all add: check_gap_payload_def Let_def guards)
  then have l: "printable_json (fld v ''loss'')" by (cases "fld v ''loss''") (simp_all add: gap_code_printable)
  have "printable_json (fld v ''source'')"
    by (rule printable_object [OF f(12) p(3) wf_fld [OF assms(2)]]) (use f(13,14) p(4,5) in auto)
  then have "list_all (\<lambda>k. printable_json (fld v k)) GAP_FIELDS"
    unfolding GAP_FIELDS_def list.pred_inject
    using f(1,2,7-9) p(2) l payload_printable [OF h(2) assms(2)] printable_uuid4 [OF f(3)] printable_uuid4 [OF f(4)]
      printable_uuid4 [OF f(5)] printable_uuid4 [OF f(6)] printable_seq [OF f(10)] printable_choice [OF f(11) p(1)]
      printable_utc [OF f(15)] printable_utc [OF f(16)] by simp
  then show ?thesis using assms(3) by (simp add: list_all_iff)
qed

section \<open>Round trip\<close>

definition check_gap_document :: "bool \<Rightarrow> json \<Rightarrow> unit res" where
  "check_gap_document h24 v =
     rbind (require (has_keys (GAP_FIELDS @ [''projected_event_id'']) v \<and>
       (case fld v ''projected_event_id'' of JStr s \<Rightarrow> hex64_string s | _ \<Rightarrow> False)) ''telemetry_gap_shape'') (\<lambda>_.
     validate_gap h24 (without_id v))"

lemma gap_seq_sorted [sorted_checks]: "gap_seq b (sort_json v) = gap_seq b v"
  by (cases v) (simp_all add: gap_seq_def)

lemma loss_sorted [sorted_checks]:
  "(case sort_json v of JArr [JStr _] \<Rightarrow> True | _ \<Rightarrow> False) = (case v of JArr [JStr _] \<Rightarrow> True | _ \<Rightarrow> False)"
proof (cases v)
  case (JArr xs)
  show ?thesis
  proof (cases xs)
    case (Cons x ys)
    then show ?thesis using JArr by (cases x; cases ys) simp_all
  qed (simp add: JArr)
qed simp_all

lemma jarr_sorted: "jarr (sort_json v) = map sort_json (jarr v)"
  by (cases v) simp_all

lemma gap_loss_sorted:
  assumes "jstr_in codes c"
  shows "(map sort_json (jarr v) = [sort_json c]) = (jarr v = [c])"
proof -
  obtain t where "c = JStr t" using assms by (cases c) auto
  then show ?thesis by (auto simp: sorted_checks map_eq_Cons_conv)
qed

lemma check_gap_payload_sorted: "wf_json v \<Longrightarrow> check_gap_payload h24 (sort_json v) = check_gap_payload h24 v"
  by (cases "jstr_in (gap_codes_of (jstr (fld v ''event_kind''))) (fld (fld v ''payload'') ''loss_code'')")
    (simp_all add: check_gap_payload_def check_gap_range_def Let_def wf_fld sorted_checks jarr_sorted gap_loss_sorted)

lemma validate_gap_sorted: "wf_json v \<Longrightarrow> validate_gap h24 (sort_json v) = validate_gap h24 v"
  by (simp add: validate_gap_def check_gap_head_def check_gap_payload_sorted wf_fld sorted_checks)

lemma without_id_sorted: "without_id (sort_json v) = sort_json (without_id v)"
proof (cases v)
  case (JObj kvs)
  then show ?thesis
    by (simp add: sort_json_JObj AList.delete_eq filter_map filter_sort comp_def case_prod_unfold del: sort_json.simps)
qed simp_all

lemma wf_without_id: "wf_json v \<Longrightarrow> wf_json (without_id v)"
  by (cases v) (auto simp: AList.delete_eq distinct_map_filter)

lemma wf_with_id:
  assumes "wf_json v"
  shows "wf_json (with_id v i)"
proof (cases v)
  case (JObj kvs)
  then have "wf_json (snd p)" if "p \<in> set (AList.update ''projected_event_id'' (JStr i) kvs)" for p
    using assms that set_update_subset [of "''projected_event_id''" "JStr i" kvs] by auto
  then show ?thesis using assms JObj by simp
qed (use assms in simp_all)

lemma fld_without_id: "k \<noteq> ''projected_event_id'' \<Longrightarrow> fld (without_id v) k = fld v k"
  by (cases v) (simp_all add: fld_def)

lemma event_id_sorted:
  assumes "wf_json v" "gap_event_id sha256 v = Inr i"
  shows "gap_event_id sha256 (sort_json v) = Inr i"
  using assms canonicalize_sorted [of False 1 "JArr [fld v ''run_id'', fld v ''projection_generation'', fld v ''projection_seq'',
       fld v ''event_kind'', fld v ''marker_source_id'']"]
  by (auto simp: gap_event_id_def canonical_json_def sorted_checks guards simp del: canonicalize.simps)

interpretation gap_codec: canonical_codec "check_gap_document h24" False MAX_GAP_BYTES for h24
proof unfold_locales
  show "check_gap_document h24 (sort_json v) = check_gap_document h24 v" if "wf_json v" for v
  proof -
    have "(case sort_json x of JStr s \<Rightarrow> hex64_string s | _ \<Rightarrow> False) = (case x of JStr s \<Rightarrow> hex64_string s | _ \<Rightarrow> False)" for x
      by (cases x) simp_all
    then show ?thesis
      using that by (simp add: check_gap_document_def sorted_checks without_id_sorted validate_gap_sorted wf_without_id)
  qed
  show "False \<or> (check_gap_document h24 v = Inr () \<longrightarrow> printable_json v)" if w: "wf_json v" for v
  proof (rule disjI2, rule impI)
    assume c: "check_gap_document h24 v = Inr ()"
    then have k: "has_keys (GAP_FIELDS @ [''projected_event_id'']) v" and g: "validate_gap h24 (without_id v) = Inr ()"
        and i: "case fld v ''projected_event_id'' of JStr s \<Rightarrow> hex64_string s | _ \<Rightarrow> False"
      by (simp_all add: check_gap_document_def guards)
    show "printable_json v"
    proof (rule printable_object [OF k _ w])
      show "list_all (list_all printable) (GAP_FIELDS @ [''projected_event_id''])" by code_simp
      fix x assume "x \<in> set (GAP_FIELDS @ [''projected_event_id''])"
      moreover have "''projected_event_id'' \<notin> set GAP_FIELDS" by code_simp
      moreover have "printable_json (fld v ''projected_event_id'')"
        using i by (cases "fld v ''projected_event_id''") (auto simp: hex64_string_def list_all_iff hex_printable)
      ultimately show "printable_json (fld v x)"
        using gap_printable [OF g wf_without_id [OF w], of x] fld_without_id [of x v] by (cases "x = ''projected_event_id''") simp_all
    qed
  qed
qed (simp add: MAX_GAP_BYTES_def MAX_JSON_DOCUMENT_BYTES_def)

text \<open>Adding the identity to the sorted marker gives the canonical text of the marker.\<close>

lemma sort_key_stable_flip: "filter (\<lambda>x. k = f x) (sort_key f xs) = filter (\<lambda>x. k = f x) xs"
  using sort_key_stable [of f k xs] unfolding eq_commute [of k] .

lemma sort_members_snoc: "sort_members (sort_members kvs @ [p]) = sort_members (kvs @ [p])"
proof (rule properties_for_sort_key)
  show "mset (sort_members (kvs @ [p])) = mset (sort_members kvs @ [p])" by simp
  show "filter (\<lambda>x. utf16_units (fst k) = utf16_units (fst x)) (sort_members (kvs @ [p])) =
      filter (\<lambda>x. utf16_units (fst k) = utf16_units (fst x)) (sort_members kvs @ [p])" for k
    unfolding filter_append sort_key_stable_flip ..
qed simp

lemma canonicalize_members:
  assumes "canonicalize ascii d (JObj kvs) = Inr raw" "set kvs' = set kvs" "sort_members kvs' = sort_members kvs"
  shows "canonicalize ascii d (JObj kvs') = Inr raw"
  using assms unfolding canonicalize_JObj by simp

lemma with_id_sorted:
  assumes v: "v = JObj kvs" "''projected_event_id'' \<notin> fst ` set kvs" and wf: "wf_json v"
    and c: "canonical_json ascii (with_id v i) = Inr raw"
  shows "canonical_json ascii (with_id (sort_json v) i) = Inr raw" "without_id (sort_json (with_id v i)) = sort_json v"
    "fld (sort_json (with_id v i)) ''projected_event_id'' = JStr i"
proof -
  let ?p = "(''projected_event_id'', JStr i)" and ?s = "map (\<lambda>p. (fst p, sort_json (snd p)))"
  have w: "with_id v i = JObj (kvs @ [?p])" using v by (simp add: update_new)
  have sv: "sort_json v = JObj (?s (sort_members kvs))" unfolding v(1) by (rule sort_json_JObj)
  have ws: "with_id (sort_json v) i = JObj (?s (sort_members kvs) @ [?p])"
    using v(2) by (simp add: sv update_new image_image)
  have "canonicalize ascii 1 (JObj (?s (sort_members (kvs @ [?p])))) = Inr raw"
    using canonicalize_sorted [OF c [unfolded canonical_json_def w]] by (simp only: sort_json_JObj)
  moreover have "set (?s (sort_members kvs) @ [?p]) = set (?s (sort_members (kvs @ [?p])))" by simp
  moreover have "sort_members (?s (sort_members kvs) @ [?p]) = sort_members (?s (sort_members (kvs @ [?p])))"
    using sort_key_fst [of utf16_units sort_json "sort_members kvs @ [?p]"] sort_key_fst [of utf16_units sort_json "sort_members (kvs @ [?p])"]
    by (simp add: sort_members_snoc sort_key_sorted)
  ultimately show "canonical_json ascii (with_id (sort_json v) i) = Inr raw"
    unfolding ws canonical_json_def by (rule canonicalize_members)
  show "without_id (sort_json (with_id v i)) = sort_json v"
    unfolding without_id_sorted using v by (simp add: delete_update_same delete_id)
  have "wf_json (with_id v i)" by (rule wf_with_id [OF wf])
  moreover have "fld (with_id v i) ''projected_event_id'' = JStr i" using v(1) by (simp add: fld_def)
  ultimately show "fld (sort_json (with_id v i)) ''projected_event_id'' = JStr i" by (simp add: sorted_checks)
qed

text \<open>
  With a hash whose text is 64 hexadecimal digits, an encoded marker decodes to the same
  artifact, identity included; nothing but an encoded marker decodes.
\<close>

lemma gap_roundtrip:
  assumes wf: "wf_json v" and e: "encode_gap sha256 h24 v = Inr a" and h: "\<And>s. hex64_string (sha256 s)"
  shows "decode_gap sha256 h24 (gp_body a) = Inr a"
proof -
  obtain i body where b: "validate_gap h24 v = Inr ()" "gap_event_id sha256 v = Inr i"
      "canonical_json False (with_id v i) = Inr body" "length body \<le> MAX_GAP_BYTES"
      "a = \<lparr>gp_body = body, gp_byte_count = length body, gp_sha256 = sha256 body, gp_projected_event_id = i\<rparr>"
    using e by (auto simp: encode_gap_def guards)
  have k: "has_keys GAP_FIELDS v" using b(1) by (simp add: validate_gap_def check_gap_head_def guards)
  then obtain kvs where v: "v = JObj kvs" by (cases v) (simp_all add: has_keys_def)
  have n: "''projected_event_id'' \<notin> set GAP_FIELDS" by code_simp
  with k have f: "''projected_event_id'' \<notin> fst ` set kvs" unfolding v has_keys_def by simp
  note w = with_id_sorted [OF v f wf b(3)]
  have wd: "wf_json (with_id v i)" by (rule wf_with_id [OF wf])
  have i: "hex64_string i" using b(2) h by (auto simp: gap_event_id_def guards)
  have keys: "has_keys (GAP_FIELDS @ [''projected_event_id'']) (with_id v i)"
    using k by (simp add: v has_keys_def update_new [OF f])
  have "without_id (with_id v i) = v"
    using f by (simp add: v delete_update_same delete_id)
  then have "check_gap_document h24 (with_id v i) = Inr ()"
    using b(1) i keys by (simp add: check_gap_document_def) (simp add: v fld_def)
  note r = gap_codec.read_back [OF wd this b(3,4)]
  have "encode_gap sha256 h24 (sort_json v) = Inr a"
    using b w(1) wf event_id_sorted [OF wf b(2)] by (simp add: encode_gap_def validate_gap_sorted)
  then show ?thesis
    using r keys w(2,3) b(4,5) by (simp add: decode_gap_def sorted_checks)
qed

lemma decode_gap_sound:
  assumes "decode_gap sha256 h24 data = Inr a"
  shows "gp_body a = data \<and> (\<exists>v. encode_gap sha256 h24 v = Inr a)"
  using assms by (auto simp: decode_gap_def guards)

end
