(* ===== verification/PyBytes.thy ===== *)
theory PyBytes
  imports Prelude
begin

text \<open>
  The operations of the standard \<open>bytes\<close> and ASCII \<open>str\<close> types that the HTTP code
  uses: \<open>find\<close>, \<open>split\<close>, \<open>replace\<close> by nothing, \<open>strip\<close>, \<open>lower\<close>,
  \<open>startswith\<close> and \<open>endswith\<close>.
\<close>

definition starts_with :: "string \<Rightarrow> string \<Rightarrow> bool" where
  "starts_with pat s \<longleftrightarrow> take (length pat) s = pat"

definition ends_with :: "string \<Rightarrow> string \<Rightarrow> bool" where
  "ends_with pat s \<longleftrightarrow> length pat \<le> length s \<and> drop (length s - length pat) s = pat"

fun find_bytes :: "string \<Rightarrow> string \<Rightarrow> nat option" where
  "find_bytes pat [] = (if pat = [] then Some 0 else None)"
| "find_bytes pat (c # s) = (if starts_with pat (c # s) then Some 0 else map_option Suc (find_bytes pat s))"

text \<open>\<open>data.find(pat, start)\<close>\<close>

definition find_from :: "string \<Rightarrow> string \<Rightarrow> nat \<Rightarrow> nat option" where
  "find_from pat s start = map_option (\<lambda>i. start + i) (find_bytes pat (drop start s))"

lemma find_bytes_bound: "find_bytes pat s = Some i \<Longrightarrow> i + length pat \<le> length s"
proof (induction pat s arbitrary: i rule: find_bytes.induct)
  case (2 pat c s)
  show ?case
  proof (cases "starts_with pat (c # s)")
    case True
    then have "length (take (length pat) (c # s)) = length pat" by (simp add: starts_with_def)
    then have "length pat \<le> length (c # s)" by (metis length_take min.cobounded1)
    with True 2 show ?thesis by simp
  next
    case False
    with 2 show ?thesis by auto
  qed
qed (auto split: if_splits)

text \<open>\<open>data.split(pat)\<close> for a nonempty \<open>pat\<close>, and \<open>data.split(pat, n)\<close>.\<close>

function split_bytes :: "string \<Rightarrow> string \<Rightarrow> string list" where
  "split_bytes pat s = (if pat = [] then [s] else case find_bytes pat s of
     None \<Rightarrow> [s]
   | Some i \<Rightarrow> take i s # split_bytes pat (drop (i + length pat) s))"
  by pat_completeness auto
termination
  by (relation "measure (length \<circ> snd)") (auto dest!: find_bytes_bound simp flip: length_greater_0_conv)

fun split_max :: "nat \<Rightarrow> string \<Rightarrow> string \<Rightarrow> string list" where
  "split_max 0 pat s = [s]"
| "split_max (Suc n) pat s = (case find_bytes pat s of
     None \<Rightarrow> [s]
   | Some i \<Rightarrow> take i s # split_max n pat (drop (i + length pat) s))"

declare split_bytes.simps [simp del]

text \<open>\<open>data.replace(pat, b"")\<close>\<close>

definition remove_bytes :: "string \<Rightarrow> string \<Rightarrow> string" where
  "remove_bytes pat s = concat (split_bytes pat s)"

definition strip_chars :: "string \<Rightarrow> string \<Rightarrow> string" where
  "strip_chars cs s = rev (dropWhile (\<lambda>c. c \<in> set cs) (rev (dropWhile (\<lambda>c. c \<in> set cs) s)))"

definition lower_char :: "char \<Rightarrow> char" where
  "lower_char c = (if CHR ''A'' \<le> c \<and> c \<le> CHR ''Z'' then char_of ((of_char c :: nat) + 32) else c)"

definition lower_text :: "string \<Rightarrow> string" where
  "lower_text s = map lower_char s"

section \<open>Searching\<close>

lemma find_bytes_skip:
  assumes "c \<notin> set xs" "pat = c # cs"
  shows "find_bytes pat (xs @ pat @ ys) = Some (length xs)"
  using assms by (induction xs) (auto simp: starts_with_def)

lemma find_bytes_absent: "c \<notin> set s \<Longrightarrow> find_bytes (c # cs) s = None"
  by (induction s) (auto simp: starts_with_def)

text \<open>A pattern is not found before the end of a prefix none of whose suffixes can start it.\<close>

lemma find_bytes_append:
  assumes "\<forall>i < length xs. \<not> starts_with pat (drop i xs @ ys)"
  shows "find_bytes pat (xs @ ys) = map_option (\<lambda>i. length xs + i) (find_bytes pat ys)"
  using assms
proof (induction xs)
  case Nil
  then show ?case by (cases "find_bytes pat ys") simp_all
next
  case (Cons x xs)
  have "\<not> starts_with pat (drop i xs @ ys)" if "i < length xs" for i
    using Cons.prems [rule_format, of "Suc i"] that by simp
  moreover have "\<not> starts_with pat (x # xs @ ys)" using Cons.prems [rule_format, of 0] by simp
  ultimately show ?case using Cons.IH by (cases "find_bytes pat ys") simp_all
qed

lemma split_bytes_snoc:
  assumes "c \<notin> set xs" "pat = c # cs"
  shows "split_bytes pat (xs @ pat @ ys) = xs # split_bytes pat ys"
proof -
  have "find_bytes pat (xs @ pat @ ys) = Some (length xs)" by (rule find_bytes_skip [OF assms])
  moreover have "pat \<noteq> []" using assms by simp
  ultimately show ?thesis by (subst split_bytes.simps) simp
qed

lemma split_bytes_last: "c \<notin> set s \<Longrightarrow> split_bytes (c # cs) s = [s]"
  by (subst split_bytes.simps) (simp add: find_bytes_absent)

end
