(* ===== verification/HttpResponse.thy ===== *)
theory HttpResponse
  imports JsonParse PyBytes
begin

text \<open>
  The bounded HTTP/1.1 response codec (\<open>forwarder_http_response.py\<close>): one status line, one
  header block and a body of the declared length; serialisation emits fixed metadata only.
\<close>

definition MAX_STATUS_LINE :: nat where "MAX_STATUS_LINE = 2048"
definition RESPONSE_MAX_HEADERS :: nat where "RESPONSE_MAX_HEADERS = 16384"
definition RESPONSE_MAX_BODY :: nat where "RESPONSE_MAX_BODY = 1048576"
definition RESPONSE_MAX_INPUT :: nat where "RESPONSE_MAX_INPUT = MAX_STATUS_LINE + RESPONSE_MAX_HEADERS + RESPONSE_MAX_BODY"
definition RESPONSE_MAX_FIELDS :: nat where "RESPONSE_MAX_FIELDS = 64"

abbreviation CRLF :: string where "CRLF \<equiv> [CHR 0x0D, CHR 0x0A]"
abbreviation TAB :: char where "TAB \<equiv> CHR 0x09"

definition HTTP_TOKEN :: string where
  "HTTP_TOKEN = ''!#$%&'' @ [CHR 0x27] @ ''*+-.^_'' @ [CHR 0x60] @ ''|~'' @ digits @ letters"

definition canonical_length :: "string \<Rightarrow> bool" where
  "canonical_length s \<longleftrightarrow> s = ''0'' \<or> (s \<noteq> [] \<and> hd s \<noteq> CHR ''0'' \<and> list_all is_digit s)"

definition FORBIDDEN_HEADERS :: "string list" where
  "FORBIDDEN_HEADERS = [''transfer-encoding'', ''trailer'', ''content-encoding'', ''upgrade'']"

record parsed_response =
  pr_status :: int
  pr_body :: bytes

record parsed_response_head =
  ph_status :: int
  ph_body_length :: nat

abbreviation response_require :: "bool \<Rightarrow> unit res" where
  "response_require c \<equiv> require c ''invalid_response''"

definition valid_status :: "int \<Rightarrow> bool" where
  "valid_status s \<longleftrightarrow> 200 \<le> s \<and> s \<le> 299 \<or> 400 \<le> s \<and> s \<le> 599"

definition parse_status_line :: "bytes \<Rightarrow> (int \<times> nat) res" where
  "parse_status_line data = (case find_bytes CRLF data of
     None \<Rightarrow> Inl ''invalid_response''
   | Some e \<Rightarrow>
       rbind (response_require (e + 2 \<le> MAX_STATUS_LINE)) (\<lambda>_.
       case split_max 2 '' '' (take e data) of
         [version, code, reason] \<Rightarrow>
           rbind (response_require (version = ''HTTP/1.1'' \<and> length code = 3)) (\<lambda>_.
           rbind (response_require (list_all is_digit code \<and> reason \<noteq> [] \<and> \<not> starts_with '' '' reason)) (\<lambda>_.
           rbind (response_require (list_all printable reason)) (\<lambda>_.
           let status = int (digits_value code) in
           rbind (response_require (valid_status status)) (\<lambda>_.
           Inr (status, e + 2)))))
       | _ \<Rightarrow> Inl ''invalid_response''))"

definition header_value_char :: "char \<Rightarrow> bool" where
  "header_value_char c \<longleftrightarrow> c = TAB \<or> printable c"

definition parse_header_line :: "bytes \<Rightarrow> (string \<times> string) list \<Rightarrow> (string \<times> string) list res" where
  "parse_header_line line headers = (case find_bytes '':'' line of
     None \<Rightarrow> Inl ''invalid_response''
   | Some colon \<Rightarrow>
       let name = take colon line; v = drop (colon + 1) line; lowered = lower_text name; normalized = strip_chars (CHR '' '' # [TAB]) v in
       rbind (response_require (0 < colon \<and> last name \<noteq> CHR '' '' \<and> last name \<noteq> TAB)) (\<lambda>_.
       rbind (response_require (list_all (\<lambda>c. c \<in> set HTTP_TOKEN) name)) (\<lambda>_.
       rbind (response_require (list_all header_value_char v)) (\<lambda>_.
       rbind (response_require (map_of headers lowered = None \<and> lowered \<notin> set FORBIDDEN_HEADERS)) (\<lambda>_.
       rbind (response_require (\<not> (TAB \<in> set normalized \<and> lowered \<noteq> ''connection''))) (\<lambda>_.
       Inr (AList.update lowered normalized headers)))))))"

definition check_connection :: "(string \<times> string) list \<Rightarrow> unit res" where
  "check_connection headers = (case map_of headers ''connection'' of
     None \<Rightarrow> Inr ()
   | Some connection \<Rightarrow>
       let tokens = map (strip_chars (CHR '' '' # [TAB])) (split_bytes '','' connection) in
       rbind (response_require (list_all (\<lambda>t. t \<noteq> [] \<and> list_all (\<lambda>c. c \<in> set HTTP_TOKEN) t) tokens)) (\<lambda>_.
       response_require (\<not> list_ex (\<lambda>t. lower_text t \<in> {''content-length'', ''content-type''}) tokens)))"

definition parse_response_headers :: "bytes \<Rightarrow> nat \<Rightarrow> ((string \<times> string) list \<times> nat) res" where
  "parse_response_headers data start =
     (if take 2 (drop start data) = CRLF then Inr ([], start + 2)
      else case find_from (CRLF @ CRLF) data start of
        None \<Rightarrow> Inl ''invalid_response''
      | Some e \<Rightarrow>
          rbind (response_require (e + 4 - start \<le> RESPONSE_MAX_HEADERS)) (\<lambda>_.
          let lines = (if e = start then [] else split_bytes CRLF (drop start (take e data))) in
          rbind (response_require (length lines \<le> RESPONSE_MAX_FIELDS)) (\<lambda>_.
          rbind (rfold parse_header_line lines []) (\<lambda>headers.
          rbind (check_connection headers) (\<lambda>_.
          Inr (headers, e + 4))))))"

definition response_body_length :: "int \<Rightarrow> (string \<times> string) list \<Rightarrow> nat res" where
  "response_body_length status headers =
     (if status = 204 then
        rbind (response_require (map_of headers ''content-length'' = None \<and> map_of headers ''content-type'' = None)) (\<lambda>_. Inr 0)
      else if status = 205 then
        rbind (response_require (map_of headers ''content-length'' = Some ''0'' \<and> map_of headers ''content-type'' = None)) (\<lambda>_. Inr 0)
      else case map_of headers ''content-length'' of
        None \<Rightarrow> Inl ''invalid_response''
      | Some text \<Rightarrow>
          rbind (response_require (length text \<le> length (nat_text RESPONSE_MAX_BODY) \<and> canonical_length text \<and>
            map_of headers ''content-type'' = Some ''application/json'')) (\<lambda>_.
          let declared = digits_value text in
          rbind (response_require (declared \<le> RESPONSE_MAX_BODY \<and> declared \<noteq> 0)) (\<lambda>_.
          Inr declared)))"

definition parse_response_head :: "bytes \<Rightarrow> parsed_response_head res" where
  "parse_response_head data =
     rbind (response_require (length data \<le> MAX_STATUS_LINE + RESPONSE_MAX_HEADERS)) (\<lambda>_.
     rbind (parse_status_line data) (\<lambda>(status, header_start).
     rbind (parse_response_headers data header_start) (\<lambda>(headers, body_start).
     rbind (response_require (body_start = length data)) (\<lambda>_.
     let remainder = remove_bytes CRLF data in
     rbind (response_require (CHR 0x0D \<notin> set remainder \<and> CHR 0x0A \<notin> set remainder)) (\<lambda>_.
     rbind (response_body_length status headers) (\<lambda>n.
     Inr \<lparr>ph_status = status, ph_body_length = n\<rparr>))))))"

definition response_body_start :: "bytes \<Rightarrow> nat res" where
  "response_body_start data = (case find_bytes CRLF data of
     None \<Rightarrow> Inl ''invalid_response''
   | Some status_end \<Rightarrow>
       if take 2 (drop (status_end + 2) data) = CRLF then Inr (status_end + 4)
       else case find_from (CRLF @ CRLF) data (status_end + 2) of
         None \<Rightarrow> Inl ''invalid_response''
       | Some header_end \<Rightarrow> Inr (header_end + 4))"

definition parse_response :: "bytes \<Rightarrow> parsed_response res" where
  "parse_response data =
     rbind (response_require (length data \<le> RESPONSE_MAX_INPUT)) (\<lambda>_.
     rbind (response_body_start data) (\<lambda>body_start.
     rbind (parse_response_head (take body_start data)) (\<lambda>head.
     let body = drop body_start data in
     rbind (response_require (length body \<le> RESPONSE_MAX_BODY \<and> length body = ph_body_length head)) (\<lambda>_.
     Inr \<lparr>pr_status = ph_status head, pr_body = body\<rparr>))))"

definition serialize_response :: "parsed_response \<Rightarrow> bytes res" where
  "serialize_response r =
     rbind (response_require (valid_status (pr_status r) \<and> length (pr_body r) \<le> RESPONSE_MAX_BODY)) (\<lambda>_.
     if pr_status r = 204 then
       rbind (response_require (pr_body r = [])) (\<lambda>_.
       Inr (''HTTP/1.1 204 No Content'' @ CRLF @ ''Connection: close'' @ CRLF @ CRLF))
     else if pr_status r = 205 then
       rbind (response_require (pr_body r = [])) (\<lambda>_.
       Inr (''HTTP/1.1 205 Reset Content'' @ CRLF @ ''Content-Length: 0'' @ CRLF @ ''Connection: close'' @ CRLF @ CRLF))
     else rbind (response_require (pr_body r \<noteq> [])) (\<lambda>_.
       Inr (''HTTP/1.1 '' @ int_text (pr_status r) @ '' Response'' @ CRLF @ ''Content-Type: application/json'' @ CRLF @
         ''Content-Length: '' @ nat_text (length (pr_body r)) @ CRLF @ ''Connection: close'' @ CRLF @ CRLF @ pr_body r)))"

section \<open>Framing\<close>

text \<open>A message of lines, an empty line and a body.\<close>

definition line_ok :: "string \<Rightarrow> bool" where
  "line_ok l \<longleftrightarrow> l \<noteq> [] \<and> CHR 0x0D \<notin> set l \<and> CHR 0x0A \<notin> set l"

definition framed :: "string list \<Rightarrow> string" where
  "framed ls = concat (map (\<lambda>l. l @ CRLF) ls)"

lemma framed_simps [simp]: "framed [] = []" "framed (l # ls) = l @ CRLF @ framed ls"
  by (simp_all add: framed_def)

lemma not_empty_line: "line_ok l \<Longrightarrow> take 2 (l @ s) \<noteq> CRLF"
  by (cases l) (auto simp: line_ok_def)

lemma find_blank_line:
  assumes "list_all line_ok ls" "ls \<noteq> []"
  shows "find_bytes (CRLF @ CRLF) (framed ls @ CRLF @ body) = Some (length (framed ls) - 2)"
  using assms
proof (induction ls)
  case (Cons l ls)
  show ?case
  proof (cases ls)
    case Nil
    then show ?thesis
      using Cons.prems find_bytes_skip [of "CHR 0x0D" l "CRLF @ CRLF" _ body] by (simp add: line_ok_def)
  next
    case (Cons l' ls')
    then obtain c t where l': "l' = c # t" "c \<noteq> CHR 0x0D" using Cons.prems by (cases l') (auto simp: line_ok_def)
    have "\<not> starts_with (CRLF @ CRLF) (drop i (l @ CRLF) @ framed ls @ CRLF @ body)" if i: "i < length (l @ CRLF)" for i
    proof (cases "i < length l")
      case True
      then have "drop i l = l ! i # drop (Suc i) l" by (simp add: Cons_nth_drop_Suc)
      moreover have "l ! i \<noteq> CHR 0x0D" using True Cons.prems by (auto simp: line_ok_def dest: nth_mem)
      ultimately show ?thesis using True by (simp add: starts_with_def)
    next
      case False
      then have "i = length l \<or> i = Suc (length l)" using i by auto
      then show ?thesis using l' Cons by (auto simp: starts_with_def)
    qed
    then have "find_bytes (CRLF @ CRLF) ((l @ CRLF) @ framed ls @ CRLF @ body) =
        map_option (\<lambda>i. length (l @ CRLF) + i) (find_bytes (CRLF @ CRLF) (framed ls @ CRLF @ body))"
      by (intro find_bytes_append) blast
    also have "find_bytes (CRLF @ CRLF) (framed ls @ CRLF @ body) = Some (length (framed ls) - 2)"
      using Cons.IH Cons.prems Cons by simp
    finally show ?thesis using Cons by (simp add: framed_def)
  qed
qed simp

lemma split_framed:
  assumes "list_all line_ok ls"
  shows "split_bytes CRLF (framed ls @ s) = ls @ split_bytes CRLF s"
  using assms
proof (induction ls)
  case (Cons l ls)
  then show ?case
    using split_bytes_snoc [of "CHR 0x0D" l CRLF _ "framed ls @ s"] by (simp add: line_ok_def)
qed simp

lemma split_lines:
  assumes "list_all line_ok ls" "ls \<noteq> []"
  shows "split_bytes CRLF (take (length (framed ls) - 2) (framed ls)) = ls"
proof -
  obtain ks k where ls: "ls = ks @ [k]" using assms(2) by (cases ls rule: rev_cases) auto
  have "take (length (framed ls) - 2) (framed ls) = framed ks @ k" by (simp add: ls framed_def)
  moreover have "split_bytes CRLF k = [k]" using assms(1) ls by (intro split_bytes_last) (simp add: line_ok_def)
  ultimately show ?thesis using assms(1) ls by (simp add: split_framed)
qed

lemma remove_framed:
  assumes "list_all line_ok ls"
  shows "remove_bytes CRLF (framed ls @ CRLF) = concat ls"
proof -
  have "split_bytes CRLF (CRLF :: string) = [[], []]" by code_simp
  then show ?thesis using split_framed [OF assms, of CRLF] by (simp add: remove_bytes_def)
qed

text \<open>What the parser sees of a framed message.\<close>

lemma body_start_framed:
  assumes "line_ok l" "list_all line_ok ls" "ls \<noteq> []"
  shows "response_body_start (framed (l # ls) @ CRLF @ body) = Inr (length (framed (l # ls)) + 2)"
proof -
  have f: "find_bytes CRLF (framed (l # ls) @ CRLF @ body) = Some (length l)"
    using assms(1) find_bytes_skip [of "CHR 0x0D" l CRLF _ "framed ls @ CRLF @ body"] by (simp add: line_ok_def)
  have n: "take 2 (framed ls @ CRLF @ body) \<noteq> CRLF"
    using assms(2,3) not_empty_line [of "hd ls"] by (cases ls) simp_all
  have "2 \<le> length (framed ls)" using assms(3) by (cases ls) simp_all
  then show ?thesis
    using f n find_blank_line [OF assms(2,3), of body] by (simp add: response_body_start_def find_from_def)
qed

lemma head_framed:
  assumes l: "line_ok l" and ls: "list_all line_ok ls" "ls \<noteq> []" and len: "length (framed ls) + 2 \<le> RESPONSE_MAX_HEADERS"
    and k: "length ls \<le> RESPONSE_MAX_FIELDS" and line: "length l + 2 \<le> MAX_STATUS_LINE"
    and st: "parse_status_line (framed (l # ls) @ CRLF) = Inr (status, length l + 2)"
    and hs: "rfold parse_header_line ls [] = Inr headers" "check_connection headers = Inr ()"
    and n: "response_body_length status headers = Inr n"
  shows "parse_response_head (framed (l # ls) @ CRLF) = Inr \<lparr>ph_status = status, ph_body_length = n\<rparr>"
proof -
  have nt: "take 2 (framed ls @ CRLF) \<noteq> CRLF"
    using ls not_empty_line [of "hd ls"] by (cases ls) simp_all
  have g: "3 \<le> length (framed ls)" using ls by (cases ls) (auto simp: line_ok_def Suc_le_eq)
  have fb: "find_bytes (CRLF @ CRLF) (framed ls @ CRLF) = Some (length (framed ls) - 2)"
    using find_blank_line [OF ls, of "[]"] by simp
  obtain m where m: "length (framed ls) = m + 3" using g by (metis le_add_diff_inverse2)
  have "drop (length l + 2) (take (length l + 2 + (m + 1)) (framed (l # ls) @ CRLF)) = take (m + 1) (framed ls)"
    by (simp add: drop_take m)
  then have "parse_response_headers (framed (l # ls) @ CRLF) (length l + 2) = Inr (headers, length (framed (l # ls)) + 2)"
    using nt fb len k hs split_lines [OF ls] m
    by (simp add: parse_response_headers_def find_from_def)
  moreover have "CHR 0x0D \<notin> set (concat (l # ls)) \<and> CHR 0x0A \<notin> set (concat (l # ls))"
    using l ls(1) by (auto simp: line_ok_def list_all_iff)
  ultimately show ?thesis
    using st n len line remove_framed [of "l # ls"] l ls(1) by (simp add: parse_response_head_def)
qed

section \<open>Round trip\<close>

lemma digits_not_special:
  assumes "list_all is_digit t"
  shows "CHR '' '' \<notin> set t" "CHR 0x0D \<notin> set t" "CHR 0x0A \<notin> set t" "TAB \<notin> set t"
proof -
  have "\<not> is_digit CHR '' ''" "\<not> is_digit CHR 0x0D" "\<not> is_digit CHR 0x0A" "\<not> is_digit TAB" by code_simp+
  then show "CHR '' '' \<notin> set t" "CHR 0x0D \<notin> set t" "CHR 0x0A \<notin> set t" "TAB \<notin> set t"
    using assms unfolding list_all_iff by blast+
qed

lemma status_line_parts:
  assumes "list_all is_digit t"
  shows "split_max 2 '' '' (''HTTP/1.1 '' @ t @ CHR '' '' # reason) = [''HTTP/1.1'', t, reason]"
proof -
  have "find_bytes '' '' (t @ '' '' @ reason) = Some (length t)"
    by (rule find_bytes_skip) (use digits_not_special [OF assms] in simp_all)
  moreover have "find_bytes '' '' (''HTTP/1.1'' @ '' '' @ (t @ CHR '' '' # reason)) = Some (length ''HTTP/1.1'')"
    by (rule find_bytes_skip) simp_all
  ultimately show ?thesis by (simp add: numeral_2_eq_2)
qed

lemma parse_status_line_emitted:
  assumes t: "list_all is_digit t" "length t = 3" "valid_status (int (digits_value t))"
    and r: "reason \<noteq> []" "hd reason \<noteq> CHR '' ''" "list_all printable reason" "length reason \<le> 1000"
  shows "parse_status_line ((''HTTP/1.1 '' @ t @ CHR '' '' # reason) @ CRLF @ rest) =
    Inr (int (digits_value t), length (''HTTP/1.1 '' @ t @ CHR '' '' # reason) + 2)"
proof -
  let ?l = "''HTTP/1.1 '' @ t @ CHR '' '' # reason"
  have "\<not> printable CHR 0x0D" by code_simp
  then have "CHR 0x0D \<notin> set reason" using r(3) by (auto simp: list_all_iff)
  then have "find_bytes CRLF (?l @ CRLF @ rest) = Some (length ?l)"
    by (intro find_bytes_skip) (use digits_not_special [OF t(1)] in simp_all)
  moreover have "\<not> starts_with '' '' reason" using r(1,2) by (cases reason) (simp_all add: starts_with_def)
  ultimately show ?thesis
    using status_line_parts [OF t(1), of reason] t r
    by (simp add: parse_status_line_def MAX_STATUS_LINE_def del: append_Cons append.simps find_bytes.simps)
qed

lemma strip_digits:
  assumes "list_all is_digit t"
  shows "strip_chars (CHR '' '' # [TAB]) (CHR '' '' # t) = t"
proof -
  have "dropWhile (\<lambda>c. c \<in> set (CHR '' '' # [TAB])) u = u" if "set u \<subseteq> set t" for u
    using digits_not_special(1,4) [OF assms] that by (cases u) auto
  note this [of t] this [of "rev t"]
  then show ?thesis by (simp add: strip_chars_def)
qed

lemma plain_header:
  assumes "name \<noteq> []" "CHR '':'' \<notin> set name" "last name \<noteq> CHR '' ''" "last name \<noteq> TAB"
    "list_all (\<lambda>c. c \<in> set HTTP_TOKEN) name" "lower_text name \<notin> set FORBIDDEN_HEADERS" "list_all printable v"
    "map_of headers (lower_text name) = None"
  shows "parse_header_line (name @ '':'' @ v) headers =
    Inr (AList.update (lower_text name) (strip_chars (CHR '' '' # [TAB]) v) headers)"
proof -
  have f: "find_bytes '':'' (name @ '':'' @ v) = Some (length name)"
    by (rule find_bytes_skip) (use assms(2) in simp_all)
  have "\<not> printable TAB" by code_simp
  moreover have "set (strip_chars (CHR '' '' # [TAB]) v) \<subseteq> set v"
    by (auto simp: strip_chars_def dest!: set_dropWhileD)
  ultimately have t: "TAB \<notin> set (strip_chars (CHR '' '' # [TAB]) v)" using assms(7) by (auto simp: list_all_iff)
  have "list_all header_value_char v" using assms(7) by (auto simp: list_all_iff header_value_char_def)
  then show ?thesis using f t assms by (simp add: parse_header_line_def Let_def)
qed

lemma length_header:
  assumes "list_all is_digit t" "map_of headers ''content-length'' = None"
  shows "parse_header_line (''Content-Length: '' @ t) headers = Inr (AList.update ''content-length'' t headers)"
proof -
  have c: "list_all (\<lambda>c. c \<in> set HTTP_TOKEN) ''Content-Length''" "lower_text ''Content-Length'' = ''content-length''"
    "''content-length'' \<notin> set FORBIDDEN_HEADERS" "printable CHR '' ''"
    by code_simp+
  have "list_all printable ('' '' @ t)" using assms(1) c(4) by (simp add: list_all_iff digit_printable)
  then show ?thesis
    using plain_header [of "''Content-Length''" "'' '' @ t" headers] c assms strip_digits [OF assms(1)] by simp
qed

lemma connection_header:
  assumes "map_of headers ''connection'' = None"
  shows "parse_header_line ''Connection: close'' headers = Inr (AList.update ''connection'' ''close'' headers)"
proof -
  have "list_all (\<lambda>c. c \<in> set HTTP_TOKEN) ''Connection''" "lower_text ''Connection'' = ''connection''"
    "''connection'' \<notin> set FORBIDDEN_HEADERS" "list_all printable '' close''" "strip_chars (CHR '' '' # [TAB]) '' close'' = ''close''"
    by code_simp+
  then show ?thesis using plain_header [of "''Connection''" "'' close''" headers] assms by simp
qed

lemma type_header: "parse_header_line ''Content-Type: application/json'' [] = Inr [(''content-type'', ''application/json'')]"
  by code_simp

lemma connection_close: "map_of headers ''connection'' = Some ''close'' \<Longrightarrow> check_connection headers = Inr ()"
proof -
  have "map (strip_chars (CHR '' '' # [TAB])) (split_bytes '','' ''close'') = [''close'']"
    "list_all (\<lambda>c. c \<in> set HTTP_TOKEN) ''close''" "lower_text ''close'' = ''close''"
    by code_simp+
  then show "map_of headers ''connection'' = Some ''close'' \<Longrightarrow> check_connection headers = Inr ()"
    by (simp add: check_connection_def Let_def)
qed

lemma nat_text_length_le: "n \<le> RESPONSE_MAX_BODY \<Longrightarrow> length (nat_text n) \<le> 7 \<and> length (nat_text RESPONSE_MAX_BODY) = 7"
proof -
  have "length (nat_text RESPONSE_MAX_BODY) = 7" by (simp add: RESPONSE_MAX_BODY_def nat_text.simps)
  then show "n \<le> RESPONSE_MAX_BODY \<Longrightarrow> length (nat_text n) \<le> 7 \<and> length (nat_text RESPONSE_MAX_BODY) = 7"
    using length_nat_text_mono [of n RESPONSE_MAX_BODY] by simp
qed

lemma canonical_nat_text: "canonical_length (nat_text n)"
  using nat_text_zero [of n] nat_text_nonempty [of n] nat_text_digits [of n] by (auto simp: canonical_length_def)

lemma status_text:
  assumes "valid_status (int n)"
  shows "length (nat_text n) = 3"
proof -
  have "100 \<le> n" "n < 1000" using assms by (auto simp: valid_status_def)
  then have "n div 10 < 100" "n div 10 \<ge> 10" "n div 10 div 10 < 10" by auto
  then show ?thesis
    using \<open>100 \<le> n\<close> by (simp add: nat_text.simps [of n] nat_text.simps [of "n div 10"] nat_text.simps [of "n div 10 div 10"])
qed

text \<open>The head the serialiser emits for a status with a body.\<close>

definition emitted_lines :: "nat \<Rightarrow> nat \<Rightarrow> string list" where
  "emitted_lines status n = [''HTTP/1.1 '' @ nat_text status @ '' Response'', ''Content-Type: application/json'',
     ''Content-Length: '' @ nat_text n, ''Connection: close'']"

lemma emitted_lines_ok: "list_all line_ok (emitted_lines status n)"
  using digits_not_special [OF nat_text_digits] by (simp add: emitted_lines_def line_ok_def)

lemma parse_emitted_head:
  assumes s: "valid_status (int status)" "status \<noteq> 204" "status \<noteq> 205" and n: "n \<le> RESPONSE_MAX_BODY" "n \<noteq> 0"
  shows "parse_response_head (framed (emitted_lines status n) @ CRLF) = Inr \<lparr>ph_status = int status, ph_body_length = n\<rparr>"
proof -
  define ls where "ls = tl (emitted_lines status n)"
  define l where "l = hd (emitted_lines status n)"
  define hs where "hs = [(''content-type'', ''application/json''), (''content-length'', nat_text n), (''connection'', ''close'')]"
  have e: "emitted_lines status n = l # ls" by (simp add: l_def ls_def emitted_lines_def)
  note ok = emitted_lines_ok [of status n, unfolded e]
  note len = nat_text_length_le [OF n(1)] status_text [OF s(1)]
  have "parse_status_line (framed (l # ls) @ CRLF) = Inr (int status, length l + 2)"
    using parse_status_line_emitted [OF nat_text_digits [of status], of "''Response''" "framed ls @ CRLF"] s(1) len
    by (simp add: nat_text_value l_def emitted_lines_def printable_def)
  moreover have "rfold parse_header_line ls [] = Inr hs"
    using length_header [OF nat_text_digits, of "[(''content-type'', ''application/json'')]" n]
    by (simp add: ls_def emitted_lines_def type_header connection_header hs_def)
  moreover have "check_connection hs = Inr ()" by (rule connection_close) (simp add: hs_def)
  moreover have "response_body_length (int status) hs = Inr n"
    using s n len by (simp add: response_body_length_def hs_def canonical_nat_text nat_text_value)
  moreover have "length (framed ls) + 2 \<le> RESPONSE_MAX_HEADERS" "length ls \<le> RESPONSE_MAX_FIELDS" "ls \<noteq> []"
      "length l + 2 \<le> MAX_STATUS_LINE"
    using len by (simp_all add: ls_def l_def emitted_lines_def RESPONSE_MAX_HEADERS_def RESPONSE_MAX_FIELDS_def MAX_STATUS_LINE_def)
  ultimately show ?thesis unfolding e using ok by (intro head_framed) simp_all
qed

lemma parse_framed:
  assumes "list_all line_ok (l # ls)" "ls \<noteq> []" "length (framed (l # ls)) + 2 \<le> MAX_STATUS_LINE + RESPONSE_MAX_HEADERS"
    and h: "parse_response_head (framed (l # ls) @ CRLF) = Inr \<lparr>ph_status = status, ph_body_length = length body\<rparr>"
    and b: "length body \<le> RESPONSE_MAX_BODY"
  shows "parse_response (framed (l # ls) @ CRLF @ body) = Inr \<lparr>pr_status = status, pr_body = body\<rparr>"
proof -
  define h where "h = framed (l # ls) @ CRLF"
  have e: "framed (l # ls) @ CRLF @ body = h @ body" unfolding h_def by (simp only: append_assoc)
  have "response_body_start (h @ body) = Inr (length h)"
    using body_start_framed [of l ls body] assms(1,2) by (simp add: e [symmetric] h_def del: framed_simps)
  moreover have "length (h @ body) \<le> RESPONSE_MAX_INPUT"
    using assms(3) b by (simp add: RESPONSE_MAX_INPUT_def h_def)
  ultimately show ?thesis
    unfolding e using h [folded h_def] b by (simp add: parse_response_def Let_def)
qed

lemma parse_204_head:
  "parse_response_head (framed [''HTTP/1.1 204 No Content'', ''Connection: close''] @ CRLF) = Inr \<lparr>ph_status = 204, ph_body_length = 0\<rparr>"
proof (rule head_framed)
  show "parse_status_line (framed [''HTTP/1.1 204 No Content'', ''Connection: close''] @ CRLF) = Inr (204, length ''HTTP/1.1 204 No Content'' + 2)"
    using parse_status_line_emitted [of "''204''" "''No Content''" "''Connection: close'' @ CRLF @ CRLF"]
    by (simp add: is_digit_def digits_value_def valid_status_def printable_def)
  show "rfold parse_header_line [''Connection: close''] [] = Inr [(''connection'', ''close'')]"
    by (simp add: connection_header)
qed (simp_all add: line_ok_def connection_close response_body_length_def RESPONSE_MAX_HEADERS_def RESPONSE_MAX_FIELDS_def MAX_STATUS_LINE_def)

lemma parse_205_head:
  "parse_response_head (framed [''HTTP/1.1 205 Reset Content'', ''Content-Length: 0'', ''Connection: close''] @ CRLF) =
     Inr \<lparr>ph_status = 205, ph_body_length = 0\<rparr>"
proof (rule head_framed)
  show "parse_status_line (framed [''HTTP/1.1 205 Reset Content'', ''Content-Length: 0'', ''Connection: close''] @ CRLF) =
      Inr (205, length ''HTTP/1.1 205 Reset Content'' + 2)"
    using parse_status_line_emitted [of "''205''" "''Reset Content''" "''Content-Length: 0'' @ CRLF @ ''Connection: close'' @ CRLF @ CRLF"]
    by (simp add: is_digit_def digits_value_def valid_status_def printable_def)
  show "rfold parse_header_line [''Content-Length: 0'', ''Connection: close''] [] = Inr [(''content-length'', ''0''), (''connection'', ''close'')]"
    using length_header [of "''0''" "[]"] by (simp add: connection_header is_digit_def)
qed (simp_all add: line_ok_def connection_close response_body_length_def RESPONSE_MAX_HEADERS_def RESPONSE_MAX_FIELDS_def MAX_STATUS_LINE_def)

text \<open>
  C13: the response codec round-trips.  Whatever the serialiser emits for a response, the
  parser reads back as the same status and the same body bytes.
\<close>
theorem response_roundtrip:
  assumes "serialize_response r = Inr raw"
  shows "parse_response raw = Inr r"
proof -
  have v: "valid_status (pr_status r)" "length (pr_body r) \<le> RESPONSE_MAX_BODY"
    using assms by (simp_all add: serialize_response_def guards)
  define m where "m = nat (pr_status r)"
  have m: "pr_status r = int m" using v(1) by (simp add: m_def valid_status_def) linarith
  have r: "\<lparr>pr_status = pr_status r, pr_body = pr_body r\<rparr> = r" by simp
  consider "m = 204" | "m = 205" | "m \<noteq> 204" "m \<noteq> 205" by blast
  then show ?thesis
  proof cases
    case 1
    then have raw: "raw = framed [''HTTP/1.1 204 No Content'', ''Connection: close''] @ CRLF @ []" "pr_body r = []"
      using assms m by (auto simp: serialize_response_def guards)
    have "parse_response raw = Inr \<lparr>pr_status = 204, pr_body = []\<rparr>"
      unfolding raw by (rule parse_framed) (simp_all add: parse_204_head parse_205_head line_ok_def MAX_STATUS_LINE_def RESPONSE_MAX_HEADERS_def del: framed_simps, simp)
    with 1 m raw r show ?thesis by simp
  next
    case 2
    then have raw: "raw = framed [''HTTP/1.1 205 Reset Content'', ''Content-Length: 0'', ''Connection: close''] @ CRLF @ []" "pr_body r = []"
      using assms m by (auto simp: serialize_response_def guards)
    have "parse_response raw = Inr \<lparr>pr_status = 205, pr_body = []\<rparr>"
      unfolding raw by (rule parse_framed) (simp_all add: parse_204_head parse_205_head line_ok_def MAX_STATUS_LINE_def RESPONSE_MAX_HEADERS_def del: framed_simps, simp)
    with 2 m raw r show ?thesis by simp
  next
    case 3
    then have raw: "raw = framed (emitted_lines m (length (pr_body r))) @ CRLF @ pr_body r" "pr_body r \<noteq> []"
      using assms m by (auto simp: serialize_response_def emitted_lines_def guards)
    obtain l ls where e: "emitted_lines m (length (pr_body r)) = l # ls" "ls \<noteq> []" by (simp add: emitted_lines_def)
    have "length (framed (emitted_lines m (length (pr_body r)))) + 2 \<le> MAX_STATUS_LINE + RESPONSE_MAX_HEADERS"
      using nat_text_length_le [OF v(2)] status_text [of m] v(1) m
      by (simp add: emitted_lines_def MAX_STATUS_LINE_def RESPONSE_MAX_HEADERS_def)
    then have "parse_response raw = Inr \<lparr>pr_status = int m, pr_body = pr_body r\<rparr>"
      unfolding raw using parse_emitted_head [of m "length (pr_body r)"] emitted_lines_ok [of m "length (pr_body r)"] v m 3 raw(2)
      unfolding e by (intro parse_framed) (simp_all add: e(2))
    then show ?thesis by (simp add: m [symmetric] r)
  qed
qed

theorem response_roundtrip_witness:
  "\<exists>raw. serialize_response \<lparr>pr_status = 200, pr_body = ''{}''\<rparr> = Inr raw \<and>
     parse_response raw = Inr \<lparr>pr_status = 200, pr_body = ''{}''\<rparr>"
proof -
  obtain raw where "serialize_response \<lparr>pr_status = 200, pr_body = ''{}''\<rparr> = Inr raw"
    by (simp add: serialize_response_def valid_status_def RESPONSE_MAX_BODY_def)
  then show ?thesis using response_roundtrip by blast
qed

end
