(* ===== verification/RouteScope.thy ===== *)
theory RouteScope
  imports JsonCodec Services HttpResponse
begin

text \<open>
  The configuration half of the route policy (\<open>forwarder_routes.py\<close>): the operator's venue
  policy and the Receiver's scope manifest, with their canonical documents and digests.

  \<open>sha256\<close> is the hexadecimal digest of the bytes.  The regular expressions of the module
  are fixed shapes and are written as predicates on the whole string.
\<close>

section \<open>Grammars\<close>

abbreviation lower_letters :: string where "lower_letters \<equiv> ''abcdefghijklmnopqrstuvwxyz''"
abbreviation upper_letters :: string where "upper_letters \<equiv> ''ABCDEFGHIJKLMNOPQRSTUVWXYZ''"

definition shape :: "string \<Rightarrow> string \<Rightarrow> nat \<Rightarrow> nat \<Rightarrow> string \<Rightarrow> bool" where
  "shape heads tails lo hi s = (case s of [] \<Rightarrow> False
     | c # cs \<Rightarrow> c \<in> set heads \<and> lo \<le> length cs \<and> length cs \<le> hi \<and> list_all (\<lambda>c. c \<in> set tails) cs)"

definition numeric_id :: "string \<Rightarrow> bool" where
  "numeric_id s = shape ''123456789'' digits 0 17 s"

definition project_key :: "string \<Rightarrow> bool" where
  "project_key s = shape upper_letters (upper_letters @ digits @ ''_'') 1 9 s"

definition issue_key :: "string \<Rightarrow> bool" where
  "issue_key s = (case find_bytes ''-'' s of None \<Rightarrow> False
     | Some i \<Rightarrow> project_key (take i s) \<and> numeric_id (drop (i + 1) s))"

definition status_category_key :: "string \<Rightarrow> bool" where
  "status_category_key s = shape lower_letters (lower_letters @ digits @ ''-'') 0 31 s"

definition search_label :: "string \<Rightarrow> bool" where
  "search_label s = shape (lower_letters @ digits) (lower_letters @ digits @ ''._-'') 0 127 s"

definition valid_tuple :: "nat \<Rightarrow> nat \<Rightarrow> (string \<Rightarrow> bool) \<Rightarrow> string list \<Rightarrow> bool" where
  "valid_tuple min_len max_len item_ok xs \<longleftrightarrow>
     min_len \<le> length xs \<and> length xs \<le> max_len \<and> list_all item_ok xs \<and> sorted_wrt (<) xs"

definition route_id_shape :: "string \<Rightarrow> bool" where
  "route_id_shape s \<longleftrightarrow> list_all (shape lower_letters (lower_letters @ digits @ ''_'') 0 (length s)) (split_bytes ''.'' s)"

section \<open>Bounds and codes\<close>

definition UNMATCHED_ROUTE_ID :: string where "UNMATCHED_ROUTE_ID = ''unmatched''"
definition MAX_ROUTE_ID_LENGTH :: nat where "MAX_ROUTE_ID_LENGTH = 64"
definition JIRA_POLICY_SCHEMA :: string where "JIRA_POLICY_SCHEMA = ''maoi.forwarder.jira-policy.v1''"
definition JIRA_ROUTES_CODE_REVISION :: string where "JIRA_ROUTES_CODE_REVISION = ''maoi.forwarder.jira-routes.v1''"
definition SCOPE_SCHEMA :: string where "SCOPE_SCHEMA = ''maoi.forwarder.scope.v1''"
definition POLICY_DIGEST_TAG :: string where "POLICY_DIGEST_TAG = ''maoi.forwarder.policy.v1''"
definition SCOPE_DIGEST_TAG :: string where "SCOPE_DIGEST_TAG = ''maoi.forwarder.scope.v1''"
definition REQUEST_DIGEST_TAG :: string where "REQUEST_DIGEST_TAG = ''maoi.forwarder.request.v1''"
definition DENIED_DIGEST_TAG :: string where "DENIED_DIGEST_TAG = ''maoi.forwarder.request-denied.v1''"
definition MAX_POLICY_BYTES :: nat where "MAX_POLICY_BYTES = 65536"
definition MAX_MANIFEST_BYTES :: nat where "MAX_MANIFEST_BYTES = 16384"
definition MAX_REQUEST_JSON_BYTES :: nat where "MAX_REQUEST_JSON_BYTES = 262144"
definition MAX_RESPONSE_BYTES :: nat where "MAX_RESPONSE_BYTES = 1048576"
definition MAX_SCOPED_ISSUES :: nat where "MAX_SCOPED_ISSUES = 256"
definition MAX_SEARCH_LABELS :: nat where "MAX_SEARCH_LABELS = 256"
definition MAX_SEARCH_TEMPLATES :: nat where "MAX_SEARCH_TEMPLATES = 8"
definition MAX_TEMPLATE_BYTES :: nat where "MAX_TEMPLATE_BYTES = 8192"
definition MAX_SEARCH_RESULTS :: int where "MAX_SEARCH_RESULTS = 100"
definition MAX_MEDIA_TYPE_CHARS :: nat where "MAX_MEDIA_TYPE_CHARS = 256"

definition JIRA_READABLE_SYSTEM_FIELDS :: "string list" where
  "JIRA_READABLE_SYSTEM_FIELDS = [''created'', ''issuetype'', ''labels'', ''project'', ''resolution'',
     ''resolutiondate'', ''status'', ''summary'', ''updated'']"

definition ROUTE_ERROR_REASONS :: "(string \<times> string) list" where
  "ROUTE_ERROR_REASONS = [(''request_invalid'', ''request_rejected''), (''selector_invalid'', ''request_rejected''),
     (''query_rejected'', ''request_rejected''), (''body_rejected'', ''request_rejected''),
     (''service_unavailable'', ''route_denied''), (''manifest_mismatch'', ''route_denied''), (''route_unknown'', ''route_denied''),
     (''route_not_in_scope'', ''route_denied''), (''selector_out_of_scope'', ''route_denied''),
     (''selector_ambiguous'', ''route_denied''), (''upstream_unbuildable'', ''route_denied'')]"

definition MATCHABLE_ROUTE_IDS :: "string list" where
  "MATCHABLE_ROUTE_IDS = [''jira.issue.get'', ''jira.search'']"

abbreviation TEMPLATE_PLACEHOLDER :: string where "TEMPLATE_PLACEHOLDER \<equiv> ''{label}''"

section \<open>The venue policy\<close>

record venue_fields =
  vp_revision :: string
  vp_project_id :: string
  vp_project_key :: string
  vp_issue_type_id :: string
  vp_issue_fields :: "string list"
  vp_search_fields :: "string list"
  vp_search_templates :: "string list"
  vp_search_max_results :: int
  vp_open_status_category_keys :: "string list"

record venue_policy = venue_fields +
  vp_canonical :: bytes
  vp_digest :: string

definition valid_template :: "string \<Rightarrow> bool" where
  "valid_template text \<longleftrightarrow> list_all printable text \<and> length text \<le> MAX_TEMPLATE_BYTES \<and>
     length (filter (\<lambda>c. c = CHR ''{'') text) = 1 \<and> length (filter (\<lambda>c. c = CHR ''}'') text) = 1 \<and>
     find_bytes (CHR 0x22 # TEMPLATE_PLACEHOLDER @ [CHR 0x22]) text \<noteq> None"

definition valid_field_tuple :: "string list \<Rightarrow> string list \<Rightarrow> bool" where
  "valid_field_tuple required xs \<longleftrightarrow>
     valid_tuple 1 (length JIRA_READABLE_SYSTEM_FIELDS) (\<lambda>x. x \<in> set JIRA_READABLE_SYSTEM_FIELDS) xs \<and> set required \<subseteq> set xs"

definition venue_valid :: "venue_fields \<Rightarrow> bool" where
  "venue_valid f \<longleftrightarrow> safe_id_string (vp_revision f) \<and> numeric_id (vp_project_id f) \<and> numeric_id (vp_issue_type_id f) \<and>
     project_key (vp_project_key f) \<and> valid_field_tuple [''issuetype'', ''project''] (vp_issue_fields f) \<and>
     valid_field_tuple [''issuetype'', ''labels'', ''project'', ''status''] (vp_search_fields f) \<and>
     valid_tuple 1 MAX_SEARCH_TEMPLATES valid_template (vp_search_templates f) \<and>
     1 \<le> vp_search_max_results f \<and> vp_search_max_results f \<le> MAX_SEARCH_RESULTS \<and>
     valid_tuple 1 4 status_category_key (vp_open_status_category_keys f)"

definition jstrs :: "string list \<Rightarrow> json" where
  "jstrs xs = JArr (map JStr xs)"

definition venue_document :: "venue_fields \<Rightarrow> json" where
  "venue_document f = JObj [(''code_revision'', JStr JIRA_ROUTES_CODE_REVISION), (''issue_fields'', jstrs (vp_issue_fields f)),
     (''issue_type_id'', JStr (vp_issue_type_id f)), (''open_status_category_keys'', jstrs (vp_open_status_category_keys f)),
     (''project_id'', JStr (vp_project_id f)), (''project_key'', JStr (vp_project_key f)), (''revision'', JStr (vp_revision f)),
     (''schema'', JStr JIRA_POLICY_SCHEMA), (''search_fields'', jstrs (vp_search_fields f)),
     (''search_max_results'', JInt (vp_search_max_results f)), (''search_templates'', jstrs (vp_search_templates f))]"

definition venue_policy :: "(bytes \<Rightarrow> string) \<Rightarrow> venue_fields \<Rightarrow> venue_policy res" where
  "venue_policy sha256 f =
     rbind (require (venue_valid f) ''policy_invalid'') (\<lambda>_.
     rbind (canonical_json True (venue_document f)) (\<lambda>canonical.
     rbind (require (length canonical \<le> MAX_POLICY_BYTES) ''policy_too_large'') (\<lambda>_.
     rbind (tagged_digest sha256 POLICY_DIGEST_TAG (venue_document f)) (\<lambda>digest.
     Inr (venue_fields.extend f \<lparr>vp_canonical = canonical, vp_digest = digest\<rparr>)))))"

section \<open>The scope manifest\<close>

record scoped_issue =
  si_issue_id :: string
  si_issue_key :: string

record jira_scope =
  js_issues :: "scoped_issue list"
  js_search_labels :: "string list"

record manifest_fields =
  sm_service :: string
  sm_run_id :: string
  sm_attempt_id :: string
  sm_rehearsal_id :: string
  sm_revision :: string
  sm_routes :: "string list"
  sm_policy_digest :: string
  sm_scope :: jira_scope

record scope_manifest = manifest_fields +
  sm_canonical :: bytes
  sm_digest :: string

definition scoped_issue :: "string \<Rightarrow> string \<Rightarrow> scoped_issue res" where
  "scoped_issue issue_id key =
     rbind (require (numeric_id issue_id \<and> issue_key key) ''manifest_invalid'') (\<lambda>_.
     Inr \<lparr>si_issue_id = issue_id, si_issue_key = key\<rparr>)"

definition jira_scope :: "scoped_issue list \<Rightarrow> string list \<Rightarrow> jira_scope res" where
  "jira_scope issues labels =
     rbind (require (length issues \<le> MAX_SCOPED_ISSUES) ''manifest_invalid'') (\<lambda>_.
     rbind (require (distinct (map si_issue_id issues) \<and> distinct (map si_issue_key issues)) ''manifest_invalid'') (\<lambda>_.
     rbind (require (sorted_wrt (<) (map (digits_value \<circ> si_issue_id) issues)) ''manifest_invalid'') (\<lambda>_.
     rbind (require (valid_tuple 0 MAX_SEARCH_LABELS search_label labels) ''manifest_invalid'') (\<lambda>_.
     Inr \<lparr>js_issues = issues, js_search_labels = labels\<rparr>))))"

definition manifest_document :: "manifest_fields \<Rightarrow> json" where
  "manifest_document f = JObj [(''attempt_id'', JStr (sm_attempt_id f)), (''policy_digest'', JStr (sm_policy_digest f)),
     (''rehearsal_id'', JStr (sm_rehearsal_id f)), (''revision'', JStr (sm_revision f)), (''routes'', jstrs (sm_routes f)),
     (''run_id'', JStr (sm_run_id f)), (''schema'', JStr SCOPE_SCHEMA),
     (''scope'', JObj [(''issues'', JArr (map (\<lambda>i. JObj [(''id'', JStr (si_issue_id i)), (''key'', JStr (si_issue_key i))])
         (js_issues (sm_scope f)))), (''search_labels'', jstrs (js_search_labels (sm_scope f)))]),
     (''service'', JStr (sm_service f))]"

definition manifest_valid :: "manifest_fields \<Rightarrow> bool" where
  "manifest_valid f \<longleftrightarrow> sm_service f = ''jira'' \<and>
     list_all safe_id_string [sm_run_id f, sm_attempt_id f, sm_rehearsal_id f, sm_revision f] \<and>
     valid_tuple 1 2 (\<lambda>x. x \<in> set MATCHABLE_ROUTE_IDS) (sm_routes f) \<and> hex64_string (sm_policy_digest f) \<and>
     (js_issues (sm_scope f) \<noteq> []) = (''jira.issue.get'' \<in> set (sm_routes f)) \<and>
     (js_search_labels (sm_scope f) \<noteq> []) = (''jira.search'' \<in> set (sm_routes f))"

definition scope_manifest :: "(bytes \<Rightarrow> string) \<Rightarrow> manifest_fields \<Rightarrow> scope_manifest res" where
  "scope_manifest sha256 f =
     rbind (require (manifest_valid f) ''manifest_invalid'') (\<lambda>_.
     rbind (canonical_json True (manifest_document f)) (\<lambda>canonical.
     rbind (require (length canonical \<le> MAX_MANIFEST_BYTES) ''manifest_too_large'') (\<lambda>_.
     rbind (tagged_digest sha256 SCOPE_DIGEST_TAG (manifest_document f)) (\<lambda>digest.
     Inr (manifest_fields.extend f \<lparr>sm_canonical = canonical, sm_digest = digest\<rparr>)))))"

definition MANIFEST_TOP_KEYS :: "string list" where
  "MANIFEST_TOP_KEYS = [''attempt_id'', ''policy_digest'', ''rehearsal_id'', ''revision'', ''routes'', ''run_id'', ''schema'',
     ''scope'', ''service'']"

definition SCOPE_KEYS :: "string list" where "SCOPE_KEYS = [''issues'', ''search_labels'']"
definition ISSUE_DOC_KEYS :: "string list" where "ISSUE_DOC_KEYS = [''id'', ''key'']"

fun is_jstr :: "json \<Rightarrow> bool" where
  "is_jstr (JStr s) = True"
| "is_jstr _ = False"

fun is_jarr :: "json \<Rightarrow> bool" where
  "is_jarr (JArr xs) = True"
| "is_jarr _ = False"

definition issue_from_document :: "json \<Rightarrow> scoped_issue res" where
  "issue_from_document entry =
     rbind (require (has_keys ISSUE_DOC_KEYS entry) ''manifest_invalid'') (\<lambda>_.
     rbind (require (is_jstr (fld entry ''id'') \<and> is_jstr (fld entry ''key'')) ''manifest_invalid'') (\<lambda>_.
     scoped_issue (jstr (fld entry ''id'')) (jstr (fld entry ''key''))))"

definition manifest_from_document :: "(bytes \<Rightarrow> string) \<Rightarrow> json \<Rightarrow> scope_manifest res" where
  "manifest_from_document sha256 parsed =
     rbind (require (has_keys MANIFEST_TOP_KEYS parsed) ''manifest_invalid'') (\<lambda>_.
     rbind (require (fld parsed ''schema'' = JStr SCOPE_SCHEMA) ''manifest_invalid'') (\<lambda>_.
     let scope_document = fld parsed ''scope''; labels = fld scope_document ''search_labels''; routes = fld parsed ''routes'' in
     rbind (require (has_keys SCOPE_KEYS scope_document) ''manifest_invalid'') (\<lambda>_.
     rbind (require (is_jarr (fld scope_document ''issues'')) ''manifest_invalid'') (\<lambda>_.
     rbind (rseq (map issue_from_document (jarr (fld scope_document ''issues'')))) (\<lambda>issues.
     rbind (require (is_jarr labels \<and> list_all is_jstr (jarr labels)) ''manifest_invalid'') (\<lambda>_.
     rbind (jira_scope issues (map jstr (jarr labels))) (\<lambda>scope.
     rbind (require (is_jarr routes \<and> list_all is_jstr (jarr routes)) ''manifest_invalid'') (\<lambda>_.
     rbind (require (list_all (\<lambda>k. is_jstr (fld parsed k))
       [''service'', ''run_id'', ''attempt_id'', ''rehearsal_id'', ''revision'', ''policy_digest'']) ''manifest_invalid'') (\<lambda>_.
     scope_manifest sha256 \<lparr>sm_service = jstr (fld parsed ''service''), sm_run_id = jstr (fld parsed ''run_id''),
       sm_attempt_id = jstr (fld parsed ''attempt_id''), sm_rehearsal_id = jstr (fld parsed ''rehearsal_id''),
       sm_revision = jstr (fld parsed ''revision''), sm_routes = map jstr (jarr routes),
       sm_policy_digest = jstr (fld parsed ''policy_digest''), sm_scope = scope\<rparr>)))))))))"

definition parse_scope_manifest :: "(bytes \<Rightarrow> string) \<Rightarrow> bytes \<Rightarrow> scope_manifest res" where
  "parse_scope_manifest sha256 data =
     rbind (require (length data \<le> MAX_MANIFEST_BYTES) ''manifest_too_large'') (\<lambda>_.
     case parse_integers data (int MAX_MANIFEST_BYTES) True of
       Inl _ \<Rightarrow> Inl ''manifest_invalid''
     | Inr parsed \<Rightarrow>
         rbind (manifest_from_document sha256 parsed) (\<lambda>manifest.
         rbind (require (sm_canonical manifest = data) ''manifest_invalid'') (\<lambda>_.
         Inr manifest)))"

definition require_manifest_binding :: "scope_manifest \<Rightarrow> string \<Rightarrow> string \<Rightarrow> string \<Rightarrow> string \<Rightarrow> unit res" where
  "require_manifest_binding m service run_id attempt_id scope_digest =
     require (sm_service m = service \<and> sm_run_id m = run_id \<and> sm_attempt_id m = attempt_id \<and>
       hex64_string scope_digest \<and> sm_digest m = scope_digest) ''manifest_binding_mismatch''"

section \<open>Manifests read back\<close>

text \<open>A manifest whose scope went through the constructors.\<close>

definition manifest_built :: "(bytes \<Rightarrow> string) \<Rightarrow> scope_manifest \<Rightarrow> bool" where
  "manifest_built sha256 m \<longleftrightarrow>
     (\<exists>f. scope_manifest sha256 f = Inr m \<and> jira_scope (js_issues (sm_scope f)) (js_search_labels (sm_scope f)) = Inr (sm_scope f) \<and>
        list_all (\<lambda>i. numeric_id (si_issue_id i) \<and> issue_key (si_issue_key i)) (js_issues (sm_scope f)))"

lemma jshape_sorted [sorted_checks]:
  "is_jstr (sort_json v) = is_jstr v" "is_jarr (sort_json v) = is_jarr v" "jarr (sort_json v) = map sort_json (jarr v)"
  by (cases v; simp)+

lemma jstr_comp_sorted [sorted_checks]: "is_jstr \<circ> sort_json = is_jstr" "jstr \<circ> sort_json = jstr"
  by (simp_all add: fun_eq_iff sorted_checks)

lemma issue_from_sorted: "wf_json v \<Longrightarrow> issue_from_document (sort_json v) = issue_from_document v"
  by (simp add: issue_from_document_def sorted_checks)

lemma wf_jarr: "wf_json v \<Longrightarrow> x \<in> set (jarr v) \<Longrightarrow> wf_json x"
  by (cases v) auto

lemma manifest_from_sorted:
  assumes "wf_json v"
  shows "manifest_from_document sha256 (sort_json v) = manifest_from_document sha256 v"
proof -
  have "map (issue_from_document \<circ> sort_json) (jarr (fld (fld v ''scope'') ''issues'')) =
      map issue_from_document (jarr (fld (fld v ''scope'') ''issues''))"
    using wf_jarr [OF wf_fld [OF wf_fld [OF assms]]] by (intro map_cong) (auto intro: issue_from_sorted)
  then show ?thesis
    using assms by (simp add: manifest_from_document_def Let_def wf_fld sorted_checks list.pred_map del: map_eq_conv)
qed

interpretation manifest_codec: canonical_codec "\<lambda>v. rbind (manifest_from_document sha256 v) (\<lambda>_. Inr ())" True MAX_MANIFEST_BYTES
    for sha256
  by unfold_locales (simp_all add: manifest_from_sorted MAX_MANIFEST_BYTES_def MAX_JSON_DOCUMENT_BYTES_def)

lemma wf_manifest_document: "wf_json (manifest_document f)"
  by (auto simp: manifest_document_def jstrs_def)

lemma rseq_Inr: "(\<And>x. x \<in> set xs \<Longrightarrow> f x = Inr (g x)) \<Longrightarrow> rseq (map f xs) = Inr (map g xs)"
  by (induction xs) simp_all

lemma issues_read_back:
  assumes "list_all (\<lambda>i. numeric_id (si_issue_id i) \<and> issue_key (si_issue_key i)) xs"
  shows "rseq (map issue_from_document (map (\<lambda>i. JObj [(''id'', JStr (si_issue_id i)), (''key'', JStr (si_issue_key i))]) xs)) = Inr xs"
proof -
  have "issue_from_document (JObj [(''id'', JStr (si_issue_id i)), (''key'', JStr (si_issue_key i))]) = Inr i" if "i \<in> set xs" for i
    using assms that by (simp add: issue_from_document_def has_keys_def ISSUE_DOC_KEYS_def fld_def scoped_issue_def list_all_iff)
  then show ?thesis using rseq_Inr [of xs _ id] by (simp add: comp_def)
qed

lemma manifest_from_built:
  assumes "jira_scope (js_issues (sm_scope f)) (js_search_labels (sm_scope f)) = Inr (sm_scope f)"
    "list_all (\<lambda>i. numeric_id (si_issue_id i) \<and> issue_key (si_issue_key i)) (js_issues (sm_scope f))"
  shows "manifest_from_document sha256 (manifest_document f) = scope_manifest sha256 f"
  using assms issues_read_back [OF assms(2)]
  by (cases f) (simp add: manifest_from_document_def manifest_document_def has_keys_def fld_def MANIFEST_TOP_KEYS_def SCOPE_KEYS_def
      jstrs_def list_all_iff comp_def)

text \<open>
  C11: the manifest codec round-trips.  The canonical bytes of a manifest built by the
  constructors parse to that manifest, and every manifest the parser returns is bound to the
  bytes it came from: its canonical bytes are the parsed bytes and its digest is the tagged
  hash of them.
\<close>
theorem manifest_roundtrip:
  "(manifest_built sha256 m \<longrightarrow> parse_scope_manifest sha256 (sm_canonical m) = Inr m) \<and>
   (parse_scope_manifest sha256 data = Inr m' \<longrightarrow>
      sm_canonical m' = data \<and> sm_digest m' = sha256 (SCOPE_DIGEST_TAG @ CHR 0x00 # data) \<and> length data \<le> MAX_MANIFEST_BYTES)"
proof (intro conjI impI)
  assume "manifest_built sha256 m"
  then obtain f where f: "scope_manifest sha256 f = Inr m"
      "jira_scope (js_issues (sm_scope f)) (js_search_labels (sm_scope f)) = Inr (sm_scope f)"
      "list_all (\<lambda>i. numeric_id (si_issue_id i) \<and> issue_key (si_issue_key i)) (js_issues (sm_scope f))"
    by (auto simp: manifest_built_def)
  note d = manifest_from_built [OF f(2,3), of sha256]
  have c: "canonical_json True (manifest_document f) = Inr (sm_canonical m)" "length (sm_canonical m) \<le> MAX_MANIFEST_BYTES"
    using f(1) by (auto simp: scope_manifest_def guards manifest_fields.defs)
  have "rbind (manifest_from_document sha256 (manifest_document f)) (\<lambda>_. Inr ()) = Inr ()" by (simp add: d f(1))
  note r = manifest_codec.read_back [OF wf_manifest_document this c]
  show "parse_scope_manifest sha256 (sm_canonical m) = Inr m"
    using r(1) c(2) d f(1) by (simp add: parse_scope_manifest_def manifest_from_sorted [OF wf_manifest_document])
next
  assume p: "parse_scope_manifest sha256 data = Inr m'"
  then obtain v where v: "manifest_from_document sha256 v = Inr m'" "sm_canonical m' = data" "length data \<le> MAX_MANIFEST_BYTES"
    by (auto simp: parse_scope_manifest_def guards split: sum.splits)
  then obtain g where "scope_manifest sha256 g = Inr m'" by (auto simp: manifest_from_document_def Let_def guards)
  then have "sm_digest m' = sha256 (SCOPE_DIGEST_TAG @ CHR 0x00 # sm_canonical m')"
    by (auto simp: scope_manifest_def tagged_digest_def guards manifest_fields.defs split: if_splits)
  with v show "sm_canonical m' = data" "sm_digest m' = sha256 (SCOPE_DIGEST_TAG @ CHR 0x00 # data)" "length data \<le> MAX_MANIFEST_BYTES"
    by simp_all
qed

definition sample_scope :: manifest_fields where
  "sample_scope = \<lparr>sm_service = ''jira'', sm_run_id = ''r'', sm_attempt_id = ''a'', sm_rehearsal_id = ''h'', sm_revision = ''1'',
     sm_routes = [''jira.issue.get''], sm_policy_digest = zero_digest,
     sm_scope = \<lparr>js_issues = [\<lparr>si_issue_id = ''7'', si_issue_key = ''OPS-7''\<rparr>], js_search_labels = []\<rparr>\<rparr>"

lemma sample_scope_valid:
  "manifest_valid sample_scope" "jira_scope (js_issues (sm_scope sample_scope)) (js_search_labels (sm_scope sample_scope)) = Inr (sm_scope sample_scope)"
  "list_all (\<lambda>i. numeric_id (si_issue_id i) \<and> issue_key (si_issue_key i)) (js_issues (sm_scope sample_scope))"
  by code_simp+

lemma sample_scope_canonical:
  "\<exists>raw. canonical_json True (manifest_document sample_scope) = Inr raw \<and> length raw \<le> MAX_MANIFEST_BYTES"
  by (simp add: sample_scope_def manifest_document_def jstrs_def SCOPE_SCHEMA_def zero_digest_def canonical_eval
      MAX_MANIFEST_BYTES_def list_all_replicate bad_characters_printable)

lemma sample_scope_built: "\<exists>m. manifest_built sha256 m \<and> manifest_fields.truncate m = sample_scope"
proof -
  have "tag_pattern SCOPE_DIGEST_TAG" by code_simp
  then obtain m where "scope_manifest sha256 sample_scope = Inr m" "manifest_fields.truncate m = sample_scope"
    using sample_scope_valid(1) sample_scope_canonical
    by (auto simp: scope_manifest_def tagged_digest_def manifest_fields.defs)
  then show ?thesis using sample_scope_valid(2,3) by (auto simp: manifest_built_def)
qed

theorem manifest_roundtrip_witness:
  "\<exists>m. manifest_built (\<lambda>_. zero_digest) m \<and> parse_scope_manifest (\<lambda>_. zero_digest) (sm_canonical m) = Inr m"
  using sample_scope_built [of "\<lambda>_. zero_digest"] manifest_roundtrip by blast

end
