(* ===== verification/RoutePolicy.thy ===== *)
theory RoutePolicy
  imports RouteScope
begin

text \<open>
  Routing and response checks (\<open>forwarder_routes.py\<close>).  A request is matched against the
  scope manifest, the upstream request is rebuilt from manifest and policy values, and the
  response is checked against the same scope.

  A \<open>RoutedRequest\<close> is compared by identity: the model gives each object a serial
  number, and the weak set of issued objects is the list of the objects issued so far.  The
  argument types of \<open>route\<close> are those its first guard demands.
\<close>

section \<open>Requests and results\<close>

record parsed_request =
  rq_service :: string
  rq_method :: string
  rq_path :: string
  rq_query :: "(string \<times> string) list"
  rq_accept :: string
  rq_body :: bytes

record upstream_request =
  up_method :: string
  up_target :: string
  up_accept :: string
  up_content_type :: "string option"
  up_body :: bytes

record route_selection =
  se_issue_id :: "string option"
  se_issue_key :: "string option"
  se_search_label :: "string option"
  se_max_results :: "int option"

record routed_request =
  ro_identity :: nat
  ro_route_id :: string
  ro_service :: string
  ro_scope_digest :: string
  ro_policy_digest :: string
  ro_request_digest :: string
  ro_requires_permit :: bool
  ro_upstream :: upstream_request
  ro_selection :: route_selection

record response_verdict =
  rv_route_id :: string
  rv_receipt_reason :: string
  rv_detail :: string

record route_denial =
  rd_code :: string
  rd_route_id :: string
  rd_receipt_reason :: string
  rd_request_digest :: string

datatype route_error = Raised string | Denied route_denial

record route_policy =
  rp_jira :: "venue_policy option"
  rp_issued :: "routed_request list"

record parser_options =
  po_allowed_query_keys :: "string list"
  po_accept :: string

definition new_route_policy :: "venue_policy option \<Rightarrow> route_policy res" where
  "new_route_policy jira =
     rbind (require ((case jira of Some p \<Rightarrow> length (vp_canonical p) | None \<Rightarrow> 0) \<le> MAX_POLICY_BYTES) ''policy_too_large'') (\<lambda>_.
     Inr \<lparr>rp_jira = jira, rp_issued = []\<rparr>)"

definition check_service :: "string \<Rightarrow> unit res" where
  "check_service service = require (service_known service) ''unknown service''"

definition route_policy_digest :: "route_policy \<Rightarrow> string \<Rightarrow> string option res" where
  "route_policy_digest rp service = rbind (check_service service) (\<lambda>_.
     Inr (if service = ''jira'' then map_option vp_digest (rp_jira rp) else None))"

definition parser_options :: "route_policy \<Rightarrow> string \<Rightarrow> parser_options res" where
  "parser_options rp service = rbind (check_service service) (\<lambda>_.
     Inr (if service = ''jira'' \<and> rp_jira rp \<noteq> None
       then \<lparr>po_allowed_query_keys = [''fields''], po_accept = ''application/json''\<rparr>
       else \<lparr>po_allowed_query_keys = [], po_accept = ''application/json''\<rparr>))"

section \<open>Request digests\<close>

definition valid_route_id :: "string \<Rightarrow> bool" where
  "valid_route_id s \<longleftrightarrow> length s \<le> MAX_ROUTE_ID_LENGTH \<and> route_id_shape s"

definition valid_target :: "string \<Rightarrow> bool" where
  "valid_target t \<longleftrightarrow> list_all printable t \<and> CHR '' '' \<notin> set t \<and> starts_with ''/'' t \<and> CHR ''#'' \<notin> set t \<and> length t \<le> 2048"

definition valid_media_type :: "string \<Rightarrow> bool" where
  "valid_media_type v \<longleftrightarrow> list_all printable v \<and> 1 \<le> length v \<and> length v \<le> MAX_MEDIA_TYPE_CHARS"

definition QUERY_UNRESERVED :: string where
  "QUERY_UNRESERVED = letters @ digits @ ''-._~''"

definition UPPER_HEX :: string where "UPPER_HEX = ''0123456789ABCDEF''"

definition percent_encoded :: "char \<Rightarrow> string" where
  "percent_encoded c = [CHR ''%'', UPPER_HEX ! (of_char c div 16), UPPER_HEX ! (of_char c mod 16)]"

definition encode_query_value :: "string \<Rightarrow> string res" where
  "encode_query_value v =
     rbind (require (list_all printable v) ''digest_input_invalid'') (\<lambda>_.
     Inr (concat (map (\<lambda>c. if c \<in> set QUERY_UNRESERVED then [c] else percent_encoded c) v)))"

definition upstream_valid :: "upstream_request \<Rightarrow> bool" where
  "upstream_valid u \<longleftrightarrow> up_method u \<in> {''GET'', ''POST'', ''PUT''} \<and> valid_target (up_target u) \<and> valid_media_type (up_accept u) \<and>
     length (up_body u) \<le> MAX_REQUEST_JSON_BYTES \<and>
     (case up_content_type u of None \<Rightarrow> True | Some t \<Rightarrow> valid_media_type t) \<and>
     (up_content_type u = None) = (up_body u = []) \<and> \<not> (up_method u = ''GET'' \<and> up_body u \<noteq> [])"

fun jopt :: "string option \<Rightarrow> json" where
  "jopt None = JNull"
| "jopt (Some s) = JStr s"

definition request_digest ::
    "(bytes \<Rightarrow> string) \<Rightarrow> string \<Rightarrow> string \<Rightarrow> string \<Rightarrow> string \<Rightarrow> upstream_request \<Rightarrow> string res" where
  "request_digest sha256 service route_id policy_digest scope_digest u =
     rbind (require (service_known service \<and> valid_route_id route_id \<and> hex64_string policy_digest \<and> hex64_string scope_digest)
       ''digest_input_invalid'') (\<lambda>_.
     rbind (require (upstream_valid u) ''digest_input_invalid'') (\<lambda>_.
     tagged_digest sha256 REQUEST_DIGEST_TAG (JObj [(''v'', JInt 1), (''service'', JStr service), (''route_id'', JStr route_id),
       (''policy_digest'', JStr policy_digest), (''scope_digest'', JStr scope_digest), (''method'', JStr (up_method u)),
       (''target'', JStr (up_target u)), (''accept'', JStr (up_accept u)), (''content_type'', jopt (up_content_type u)),
       (''body_bytes'', JInt (int (length (up_body u)))),
       (''body_sha256'', if up_body u = [] then JNull else JStr (sha256 (up_body u)))])))"

definition denied_request_digest :: "(bytes \<Rightarrow> string) \<Rightarrow> string \<Rightarrow> string \<Rightarrow> string res" where
  "denied_request_digest sha256 service route_id =
     rbind (require (service_known service) ''digest_input_invalid'') (\<lambda>_.
     rbind (require (route_id = UNMATCHED_ROUTE_ID \<or> route_service route_id = Some service) ''digest_input_invalid'') (\<lambda>_.
     tagged_digest sha256 DENIED_DIGEST_TAG
       (JObj [(''v'', JInt 1), (''service'', JStr service), (''route_id'', JStr route_id)])))"

section \<open>Matching\<close>

definition match_route :: "parsed_request \<Rightarrow> (string \<times> string) option" where
  "match_route r =
     (if rq_method r = ''GET'' then
        (case split_bytes ''/'' (rq_path r) of
           [p0, p1, p2, p3, p4, selector] \<Rightarrow>
             if [p0, p1, p2, p3, p4] = ['''', ''rest'', ''api'', ''3'', ''issue''] \<and> selector \<noteq> []
             then Some (''jira.issue.get'', selector) else None
         | _ \<Rightarrow> None)
      else if rq_method r = ''POST'' \<and> rq_path r = ''/rest/api/3/search/jql'' then Some (''jira.search'', [])
      else None)"

definition lookup_issue :: "scope_manifest \<Rightarrow> string \<Rightarrow> scoped_issue option" where
  "lookup_issue m selector =
     List.find (\<lambda>i. selector = si_issue_id i \<or> selector = si_issue_key i) (js_issues (sm_scope m))"

text \<open>A valid template holds the placeholder once, so the split has two parts.\<close>

definition match_template :: "string list \<Rightarrow> string \<Rightarrow> string \<Rightarrow> (string \<times> string) list" where
  "match_template labels jql template = (case split_bytes TEMPLATE_PLACEHOLDER template of
     [prefix, suffix] \<Rightarrow>
       if length jql < length prefix + length suffix then []
       else if \<not> (starts_with prefix jql \<and> ends_with suffix jql) then []
       else let candidate = drop (length prefix) (take (length jql - length suffix) jql) in
         if candidate \<in> set labels then [(template, candidate)] else []
   | _ \<Rightarrow> [])"

definition match_templates :: "string list \<Rightarrow> string list \<Rightarrow> string \<Rightarrow> (string \<times> string) list" where
  "match_templates templates labels jql = concat (map (match_template labels jql) templates)"

definition render_template :: "string \<Rightarrow> string \<Rightarrow> string" where
  "render_template template label = (case split_bytes TEMPLATE_PLACEHOLDER template of
     [prefix, suffix] \<Rightarrow> prefix @ label @ suffix | _ \<Rightarrow> template)"

text \<open>\<open>",".join(xs)\<close>\<close>

abbreviation csv :: "string list \<Rightarrow> string" where "csv xs \<equiv> join_with CHR '','' xs"

definition select_issue_get :: "venue_policy \<Rightarrow> parsed_request \<Rightarrow> scope_manifest \<Rightarrow> string \<Rightarrow> route_selection res" where
  "select_issue_get p r m selector =
     rbind (require (rq_body r = []) ''request_invalid'') (\<lambda>_.
     rbind (require (rq_query r = [] \<or> rq_query r = [(''fields'', csv (vp_issue_fields p))]) ''query_rejected'') (\<lambda>_.
     rbind (require (numeric_id selector \<or> issue_key selector) ''selector_invalid'') (\<lambda>_.
     case lookup_issue m selector of
       None \<Rightarrow> Inl ''selector_out_of_scope''
     | Some i \<Rightarrow> Inr \<lparr>se_issue_id = Some (si_issue_id i), se_issue_key = Some (si_issue_key i), se_search_label = None,
                     se_max_results = None\<rparr>)))"

fun jget :: "json \<Rightarrow> string \<Rightarrow> json option" where
  "jget (JObj kvs) k = map_of kvs k"
| "jget v k = None"

fun jkeys :: "json \<Rightarrow> string list" where
  "jkeys (JObj kvs) = map fst kvs"
| "jkeys v = []"

fun is_jobj :: "json \<Rightarrow> bool" where
  "is_jobj (JObj kvs) = True"
| "is_jobj _ = False"

definition search_body :: "bytes \<Rightarrow> json res" where
  "search_body body = (case parse_integers body (int MAX_REQUEST_JSON_BYTES) False of
     Inl _ \<Rightarrow> Inl ''body_rejected''
   | Inr parsed \<Rightarrow>
       rbind (require (is_jobj parsed \<and> ''jql'' \<in> set (jkeys parsed) \<and> set (jkeys parsed) \<subseteq> {''jql'', ''maxResults'', ''fields''})
         ''body_rejected'') (\<lambda>_.
       rbind (require (is_jstr (fld parsed ''jql'')) ''body_rejected'') (\<lambda>_. Inr parsed)))"

definition search_limit :: "venue_policy \<Rightarrow> json \<Rightarrow> int res" where
  "search_limit p parsed = (case jget parsed ''maxResults'' of
     None \<Rightarrow> Inr (vp_search_max_results p)
   | Some (JInt n) \<Rightarrow> if 1 \<le> n \<and> n \<le> vp_search_max_results p then Inr n else Inl ''body_rejected''
   | Some _ \<Rightarrow> Inl ''body_rejected'')"

definition search_fields_ok :: "venue_policy \<Rightarrow> json \<Rightarrow> bool" where
  "search_fields_ok p parsed = (case jget parsed ''fields'' of
     None \<Rightarrow> True
   | Some given \<Rightarrow> is_jarr given \<and> list_all is_jstr (jarr given) \<and> distinct (map jstr (jarr given)) \<and>
       set (map jstr (jarr given)) = set (vp_search_fields p))"

definition select_search ::
    "venue_policy \<Rightarrow> parsed_request \<Rightarrow> scope_manifest \<Rightarrow> (route_selection \<times> string \<times> int) res" where
  "select_search p r m =
     rbind (require (rq_query r = []) ''query_rejected'') (\<lambda>_.
     rbind (search_body (rq_body r)) (\<lambda>parsed.
     case match_templates (vp_search_templates p) (js_search_labels (sm_scope m)) (jstr (fld parsed ''jql'')) of
       [] \<Rightarrow> Inl ''selector_out_of_scope''
     | [(template, label)] \<Rightarrow>
         rbind (search_limit p parsed) (\<lambda>max_results.
         rbind (require (search_fields_ok p parsed) ''body_rejected'') (\<lambda>_.
         Inr (\<lparr>se_issue_id = None, se_issue_key = None, se_search_label = Some label, se_max_results = Some max_results\<rparr>,
              render_template template label, max_results)))
     | _ \<Rightarrow> Inl ''selector_ambiguous''))"

section \<open>Routing\<close>

definition issue_upstream :: "venue_policy \<Rightarrow> string \<Rightarrow> upstream_request res" where
  "issue_upstream p issue_id =
     rbind (encode_query_value (csv (vp_issue_fields p))) (\<lambda>q.
     Inr \<lparr>up_method = ''GET'', up_target = ''/rest/api/3/issue/'' @ issue_id @ ''?fields='' @ q, up_accept = ''application/json'',
          up_content_type = None, up_body = []\<rparr>)"

definition search_upstream :: "venue_policy \<Rightarrow> string \<Rightarrow> int \<Rightarrow> upstream_request res" where
  "search_upstream p jql max_results =
     rbind (canonical_json False (JObj [(''fields'', jstrs (vp_search_fields p)), (''jql'', JStr jql), (''maxResults'', JInt max_results)])) (\<lambda>body.
     Inr \<lparr>up_method = ''POST'', up_target = ''/rest/api/3/search/jql'', up_accept = ''application/json'',
          up_content_type = Some ''application/json'', up_body = body\<rparr>)"

definition route_checks :: "venue_policy \<Rightarrow> parsed_request \<Rightarrow> scope_manifest \<Rightarrow> (string \<times> string) + (string \<times> string)" where
  "route_checks p r m =
     (if sm_service m \<noteq> rq_service r \<or> sm_policy_digest m \<noteq> vp_digest p \<or>
         list_ex (\<lambda>i. \<not> starts_with (vp_project_key p @ ''-'') (si_issue_key i)) (js_issues (sm_scope m))
      then Inl (''manifest_mismatch'', UNMATCHED_ROUTE_ID)
      else if rq_accept r \<noteq> ''application/json'' then Inl (''request_invalid'', UNMATCHED_ROUTE_ID)
      else case match_route r of
        None \<Rightarrow> Inl (''route_unknown'', UNMATCHED_ROUTE_ID)
      | Some (route_id, selector) \<Rightarrow>
          if route_id \<notin> set (sm_routes m) then Inl (''route_not_in_scope'', route_id) else Inr (route_id, selector))"

definition route_build ::
    "(bytes \<Rightarrow> string) \<Rightarrow> venue_policy \<Rightarrow> parsed_request \<Rightarrow> scope_manifest \<Rightarrow> string \<Rightarrow> string \<Rightarrow>
       (route_selection \<times> upstream_request \<times> string) res" where
  "route_build sha256 p r m route_id selector =
     rbind (if route_id = ''jira.issue.get''
            then rbind (select_issue_get p r m selector) (\<lambda>se. Inr (se, [], 0))
            else select_search p r m) (\<lambda>(se, rendered, max_results).
     case rbind (if route_id = ''jira.issue.get'' then issue_upstream p (case se_issue_id se of Some i \<Rightarrow> i | None \<Rightarrow> [])
                 else search_upstream p rendered max_results) (\<lambda>u.
          rbind (request_digest sha256 (rq_service r) route_id (vp_digest p) (sm_digest m) u) (\<lambda>d. Inr (u, d))) of
       Inl _ \<Rightarrow> Inl ''upstream_unbuildable''
     | Inr (u, d) \<Rightarrow> Inr (se, u, d))"

definition deny_route :: "(bytes \<Rightarrow> string) \<Rightarrow> string \<Rightarrow> string \<Rightarrow> string \<Rightarrow> route_error" where
  "deny_route sha256 service code route_id = (case denied_request_digest sha256 service route_id of
     Inl e \<Rightarrow> Raised e
   | Inr d \<Rightarrow> Denied \<lparr>rd_code = code, rd_route_id = route_id,
       rd_receipt_reason = (case map_of ROUTE_ERROR_REASONS code of Some reason \<Rightarrow> reason | None \<Rightarrow> []), rd_request_digest = d\<rparr>)"

definition route :: "(bytes \<Rightarrow> string) \<Rightarrow> parsed_request \<Rightarrow> scope_manifest \<Rightarrow> route_policy \<Rightarrow>
    route_policy \<times> (route_error + routed_request)" where
  "route sha256 r m rp =
     (if \<not> service_known (rq_service r) then (rp, Inl (Raised ''unknown service''))
      else case rp_jira rp of
        None \<Rightarrow> (rp, Inl (deny_route sha256 (rq_service r) ''service_unavailable'' UNMATCHED_ROUTE_ID))
      | Some p \<Rightarrow>
          if rq_service r \<noteq> ''jira'' then (rp, Inl (deny_route sha256 (rq_service r) ''service_unavailable'' UNMATCHED_ROUTE_ID))
          else case route_checks p r m of
            Inl (code, route_id) \<Rightarrow> (rp, Inl (deny_route sha256 (rq_service r) code route_id))
          | Inr (route_id, selector) \<Rightarrow>
              case route_build sha256 p r m route_id selector of
                Inl code \<Rightarrow> (rp, Inl (deny_route sha256 (rq_service r) code route_id))
              | Inr (se, u, d) \<Rightarrow>
                  let routed = \<lparr>ro_identity = length (rp_issued rp), ro_route_id = route_id, ro_service = rq_service r,
                    ro_scope_digest = sm_digest m, ro_policy_digest = vp_digest p, ro_request_digest = d,
                    ro_requires_permit = False, ro_upstream = u, ro_selection = se\<rparr> in
                  (rp\<lparr>rp_issued := rp_issued rp @ [routed]\<rparr>, Inr routed))"

section \<open>Responses\<close>

definition issue_key_matches :: "string \<Rightarrow> string \<Rightarrow> bool" where
  "issue_key_matches key candidate \<longleftrightarrow> starts_with (key @ ''-'') candidate \<and> numeric_id (drop (length key + 1) candidate)"

fun nested_str :: "json option \<Rightarrow> string list \<Rightarrow> string option" where
  "nested_str document [] = None"
| "nested_str document [k] = (case document of
     Some d \<Rightarrow> (case jget d k of Some (JStr s) \<Rightarrow> Some s | _ \<Rightarrow> None) | None \<Rightarrow> None)"
| "nested_str document (k # ks) = nested_str (case document of Some d \<Rightarrow> jget d k | None \<Rightarrow> None) ks"

definition identity_matches :: "json \<Rightarrow> json \<Rightarrow> venue_policy \<Rightarrow> bool" where
  "identity_matches project issuetype p \<longleftrightarrow> jget project ''id'' = Some (JStr (vp_project_id p)) \<and>
     jget project ''key'' = Some (JStr (vp_project_key p)) \<and> jget issuetype ''id'' = Some (JStr (vp_issue_type_id p))"

definition common_issue_shape :: "json \<Rightarrow> string list \<Rightarrow> (json \<times> json \<times> json) option" where
  "common_issue_shape document allowed =
     (if \<not> is_jobj document then None
      else let ks = set (jkeys document) in
      if \<not> ({''id'', ''key'', ''fields''} \<subseteq> ks \<and> ks \<subseteq> {''expand'', ''id'', ''key'', ''self'', ''fields''}) then None
      else if \<not> is_jstr (fld document ''id'') \<or> \<not> is_jstr (fld document ''key'') then None
      else if list_ex (\<lambda>k. k \<in> ks \<and> \<not> is_jstr (fld document k)) [''self'', ''expand''] then None
      else let doc_fields = fld document ''fields'' in
      if \<not> is_jobj doc_fields \<or> \<not> set (jkeys doc_fields) \<subseteq> set allowed then None
      else case (jget doc_fields ''project'', jget doc_fields ''issuetype'') of
        (Some project, Some issuetype) \<Rightarrow>
          if is_jobj project \<and> is_jobj issuetype then Some (doc_fields, project, issuetype) else None
      | _ \<Rightarrow> None)"

definition check_issue_get_response :: "venue_policy \<Rightarrow> route_selection \<Rightarrow> json \<Rightarrow> string" where
  "check_issue_get_response p se document = (case common_issue_shape document (vp_issue_fields p) of
     None \<Rightarrow> ''schema_invalid''
   | Some (doc_fields, project, issuetype) \<Rightarrow>
       if fld document ''id'' \<noteq> jopt (se_issue_id se) \<or> fld document ''key'' \<noteq> jopt (se_issue_key se) then ''scope_mismatch''
       else if \<not> identity_matches project issuetype p then ''scope_mismatch''
       else ''ok'')"

text \<open>The check of one issue returns its verdict and the identifiers seen so far.\<close>

definition check_search_issue :: "venue_policy \<Rightarrow> route_selection \<Rightarrow> json \<Rightarrow> string list \<Rightarrow> string \<times> string list" where
  "check_search_issue p se issue seen = (case common_issue_shape issue (vp_search_fields p) of
     None \<Rightarrow> (''schema_invalid'', seen)
   | Some (doc_fields, project, issuetype) \<Rightarrow>
       let issue_id = jstr (fld issue ''id''); key = jstr (fld issue ''key'') in
       if \<not> numeric_id issue_id \<or> issue_id \<in> set seen then (''schema_invalid'', seen)
       else let seen = seen @ [issue_id] in
       if \<not> issue_key_matches (vp_project_key p) key then (''schema_invalid'', seen)
       else if \<not> identity_matches project issuetype p then (''scope_mismatch'', seen)
       else case jget doc_fields ''labels'' of
         Some (JArr labels) \<Rightarrow>
           if \<not> list_all is_jstr labels then (''schema_invalid'', seen)
           else if jopt (se_search_label se) \<notin> set labels then (''scope_mismatch'', seen)
           else (case nested_str (Some doc_fields) [''status'', ''statusCategory'', ''key''] of
             None \<Rightarrow> (''schema_invalid'', seen)
           | Some category \<Rightarrow>
               if category \<notin> set (vp_open_status_category_keys p) then (''scope_mismatch'', seen) else (''ok'', seen))
       | _ \<Rightarrow> (''schema_invalid'', seen))"

fun check_search_issues :: "venue_policy \<Rightarrow> route_selection \<Rightarrow> json list \<Rightarrow> string list \<Rightarrow> string" where
  "check_search_issues p se [] seen = ''ok''"
| "check_search_issues p se (i # is) seen = (case check_search_issue p se i seen of
     (detail, seen) \<Rightarrow> if detail \<noteq> ''ok'' then detail else check_search_issues p se is seen)"

fun is_jbool :: "json \<Rightarrow> bool" where
  "is_jbool (JBool b) = True"
| "is_jbool _ = False"

definition check_search_response :: "venue_policy \<Rightarrow> route_selection \<Rightarrow> json \<Rightarrow> string" where
  "check_search_response p se document =
     (if \<not> is_jobj document then ''schema_invalid''
      else let ks = set (jkeys document) in
      if \<not> (''issues'' \<in> ks \<and> ks \<subseteq> {''issues'', ''isLast'', ''nextPageToken'', ''warnings''}) then ''schema_invalid''
      else if ''warnings'' \<in> ks \<and> \<not> is_jarr (fld document ''warnings'') then ''schema_invalid''
      else if ''isLast'' \<in> ks \<and> \<not> is_jbool (fld document ''isLast'') then ''schema_invalid''
      else if ''nextPageToken'' \<in> ks \<and> \<not> is_jstr (fld document ''nextPageToken'') then ''schema_invalid''
      else if \<not> is_jarr (fld document ''issues'') then ''schema_invalid''
      else let issues = jarr (fld document ''issues'') in
      if int (length issues) > (case se_max_results se of Some n \<Rightarrow> n | None \<Rightarrow> 0) then ''count_exceeded''
      else check_search_issues p se issues [])"

text \<open>An object was issued by a policy with a venue, so the last case does not arise.\<close>

definition check_response :: "route_policy \<Rightarrow> routed_request \<Rightarrow> parsed_response \<Rightarrow> response_verdict" where
  "check_response rp routed response =
     (let verdict = (\<lambda>detail. \<lparr>rv_route_id = ro_route_id routed, rv_receipt_reason = ''response_policy_rejected'', rv_detail = detail\<rparr>) in
      if routed \<notin> set (rp_issued rp) then verdict ''routed_unknown''
      else case serialize_response response of
        Inl _ \<Rightarrow> verdict ''response_invalid''
      | Inr _ \<Rightarrow>
          if pr_status response \<noteq> 200 then verdict ''status_not_allowed''
          else case parse_json (pr_body response) (int MAX_RESPONSE_BYTES) True False (int MAX_JSON_STRING_BYTES) of
            Inl _ \<Rightarrow> verdict ''json_invalid''
          | Inr parsed \<Rightarrow>
              let detail = (case rp_jira rp of
                  Some p \<Rightarrow> if ro_route_id routed = ''jira.issue.get'' then check_issue_get_response p (ro_selection routed) parsed
                    else check_search_response p (ro_selection routed) parsed
                | None \<Rightarrow> ''routed_unknown'') in
              if detail \<noteq> ''ok'' then verdict detail
              else \<lparr>rv_route_id = ro_route_id routed, rv_receipt_reason = ''ok'', rv_detail = ''ok''\<rparr>)"

section \<open>What reaches the upstream\<close>

lemma caught_Inr_iff: "(case x of Inl e \<Rightarrow> Inl c | Inr y \<Rightarrow> f y) = Inr z \<longleftrightarrow> (\<exists>y. x = Inr y \<and> f y = Inr z)"
  by (cases x) auto

lemma unique_match_iff:
  "(case xs of [] \<Rightarrow> Inl a | [(t, l)] \<Rightarrow> f t l | _ \<Rightarrow> Inl b) = Inr z \<longleftrightarrow> (\<exists>t l. xs = [(t, l)] \<and> f t l = Inr z)"
  by (auto split: list.splits)

lemma lookup_issue_Some: "lookup_issue m selector = Some i \<Longrightarrow> i \<in> set (js_issues (sm_scope m))"
  by (auto simp: lookup_issue_def find_Some_iff)

lemma match_templates_member:
  assumes "(t, l) \<in> set (match_templates templates labels jql)"
  shows "t \<in> set templates \<and> l \<in> set labels"
proof -
  obtain t' where "t' \<in> set templates" "(t, l) \<in> set (match_template labels jql t')"
    using assms by (auto simp: match_templates_def)
  then show ?thesis by (auto simp: match_template_def Let_def split: list.splits if_splits)
qed

lemma search_limit_bound: "search_limit p v = Inr n \<Longrightarrow> 1 \<le> vp_search_max_results p \<Longrightarrow> 1 \<le> n \<and> n \<le> vp_search_max_results p"
  by (auto simp: search_limit_def split: option.splits json.splits if_splits)

text \<open>The upstream request of each route, as a function of the policy, the manifest and the selection.\<close>

definition issue_selected :: "venue_policy \<Rightarrow> scope_manifest \<Rightarrow> route_selection \<Rightarrow> upstream_request \<Rightarrow> bool" where
  "issue_selected p m se u \<longleftrightarrow>
     (\<exists>i \<in> set (js_issues (sm_scope m)). starts_with (vp_project_key p @ ''-'') (si_issue_key i) \<and>
        se_issue_id se = Some (si_issue_id i) \<and> se_issue_key se = Some (si_issue_key i) \<and> issue_upstream p (si_issue_id i) = Inr u)"

definition search_selected :: "venue_policy \<Rightarrow> scope_manifest \<Rightarrow> route_selection \<Rightarrow> upstream_request \<Rightarrow> bool" where
  "search_selected p m se u \<longleftrightarrow>
     (\<exists>t \<in> set (vp_search_templates p). \<exists>l \<in> set (js_search_labels (sm_scope m)). \<exists>n.
        n \<le> vp_search_max_results p \<and> se_search_label se = Some l \<and> se_max_results se = Some n \<and>
        search_upstream p (render_template t l) n = Inr u)"

lemma select_issue_get_scope:
  assumes "select_issue_get p r m selector = Inr se"
  shows "\<exists>i \<in> set (js_issues (sm_scope m)). se_issue_id se = Some (si_issue_id i) \<and> se_issue_key se = Some (si_issue_key i)"
  using assms lookup_issue_Some by (fastforce simp: select_issue_get_def guards split: option.splits)

lemma select_search_scope:
  assumes "select_search p r m = Inr (se, jql, n)"
  shows "\<exists>t \<in> set (vp_search_templates p). \<exists>l \<in> set (js_search_labels (sm_scope m)).
    jql = render_template t l \<and> n \<le> vp_search_max_results p \<and> se_search_label se = Some l \<and> se_max_results se = Some n"
proof -
  obtain parsed t l where m: "match_templates (vp_search_templates p) (js_search_labels (sm_scope m)) (jstr (fld parsed ''jql'')) = [(t, l)]"
      "search_limit p parsed = Inr n" "jql = render_template t l" "se_search_label se = Some l" "se_max_results se = Some n"
    using assms by (auto simp: select_search_def unique_match_iff guards)
  have "n \<le> vp_search_max_results p"
    using m(2) by (auto simp: search_limit_def split: option.splits json.splits if_splits)
  moreover have "t \<in> set (vp_search_templates p) \<and> l \<in> set (js_search_labels (sm_scope m))"
    by (rule match_templates_member [of t l _ _ "jstr (fld parsed ''jql'')"]) (simp add: m(1))
  ultimately show ?thesis using m by blast
qed

lemma route_build_scope:
  assumes "route_build sha256 p r m route_id selector = Inr (se, u, d)" and "route_id \<in> set MATCHABLE_ROUTE_IDS"
    and k: "\<not> list_ex (\<lambda>i. \<not> starts_with (vp_project_key p @ ''-'') (si_issue_key i)) (js_issues (sm_scope m))"
  shows "(if route_id = ''jira.issue.get'' then issue_selected p m se u else search_selected p m se u) \<and>
    request_digest sha256 (rq_service r) route_id (vp_digest p) (sm_digest m) u = Inr d"
proof (cases "route_id = ''jira.issue.get''")
  case True
  then have "select_issue_get p r m selector = Inr se" "request_digest sha256 (rq_service r) route_id (vp_digest p) (sm_digest m) u = Inr d"
      "issue_upstream p (case se_issue_id se of Some i \<Rightarrow> i | None \<Rightarrow> []) = Inr u"
    using assms(1) by (auto simp: route_build_def caught_Inr_iff guards)
  then show ?thesis
    using select_issue_get_scope [of p r m selector se] True k by (auto simp: issue_selected_def list_ex_iff)
next
  case False
  then obtain jql n where "select_search p r m = Inr (se, jql, n)" "request_digest sha256 (rq_service r) route_id (vp_digest p) (sm_digest m) u = Inr d"
      "search_upstream p jql n = Inr u"
    using assms(1) by (auto simp: route_build_def caught_Inr_iff guards)
  then show ?thesis
    using select_search_scope [of p r m se jql n] False unfolding search_selected_def by auto
qed

text \<open>
  C2: caller bytes never reach the upstream.  A routed request belongs to a route the manifest
  names under the configured policy; its upstream request is the one that policy and manifest
  values alone determine: an issue of the manifest, or a template of the policy rendered with
  a label of the manifest and a result count within the policy's limit.  Its digest is the
  digest of that upstream request, and the object joins the issued ones.
\<close>
theorem route_confined:
  assumes "route sha256 r m rp = (rp', Inr q)"
  shows "\<exists>p. rp_jira rp = Some p \<and> sm_policy_digest m = vp_digest p \<and> ro_route_id q \<in> set (sm_routes m) \<and>
    (if ro_route_id q = ''jira.issue.get'' then issue_selected p m (ro_selection q) (ro_upstream q)
     else ro_route_id q = ''jira.search'' \<and> search_selected p m (ro_selection q) (ro_upstream q)) \<and>
    request_digest sha256 (ro_service q) (ro_route_id q) (vp_digest p) (sm_digest m) (ro_upstream q) = Inr (ro_request_digest q) \<and>
    rp' = rp\<lparr>rp_issued := rp_issued rp @ [q]\<rparr> \<and> ro_identity q = length (rp_issued rp)"
proof -
  obtain p route_id selector se u d where p: "rp_jira rp = Some p" and c: "route_checks p r m = Inr (route_id, selector)"
      and b: "route_build sha256 p r m route_id selector = Inr (se, u, d)"
      and q: "q = \<lparr>ro_identity = length (rp_issued rp), ro_route_id = route_id, ro_service = rq_service r, ro_scope_digest = sm_digest m,
        ro_policy_digest = vp_digest p, ro_request_digest = d, ro_requires_permit = False, ro_upstream = u, ro_selection = se\<rparr>"
      and rp': "rp' = rp\<lparr>rp_issued := rp_issued rp @ [q]\<rparr>"
    using assms by (auto simp: route_def Let_def split: if_splits option.splits sum.splits)
  have m: "route_id \<in> set (sm_routes m)" "sm_policy_digest m = vp_digest p" "match_route r = Some (route_id, selector)"
      "\<not> list_ex (\<lambda>i. \<not> starts_with (vp_project_key p @ ''-'') (si_issue_key i)) (js_issues (sm_scope m))"
    using c by (auto simp: route_checks_def split: if_splits option.splits)
  have "route_id = ''jira.issue.get'' \<or> route_id = ''jira.search''"
    using m(3) by (auto simp: match_route_def split: if_splits list.splits)
  then show ?thesis
    using route_build_scope [OF b _ m(4)] p m q rp' by (auto simp: MATCHABLE_ROUTE_IDS_def)
qed

section \<open>What an accepted response shows\<close>

text \<open>A document about an issue of the policy's project and type.\<close>

definition venue_issue :: "venue_policy \<Rightarrow> string list \<Rightarrow> json \<Rightarrow> bool" where
  "venue_issue p allowed document \<longleftrightarrow>
     (\<exists>project issuetype. set (jkeys (fld document ''fields'')) \<subseteq> set allowed \<and>
        jget (fld document ''fields'') ''project'' = Some project \<and> jget (fld document ''fields'') ''issuetype'' = Some issuetype \<and>
        jget project ''id'' = Some (JStr (vp_project_id p)) \<and> jget project ''key'' = Some (JStr (vp_project_key p)) \<and>
        jget issuetype ''id'' = Some (JStr (vp_issue_type_id p)))"

text \<open>An open issue that carries the label of the search.\<close>

definition search_hit :: "venue_policy \<Rightarrow> route_selection \<Rightarrow> json \<Rightarrow> bool" where
  "search_hit p se issue \<longleftrightarrow> venue_issue p (vp_search_fields p) issue \<and> numeric_id (jstr (fld issue ''id'')) \<and>
     issue_key_matches (vp_project_key p) (jstr (fld issue ''key'')) \<and>
     (\<exists>labels. jget (fld issue ''fields'') ''labels'' = Some (JArr labels) \<and> jopt (se_search_label se) \<in> set labels) \<and>
     (\<exists>category \<in> set (vp_open_status_category_keys p).
        nested_str (Some (fld issue ''fields'')) [''status'', ''statusCategory'', ''key''] = Some category)"

lemma common_issue_shape_Some:
  assumes "common_issue_shape document allowed = Some (fs, project, issuetype)"
  shows "fs = fld document ''fields'' \<and> set (jkeys fs) \<subseteq> set allowed \<and>
    jget fs ''project'' = Some project \<and> jget fs ''issuetype'' = Some issuetype"
  using assms by (auto simp: common_issue_shape_def Let_def split: if_splits option.splits)

lemma check_search_issue_ok:
  assumes "check_search_issue p se issue seen = (''ok'', seen')"
  shows "search_hit p se issue \<and> seen' = seen @ [jstr (fld issue ''id'')] \<and> jstr (fld issue ''id'') \<notin> set seen"
proof -
  obtain fs project issuetype where c: "common_issue_shape issue (vp_search_fields p) = Some (fs, project, issuetype)"
    using assms by (auto simp: check_search_issue_def split: option.splits)
  note f = common_issue_shape_Some [OF c]
  show ?thesis
    using assms c f unfolding check_search_issue_def search_hit_def venue_issue_def identity_matches_def
    by (auto simp: Let_def split: if_splits option.splits json.splits)
qed

lemma check_search_issues_ok:
  "check_search_issues p se is seen = ''ok'' \<Longrightarrow>
     list_all (search_hit p se) is \<and> distinct (map (\<lambda>i. jstr (fld i ''id'')) is) \<and> set (map (\<lambda>i. jstr (fld i ''id'')) is) \<inter> set seen = {}"
proof (induction "is" arbitrary: seen)
  case (Cons i "is")
  obtain d seen' where c: "check_search_issue p se i seen = (d, seen')" by (cases "check_search_issue p se i seen")
  then have d: "d = ''ok''" and r: "check_search_issues p se is seen' = ''ok''" using Cons.prems by (auto split: if_splits)
  show ?case using check_search_issue_ok [OF c [unfolded d]] Cons.IH [OF r] by auto
qed simp

text \<open>
  C8: an accepted response stays in scope.  The verdict is positive only for an object this
  policy issued and a well-formed 200 response whose document is, for an issue read, the
  selected issue of the policy's project and type, and for a search, at most the selected
  number of distinct open issues of that project and type that carry the selected label.
\<close>
theorem response_in_scope:
  assumes "rv_receipt_reason (check_response rp q response) = ''ok''"
  shows "\<exists>p document. rp_jira rp = Some p \<and> q \<in> set (rp_issued rp) \<and> pr_status response = 200 \<and>
    parse_json (pr_body response) (int MAX_RESPONSE_BYTES) True False (int MAX_JSON_STRING_BYTES) = Inr document \<and>
    (if ro_route_id q = ''jira.issue.get''
     then venue_issue p (vp_issue_fields p) document \<and> fld document ''id'' = jopt (se_issue_id (ro_selection q)) \<and>
       fld document ''key'' = jopt (se_issue_key (ro_selection q))
     else list_all (search_hit p (ro_selection q)) (jarr (fld document ''issues'')) \<and>
       distinct (map (\<lambda>i. jstr (fld i ''id'')) (jarr (fld document ''issues''))) \<and>
       int (length (jarr (fld document ''issues''))) \<le> (case se_max_results (ro_selection q) of Some n \<Rightarrow> n | None \<Rightarrow> 0))"
proof -
  obtain p document where p: "rp_jira rp = Some p" "q \<in> set (rp_issued rp)" "pr_status response = 200"
      "parse_json (pr_body response) (int MAX_RESPONSE_BYTES) True False (int MAX_JSON_STRING_BYTES) = Inr document"
    and d: "(if ro_route_id q = ''jira.issue.get'' then check_issue_get_response p (ro_selection q) document
       else check_search_response p (ro_selection q) document) = ''ok''"
    using assms unfolding check_response_def Let_def
    by (auto split: if_splits sum.splits option.splits)
  show ?thesis
  proof (cases "ro_route_id q = ''jira.issue.get''")
    case True
    then obtain fs project issuetype where c: "common_issue_shape document (vp_issue_fields p) = Some (fs, project, issuetype)"
        "fld document ''id'' = jopt (se_issue_id (ro_selection q))" "fld document ''key'' = jopt (se_issue_key (ro_selection q))"
        "identity_matches project issuetype p"
      using d by (auto simp: check_issue_get_response_def split: option.splits if_splits)
    then have "venue_issue p (vp_issue_fields p) document"
      using common_issue_shape_Some [OF c(1)] by (auto simp: venue_issue_def identity_matches_def)
    then show ?thesis using p c True by auto
  next
    case False
    then have "check_search_issues p (ro_selection q) (jarr (fld document ''issues'')) [] = ''ok''"
        "int (length (jarr (fld document ''issues''))) \<le> (case se_max_results (ro_selection q) of Some n \<Rightarrow> n | None \<Rightarrow> 0)"
      using d by (auto simp: check_search_response_def Let_def split: if_splits)
    then show ?thesis using p False check_search_issues_ok [of p "ro_selection q" "jarr (fld document ''issues'')" "[]"] by auto
  qed
qed

end
