(* ===== verification/RouteLive.thy ===== *)
theory RouteLive
  imports RoutePolicy
begin

text \<open>
  Routing always completes: with a venue policy and a manifest that went through their
  constructors, the upstream request and its digest of an in-scope selection can always be
  built.
\<close>

section \<open>Bounds of the configured values\<close>

lemma readable_fields: "list_all (\<lambda>x. list_all printable x \<and> length x \<le> 14) JIRA_READABLE_SYSTEM_FIELDS"
  by code_simp

lemma field_tuple_bounds:
  assumes "valid_field_tuple required xs"
  shows "length xs \<le> 9" "\<And>x. x \<in> set xs \<Longrightarrow> list_all printable x \<and> length x \<le> 14"
proof -
  have "length JIRA_READABLE_SYSTEM_FIELDS = 9" by code_simp
  then show "length xs \<le> 9" using assms by (simp add: valid_field_tuple_def valid_tuple_def)
  show "list_all printable x \<and> length x \<le> 14" if "x \<in> set xs" for x
    using assms readable_fields that unfolding valid_field_tuple_def valid_tuple_def list_all_iff by blast
qed

lemma sum_list_bound: "(\<And>x. x \<in> set xs \<Longrightarrow> f x \<le> (k :: nat)) \<Longrightarrow> length xs \<le> n \<Longrightarrow> sum_list (map f xs) \<le> n * k"
proof -
  assume b: "\<And>x. x \<in> set xs \<Longrightarrow> f x \<le> k" and n: "length xs \<le> n"
  have "sum_list (map f xs) \<le> length xs * k" using b by (induction xs) (auto simp: add_mono)
  also have "\<dots> \<le> n * k" using n by simp
  finally show ?thesis .
qed

lemma csv_bounds:
  assumes "valid_field_tuple required xs"
  shows "list_all printable (csv xs)" "length (csv xs) \<le> 134"
proof -
  note b = field_tuple_bounds [OF assms]
  show "list_all printable (csv xs)" using b(2) by (intro printable_join) blast
  have "sum_list (map length xs) \<le> 9 * 14" using b by (intro sum_list_bound) blast+
  then show "length (csv xs) \<le> 134" using b(1) by (simp add: length_join_with)
qed

lemma shape_bounds:
  assumes "shape heads tails lo hi s" "list_all printable (heads @ tails)"
  shows "list_all printable s" "length s \<le> Suc hi" "s \<noteq> []"
  using assms by (auto simp: shape_def list_all_iff split: list.splits)

lemma numeric_id_bounds:
  assumes "numeric_id s"
  shows "list_all is_digit s" "length s \<le> 18"
proof -
  have d: "list_all is_digit ''123456789''" "list_all is_digit digits" by code_simp+
  obtain c cs where s: "s = c # cs" "c \<in> set ''123456789''" "length cs \<le> 17" "list_all (\<lambda>c. c \<in> set digits) cs"
    using assms unfolding numeric_id_def shape_def by (cases s) (simp_all del: list.set)
  have "is_digit c" using d(1) s(2) unfolding list_all_iff by blast
  moreover have "list_all is_digit cs" using d(2) s(4) unfolding list_all_iff by blast
  ultimately show "list_all is_digit s" by (simp add: s(1))
  show "length s \<le> 18" using s(3) by (simp add: s(1))
qed

lemma search_label_bounds:
  assumes "search_label s"
  shows "list_all printable s" "length s \<le> 128"
proof -
  have "list_all printable ((lower_letters @ digits) @ lower_letters @ digits @ ''._-'')" by code_simp
  then show "list_all printable s" "length s \<le> 128"
    using shape_bounds [OF assms [unfolded search_label_def]] by simp_all
qed

section \<open>The issue request\<close>

definition target_char :: "char \<Rightarrow> bool" where
  "target_char c \<longleftrightarrow> printable c \<and> c \<noteq> CHR '' '' \<and> c \<noteq> CHR ''#''"

lemma percent_target: "list_all target_char (percent_encoded c)"
proof -
  have h: "list_all target_char UPPER_HEX" "length UPPER_HEX = 16" "target_char CHR ''%''" by code_simp+
  have "of_char c < (256 :: nat)" by simp
  then have "of_char c div 16 < (16 :: nat)" "of_char c mod 16 < (16 :: nat)" by linarith+
  then have "target_char (UPPER_HEX ! (of_char c div 16))" "target_char (UPPER_HEX ! (of_char c mod 16))"
    using h(1,2) unfolding list_all_length by simp_all
  then show ?thesis using h(3) by (simp add: percent_encoded_def)
qed

lemma encoded_query:
  assumes "list_all printable v"
  obtains q where "encode_query_value v = Inr q" "list_all target_char q" "length q \<le> 3 * length v"
proof -
  define e where "e = (\<lambda>c. if c \<in> set QUERY_UNRESERVED then [c] else percent_encoded c)"
  have "list_all target_char QUERY_UNRESERVED" by code_simp
  then have t: "list_all target_char (e c)" for c
    using percent_target [of c] by (simp add: e_def list_all_iff)
  have n: "length (e c) \<le> 3" for c by (simp add: e_def percent_encoded_def)
  have "list_all target_char (concat (map e v))" using t by (induction v) simp_all
  moreover have "length (concat (map e v)) \<le> 3 * length v"
  proof (induction v)
    case (Cons c v)
    then show ?case using n [of c] by simp
  qed simp
  moreover have "encode_query_value v = Inr (concat (map e v))" using assms by (simp add: encode_query_value_def e_def)
  ultimately show ?thesis by (rule that [rotated])
qed

lemma digits_target: "list_all is_digit s \<Longrightarrow> list_all target_char s"
proof -
  have "list_all target_char digits" by code_simp
  then show "list_all is_digit s \<Longrightarrow> list_all target_char s" unfolding list_all_iff is_digit_def by blast
qed

lemma target_valid:
  assumes "list_all target_char s" "length s \<le> 2047"
  shows "valid_target (CHR ''/'' # s)"
proof -
  have "target_char CHR ''/''" by code_simp
  with assms show ?thesis by (auto simp: valid_target_def target_char_def starts_with_def list_all_iff)
qed

lemma issue_upstream_built:
  assumes f: "valid_field_tuple required (vp_issue_fields p)" and i: "numeric_id issue_id"
  obtains u where "issue_upstream p issue_id = Inr u" "upstream_valid u"
proof -
  obtain q where q: "encode_query_value (csv (vp_issue_fields p)) = Inr q" "list_all target_char q"
      "length q \<le> 3 * length (csv (vp_issue_fields p))"
    by (rule encoded_query [OF csv_bounds(1) [OF f]])
  have n: "length q \<le> 402" using q(3) csv_bounds(2) [OF f] by linarith
  have "list_all target_char ''rest/api/3/issue/''" "list_all target_char ''?fields=''" by code_simp+
  then have "valid_target (CHR ''/'' # ''rest/api/3/issue/'' @ issue_id @ ''?fields='' @ q)"
    using q(2) n numeric_id_bounds [OF i] digits_target [of issue_id] by (intro target_valid) simp_all
  moreover have "valid_media_type ''application/json''" by code_simp
  ultimately show ?thesis
    using q(1) by (intro that [of "\<lparr>up_method = ''GET'', up_target = ''/rest/api/3/issue/'' @ issue_id @ ''?fields='' @ q,
      up_accept = ''application/json'', up_content_type = None, up_body = []\<rparr>"]) (simp_all add: issue_upstream_def upstream_valid_def MAX_REQUEST_JSON_BYTES_def)
qed

section \<open>The search request\<close>

lemma find_bytes_Some: "find_bytes pat s = Some i \<Longrightarrow> s = take i s @ pat @ drop (i + length pat) s"
proof (induction pat s arbitrary: i rule: find_bytes.induct)
  case (2 pat c s)
  show ?case
  proof (cases "starts_with pat (c # s)")
    case True
    then have "i = 0" "take (length pat) (c # s) = pat" using 2 by (simp_all add: starts_with_def)
    then show ?thesis by (metis add.left_neutral append_take_drop_id append.left_neutral take0)
  next
    case False
    then obtain j where "find_bytes pat s = Some j" "i = Suc j" using 2 by auto
    then show ?thesis using 2 False by simp
  qed
qed (auto split: if_splits)

lemma split_two: "split_bytes pat s = [a, b] \<Longrightarrow> s = a @ pat @ b"
proof -
  assume s: "split_bytes pat s = [a, b]"
  then obtain i where i: "find_bytes pat s = Some i" "a = take i s" "split_bytes pat (drop (i + length pat) s) = [b]"
    by (subst (asm) split_bytes.simps) (auto split: if_splits option.splits)
  have "b = drop (i + length pat) s"
    using i(3) by (subst (asm) split_bytes.simps) (auto split: if_splits option.splits simp: split_bytes.simps)
  then show "s = a @ pat @ b" using find_bytes_Some [OF i(1)] i(2) by simp
qed

lemma rendered_bounds:
  assumes "valid_template t" "search_label l"
  shows "list_all printable (render_template t l)" "length (render_template t l) \<le> 8320"
proof -
  have t: "list_all printable t" "length t \<le> 8192" using assms(1) by (simp_all add: valid_template_def MAX_TEMPLATE_BYTES_def)
  note l = search_label_bounds [OF assms(2)]
  have "list_all printable (render_template t l) \<and> length (render_template t l) \<le> 8320"
  proof (cases "\<exists>a b. split_bytes TEMPLATE_PLACEHOLDER t = [a, b]")
    case True
    then obtain a b where "split_bytes TEMPLATE_PLACEHOLDER t = [a, b]" by blast
    then show ?thesis using split_two [of TEMPLATE_PLACEHOLDER t a b] t l by (simp add: render_template_def)
  next
    case False
    then have "render_template t l = t" by (auto simp: render_template_def split: list.splits)
    then show ?thesis using t by simp
  qed
  then show "list_all printable (render_template t l)" "length (render_template t l) \<le> 8320" by simp_all
qed

lemma search_upstream_built:
  assumes f: "valid_field_tuple required (vp_search_fields p)" and q: "list_all printable jql" "length jql \<le> 8320"
    and n: "1 \<le> n" "n \<le> 100"
  obtains u where "search_upstream p jql n = Inr u" "upstream_valid u"
proof -
  note b = field_tuple_bounds [OF f]
  let ?d = "JObj [(''fields'', jstrs (vp_search_fields p)), (''jql'', JStr jql), (''maxResults'', JInt n)]"
  have k: "check_string False MAX_JSON_STRING_BYTES ''fields'' = Inr ()" "check_string False MAX_JSON_STRING_BYTES ''jql'' = Inr ()"
    "check_string False MAX_JSON_STRING_BYTES ''maxResults'' = Inr ()"
    by (simp_all add: check_string_def MAX_JSON_STRING_BYTES_def)
  have "check_string False MAX_JSON_STRING_BYTES x = Inr ()" if "x \<in> set (vp_search_fields p)" for x
    using b(2) [OF that] by (intro check_string_fits) (simp_all add: MAX_JSON_STRING_BYTES_def)
  moreover have "check_string False MAX_JSON_STRING_BYTES jql = Inr ()"
    using q by (intro check_string_fits) (simp_all add: MAX_JSON_STRING_BYTES_def)
  ultimately have "acceptable False 1 ?d"
    using k b(1) n by (simp add: jstrs_def list_all_iff MAX_JSON_DEPTH_def MAX_JSON_ARRAY_ITEMS_def MAX_SAFE_INTEGER_def)
  then obtain raw where raw: "canonical_json False ?d = Inr raw" "length raw \<le> json_size ?d" by (rule acceptable_canonical)
  have "sum_list (map (\<lambda>x. json_size (JStr x) + 1) (vp_search_fields p)) \<le> 9 * (6 * 14 + 3)"
    using b by (intro sum_list_bound) auto
  then have "json_size ?d \<le> 60000" using q(2) by (simp add: jstrs_def comp_def)
  then have "length raw \<le> MAX_REQUEST_JSON_BYTES" using raw(2) by (simp add: MAX_REQUEST_JSON_BYTES_def)
  moreover have "raw \<noteq> []" using raw(1) by (auto simp: canonical_json_def canonicalize_JObj simp del: canonicalize.simps)
  moreover have "valid_media_type ''application/json''" "valid_target ''/rest/api/3/search/jql''" by code_simp+
  ultimately show ?thesis
    using raw(1) by (intro that [of "\<lparr>up_method = ''POST'', up_target = ''/rest/api/3/search/jql'', up_accept = ''application/json'',
      up_content_type = Some ''application/json'', up_body = raw\<rparr>"]) (simp_all add: search_upstream_def upstream_valid_def)
qed

section \<open>The digest\<close>

lemma hex64_bounds: "hex64_string s \<Longrightarrow> list_all printable s \<and> length s = 64"
  by (auto simp: hex64_string_def list_all_iff hex_printable)

lemma request_digest_built:
  assumes u: "upstream_valid u" and r: "route_id \<in> set MATCHABLE_ROUTE_IDS" and h: "hex64_string pd" "hex64_string sd"
    and sha: "\<And>s. hex64_string (sha256 s)"
  shows "\<exists>d. request_digest sha256 ''jira'' route_id pd sd u = Inr d"
proof -
  let ?d = "JObj [(''v'', JInt 1), (''service'', JStr ''jira''), (''route_id'', JStr route_id), (''policy_digest'', JStr pd),
    (''scope_digest'', JStr sd), (''method'', JStr (up_method u)), (''target'', JStr (up_target u)), (''accept'', JStr (up_accept u)),
    (''content_type'', jopt (up_content_type u)), (''body_bytes'', JInt (int (length (up_body u)))),
    (''body_sha256'', if up_body u = [] then JNull else JStr (sha256 (up_body u)))]"
  have c: "check_string True MAX_JSON_STRING_BYTES s = Inr ()" if "list_all printable s" "length s \<le> 2048" for s
    using that by (intro check_string_fits) (simp_all add: MAX_JSON_STRING_BYTES_def)
  have rid: "route_id = ''jira.issue.get'' \<or> route_id = ''jira.search''" using r by (simp add: MATCHABLE_ROUTE_IDS_def)
  have p: "list_all (\<lambda>k. list_all printable k \<and> length k \<le> 2048) [''v'', ''service'', ''route_id'', ''policy_digest'', ''scope_digest'',
      ''method'', ''target'', ''accept'', ''content_type'', ''body_bytes'', ''body_sha256'', ''jira'', ''jira.issue.get'', ''jira.search'',
      ''GET'', ''POST'', ''PUT'']" by (simp add: printable_def)
  have t: "list_all printable (up_target u)" "length (up_target u) \<le> 2048" using u by (simp_all add: upstream_valid_def valid_target_def)
  have a: "list_all printable (up_accept u)" "length (up_accept u) \<le> 2048"
    using u by (simp_all add: upstream_valid_def valid_media_type_def MAX_MEDIA_TYPE_CHARS_def)
  have ct: "acceptable True 2 (jopt (up_content_type u))"
    using u c by (cases "up_content_type u") (auto simp: upstream_valid_def valid_media_type_def MAX_MEDIA_TYPE_CHARS_def)
  have m: "check_string True MAX_JSON_STRING_BYTES (up_method u) = Inr ()"
    using u p by (auto simp: upstream_valid_def intro!: c)
  have "acceptable True 1 ?d"
    using p rid t a ct m c hex64_bounds [OF h(1)] hex64_bounds [OF h(2)] hex64_bounds [OF sha [of "up_body u"]] u
    by (auto simp: MAX_JSON_DEPTH_def MAX_SAFE_INTEGER_def upstream_valid_def MAX_REQUEST_JSON_BYTES_def numeral_2_eq_2)
  then obtain raw where "canonical_json True ?d = Inr raw" by (rule acceptable_canonical)
  moreover have "tag_pattern REQUEST_DIGEST_TAG" by code_simp
  moreover have "valid_route_id route_id" using rid by (elim disjE) (simp, code_simp)+
  ultimately show ?thesis using u h by (simp add: request_digest_def tagged_digest_def)
qed

section \<open>Routing completes\<close>

lemma built_policy:
  assumes "venue_policy sha256 f = Inr p" "\<And>s. hex64_string (sha256 s)"
  shows "hex64_string (vp_digest p)" "valid_field_tuple [''issuetype'', ''project''] (vp_issue_fields p)"
    "valid_field_tuple [''issuetype'', ''labels'', ''project'', ''status''] (vp_search_fields p)"
    "list_all valid_template (vp_search_templates p)" "1 \<le> vp_search_max_results p" "vp_search_max_results p \<le> 100"
  using assms by (auto simp: venue_policy_def tagged_digest_def venue_valid_def valid_tuple_def guards venue_fields.defs
      MAX_SEARCH_RESULTS_def split: if_splits)

lemma built_manifest:
  assumes "manifest_built sha256 m" "\<And>s. hex64_string (sha256 s)"
  shows "hex64_string (sm_digest m)" "list_all (\<lambda>i. numeric_id (si_issue_id i)) (js_issues (sm_scope m))"
    "list_all search_label (js_search_labels (sm_scope m))"
proof -
  obtain f where f: "scope_manifest sha256 f = Inr m" "jira_scope (js_issues (sm_scope f)) (js_search_labels (sm_scope f)) = Inr (sm_scope f)"
      "list_all (\<lambda>i. numeric_id (si_issue_id i) \<and> issue_key (si_issue_key i)) (js_issues (sm_scope f))"
    using assms(1) by (auto simp: manifest_built_def)
  have "sm_scope m = sm_scope f" "hex64_string (sm_digest m)"
    using f(1) assms(2) by (auto simp: scope_manifest_def tagged_digest_def guards manifest_fields.defs split: if_splits)
  moreover have "list_all search_label (js_search_labels (sm_scope f))"
    using f(2) by (auto simp: jira_scope_def valid_tuple_def guards)
  ultimately show "hex64_string (sm_digest m)" "list_all (\<lambda>i. numeric_id (si_issue_id i)) (js_issues (sm_scope m))"
    "list_all search_label (js_search_labels (sm_scope m))"
    using f(3) by (auto simp: list_all_iff)
qed

lemma upstream_built:
  assumes p: "venue_policy sha256 f = Inr p" and m: "manifest_built sha256 m" and sha: "\<And>s. hex64_string (sha256 s)"
    and r: "route_id \<in> set MATCHABLE_ROUTE_IDS" "rq_service r = ''jira''"
    and sel: "if route_id = ''jira.issue.get'' then \<exists>se. select_issue_get p r m selector = Inr se else \<exists>x. select_search p r m = Inr x"
  shows "\<exists>x. route_build sha256 p r m route_id selector = Inr x"
proof -
  note vp = built_policy [OF p sha] and sm = built_manifest [OF m sha]
  have d: "\<exists>d. request_digest sha256 ''jira'' route_id (vp_digest p) (sm_digest m) u = Inr d" if "upstream_valid u" for u
    by (rule request_digest_built [OF that r(1) vp(1) sm(1) sha])
  show ?thesis
  proof (cases "route_id = ''jira.issue.get''")
    case True
    then obtain se where se: "select_issue_get p r m selector = Inr se" using sel by auto
    then obtain i where i: "i \<in> set (js_issues (sm_scope m))" "se_issue_id se = Some (si_issue_id i)"
      using select_issue_get_scope by blast
    then have "numeric_id (si_issue_id i)" using sm(2) by (auto simp: list_all_iff)
    then obtain u where "issue_upstream p (si_issue_id i) = Inr u" "upstream_valid u" by (rule issue_upstream_built [OF vp(2)])
    then show ?thesis using d [of u] se i True r(2) by (auto simp: route_build_def)
  next
    case False
    then obtain se jql n where se: "select_search p r m = Inr (se, jql, n)" using sel by auto
    then obtain t l where t: "t \<in> set (vp_search_templates p)" "l \<in> set (js_search_labels (sm_scope m))" "jql = render_template t l"
      using select_search_scope by blast
    have "valid_template t" "search_label l" using t vp(4) sm(3) by (auto simp: list_all_iff)
    note q = rendered_bounds [OF this]
    have "1 \<le> n \<and> n \<le> vp_search_max_results p"
      using se vp(5) by (auto simp: select_search_def unique_match_iff guards dest: search_limit_bound)
    then obtain u where "search_upstream p jql n = Inr u" "upstream_valid u"
      using search_upstream_built [OF vp(3) q, of n] vp(6) t(3) by auto
    then show ?thesis using d [of u] se False r(2) by (auto simp: route_build_def)
  qed
qed

text \<open>
  C12: an in-scope request is always routed.  With a policy and a manifest built by their
  constructors and a hash whose text is 64 hexadecimal digits, a request that passes the
  checks and whose selection is in scope gets a routed request: rebuilding the upstream
  request and hashing it cannot fail, so the denial the code keeps for that case is never
  used.
\<close>
theorem route_live:
  assumes "venue_policy sha256 f = Inr p" "rp_jira rp = Some p" "manifest_built sha256 m" "\<And>s. hex64_string (sha256 s)"
    and "rq_service r = ''jira''" "route_checks p r m = Inr (route_id, selector)"
    and "if route_id = ''jira.issue.get'' then \<exists>se. select_issue_get p r m selector = Inr se else \<exists>x. select_search p r m = Inr x"
  shows "\<exists>rp' q. route sha256 r m rp = (rp', Inr q)"
proof -
  have "match_route r = Some (route_id, selector)"
    using assms(6) by (auto simp: route_checks_def split: if_splits option.splits)
  then have "route_id \<in> set MATCHABLE_ROUTE_IDS"
    by (auto simp: match_route_def MATCHABLE_ROUTE_IDS_def split: if_splits list.splits)
  then obtain x where "route_build sha256 p r m route_id selector = Inr x"
    using upstream_built [OF assms(1,3,4) _ assms(5,7)] by blast
  then show ?thesis using assms(2,5,6) by (cases x) (simp add: route_def Let_def)
qed

section \<open>A routed issue read\<close>

definition sample_venue :: venue_fields where
  \<open>sample_venue = \<lparr>vp_revision = ''1'', vp_project_id = ''1'', vp_project_key = ''OPS'', vp_issue_type_id = ''3'',
     vp_issue_fields = [''issuetype'', ''project''], vp_search_fields = [''issuetype'', ''labels'', ''project'', ''status''],
     vp_search_templates = [''labels = "{label}"''], vp_search_max_results = 5, vp_open_status_category_keys = [''new'']\<rparr>\<close>

definition sample_request :: parsed_request where
  "sample_request = \<lparr>rq_service = ''jira'', rq_method = ''GET'', rq_path = ''/rest/api/3/issue/OPS-7'', rq_query = [],
     rq_accept = ''application/json'', rq_body = []\<rparr>"

lemma sample_venue_built: "\<exists>p. venue_policy (\<lambda>_. zero_digest) sample_venue = Inr p \<and> venue_fields.truncate p = sample_venue \<and> vp_digest p = zero_digest"
proof -
  have "venue_valid sample_venue" "tag_pattern POLICY_DIGEST_TAG" by code_simp+
  moreover have "\<exists>raw. canonical_json True (venue_document sample_venue) = Inr raw \<and> length raw \<le> MAX_POLICY_BYTES"
    by (simp add: sample_venue_def venue_document_def jstrs_def JIRA_ROUTES_CODE_REVISION_def JIRA_POLICY_SCHEMA_def canonical_eval
        MAX_POLICY_BYTES_def)
  ultimately show ?thesis by (auto simp: venue_policy_def tagged_digest_def venue_fields.defs)
qed

lemma sample_checks:
  assumes p: "venue_fields.truncate p = sample_venue" "vp_digest p = zero_digest" and m: "manifest_fields.truncate m = sample_scope"
  shows "route_checks p sample_request m = Inr (''jira.issue.get'', ''OPS-7'')"
    "select_issue_get p sample_request m ''OPS-7'' =
      Inr \<lparr>se_issue_id = Some ''7'', se_issue_key = Some ''OPS-7'', se_search_label = None, se_max_results = None\<rparr>"
proof -
  have "vp_project_key p = ''OPS''"
    using arg_cong [OF p(1), of vp_project_key] by (simp add: sample_venue_def venue_fields.defs)
  moreover have "sm_service m = ''jira''" "sm_policy_digest m = zero_digest" "sm_routes m = [''jira.issue.get'']"
      "js_issues (sm_scope m) = [\<lparr>si_issue_id = ''7'', si_issue_key = ''OPS-7''\<rparr>]"
    using arg_cong [OF m, of sm_service] arg_cong [OF m, of sm_policy_digest] arg_cong [OF m, of sm_routes] arg_cong [OF m, of sm_scope]
    by (simp_all add: sample_scope_def manifest_fields.defs)
  moreover have "match_route sample_request = Some (''jira.issue.get'', ''OPS-7'')" "issue_key ''OPS-7''" "starts_with ''OPS-'' ''OPS-7''"
    by code_simp+
  ultimately show "route_checks p sample_request m = Inr (''jira.issue.get'', ''OPS-7'')"
    "select_issue_get p sample_request m ''OPS-7'' =
      Inr \<lparr>se_issue_id = Some ''7'', se_issue_key = Some ''OPS-7'', se_search_label = None, se_max_results = None\<rparr>"
    using p(2) by (simp_all add: route_checks_def select_issue_get_def lookup_issue_def sample_request_def)
qed

lemma zero_digest_hex: "hex64_string zero_digest"
  by code_simp

lemma sample_routed:
  obtains p m q where "venue_fields.truncate p = sample_venue"
    "route (\<lambda>_. zero_digest) sample_request m \<lparr>rp_jira = Some p, rp_issued = []\<rparr> = (\<lparr>rp_jira = Some p, rp_issued = [q]\<rparr>, Inr q)"
    "ro_route_id q = ''jira.issue.get''"
    "ro_selection q = \<lparr>se_issue_id = Some ''7'', se_issue_key = Some ''OPS-7'', se_search_label = None, se_max_results = None\<rparr>"
proof -
  obtain p m where p: "venue_policy (\<lambda>_. zero_digest) sample_venue = Inr p" "venue_fields.truncate p = sample_venue" "vp_digest p = zero_digest"
      and m: "manifest_built (\<lambda>_. zero_digest) m" "manifest_fields.truncate m = sample_scope"
    using sample_venue_built sample_scope_built by blast
  note c = sample_checks [OF p(2,3) m(2)]
  have s: "rq_service sample_request = ''jira''" by (simp add: sample_request_def)
  obtain se u d where b: "route_build (\<lambda>_. zero_digest) p sample_request m ''jira.issue.get'' ''OPS-7'' = Inr (se, u, d)"
    using upstream_built [OF p(1) m(1) zero_digest_hex _ s, of "''jira.issue.get''" "''OPS-7''"] c(2)
    by (auto simp: MATCHABLE_ROUTE_IDS_def)
  then have e: "se = \<lparr>se_issue_id = Some ''7'', se_issue_key = Some ''OPS-7'', se_search_label = None, se_max_results = None\<rparr>"
    using c(2) by (auto simp: route_build_def caught_Inr_iff guards)
  with b c(1) s obtain q where q: "route (\<lambda>_. zero_digest) sample_request m \<lparr>rp_jira = Some p, rp_issued = []\<rparr> =
      (\<lparr>rp_jira = Some p, rp_issued = [q]\<rparr>, Inr q)" "ro_route_id q = ''jira.issue.get''" "ro_selection q = se"
    by (simp add: route_def Let_def)
  show thesis by (rule that [OF p(2) q(1,2) q(3) [unfolded e]])
qed

theorem route_confined_witness:
  "\<exists>p m rp' q. route (\<lambda>_. zero_digest) sample_request m \<lparr>rp_jira = Some p, rp_issued = []\<rparr> = (rp', Inr q) \<and>
     issue_selected p m (ro_selection q) (ro_upstream q)"
proof -
  obtain p m q where "route (\<lambda>_. zero_digest) sample_request m \<lparr>rp_jira = Some p, rp_issued = []\<rparr> =
      (\<lparr>rp_jira = Some p, rp_issued = [q]\<rparr>, Inr q)" "ro_route_id q = ''jira.issue.get''"
    by (rule sample_routed)
  then show ?thesis using route_confined [of "\<lambda>_. zero_digest" sample_request m "\<lparr>rp_jira = Some p, rp_issued = []\<rparr>" _ q] by fastforce
qed

definition sample_issue :: json where
  "sample_issue = JObj [(''fields'', JObj [(''issuetype'', JObj [(''id'', JStr ''3'')]),
     (''project'', JObj [(''id'', JStr ''1''), (''key'', JStr ''OPS'')])]), (''id'', JStr ''7''), (''key'', JStr ''OPS-7'')]"

definition sample_body :: bytes where
  \<open>sample_body = ''{"fields":{"issuetype":{"id":"3"},"project":{"id":"1","key":"OPS"}},"id":"7","key":"OPS-7"}''\<close>

lemma sample_body_parsed:
  "parse_json sample_body (int MAX_RESPONSE_BYTES) True False (int MAX_JSON_STRING_BYTES) = Inr sample_issue"
proof -
  have "valid_utf8 sample_body" "prescan_depth sample_body = Inr ()" "loads True sample_body = Inr sample_issue" by code_simp+
  moreover have "checked_tree False MAX_JSON_STRING_BYTES 1 sample_issue = Inr ()"
    by (simp add: sample_issue_def canonical_eval)
  moreover have "length sample_body = 91" "take 3 sample_body = [CHR ''{'', CHR 0x22, CHR ''f'']" by code_simp+
  ultimately show ?thesis
    by (simp add: parse_json_def postwalk_eq MAX_RESPONSE_BYTES_def MAX_JSON_STRING_BYTES_def MAX_JSON_DOCUMENT_BYTES_def)
qed

theorem response_in_scope_witness:
  "\<exists>rp q p. rv_receipt_reason (check_response rp q \<lparr>pr_status = 200, pr_body = sample_body\<rparr>) = ''ok'' \<and>
     rp_jira rp = Some p \<and> venue_issue p (vp_issue_fields p) sample_issue"
proof -
  obtain p m q where p: "venue_fields.truncate p = sample_venue"
    and "route (\<lambda>_. zero_digest) sample_request m \<lparr>rp_jira = Some p, rp_issued = []\<rparr> = (\<lparr>rp_jira = Some p, rp_issued = [q]\<rparr>, Inr q)"
    and r: "ro_route_id q = ''jira.issue.get''"
    and se: "ro_selection q = \<lparr>se_issue_id = Some ''7'', se_issue_key = Some ''OPS-7'', se_search_label = None, se_max_results = None\<rparr>"
    by (rule sample_routed)
  have v: "vp_project_id p = ''1''" "vp_project_key p = ''OPS''" "vp_issue_type_id p = ''3''" "vp_issue_fields p = [''issuetype'', ''project'']"
    using arg_cong [OF p, of vp_project_id] arg_cong [OF p, of vp_project_key] arg_cong [OF p, of vp_issue_type_id]
      arg_cong [OF p, of vp_issue_fields] by (simp_all add: sample_venue_def venue_fields.defs)
  let ?response = "\<lparr>pr_status = 200, pr_body = sample_body\<rparr>"
  have "length sample_body = 91" "sample_body \<noteq> []" by code_simp+
  then obtain raw where "serialize_response ?response = Inr raw"
    by (simp add: serialize_response_def valid_status_def RESPONSE_MAX_BODY_def)
  moreover have "check_issue_get_response p (ro_selection q) sample_issue = ''ok''"
    by (simp add: check_issue_get_response_def common_issue_shape_def sample_issue_def fld_def se v identity_matches_def)
  ultimately have "rv_receipt_reason (check_response \<lparr>rp_jira = Some p, rp_issued = [q]\<rparr> q ?response) = ''ok''"
    by (simp add: check_response_def Let_def sample_body_parsed r)
  then show ?thesis
    using response_in_scope [of "\<lparr>rp_jira = Some p, rp_issued = [q]\<rparr>" q ?response] r by (fastforce simp: sample_body_parsed)
qed

theorem route_live_witness:
  "\<exists>p m rp' q. route (\<lambda>_. zero_digest) sample_request m \<lparr>rp_jira = Some p, rp_issued = []\<rparr> = (rp', Inr q)"
proof -
  obtain p m where p: "venue_policy (\<lambda>_. zero_digest) sample_venue = Inr p" "venue_fields.truncate p = sample_venue" "vp_digest p = zero_digest"
      and m: "manifest_built (\<lambda>_. zero_digest) m" "manifest_fields.truncate m = sample_scope"
    using sample_venue_built sample_scope_built by blast
  note c = sample_checks [OF p(2,3) m(2)]
  show ?thesis
    using route_live [OF p(1) _ m(1) zero_digest_hex _ c(1), of "\<lparr>rp_jira = Some p, rp_issued = []\<rparr>"] c(2)
    by (auto simp: sample_request_def)
qed
end
