(* ===== verification/Spec2Isabelle.thy ===== *)
theory Spec2Isabelle
  imports Supervision Permits Leases AccountingTransition VenueAge RunOutcome AudienceStatus ReservationBridge ReportLinks
    TelemetryGap RouteLive
begin

text \<open>
  Verification development of the package \<open>src/grafana_jsm_sandbox\<close>.

  Plan, most important behaviour first: the recovery journal (admission, dedupe, replay),
  the Forwarder's dispatch authority (leases, permits, receipts, the dispatch gate), the
  accounting policy and its event history, the Run supervision schedule.
\<close>

end
